(* ===== verification/Prelude.thy ===== *)
theory Prelude
  imports Main "HOL-Library.Word"
begin

text \<open>
  Shared vocabulary of the development. A C routine of the server either returns, with a
  value and a new state, or ends the process: \<open>outcome\<close> is that choice, with the reason
  (\<open>halt\<close>) and the last state when the process ended. \<open>bindO\<close> is sequencing,
  \<open>foldO\<close> a counted loop, and \<open>post\<close> states a pair of postconditions, one for
  returning and one for ending; the rules for them are collected in \<open>post_simps\<close>, so a proof
  about a handler is a walk over its statements. The second half holds the facts on lists
  that the hash tables and the slot arrays share.
\<close>

section \<open>Outcomes\<close>

text \<open>
  Why the process ended: \<open>exit(n)\<close>, a failed \<open>assert\<close>, an access the C standard leaves
  undefined (a dangling or uninitialised pointer, an index out of range), or a loop that
  never leaves.
\<close>

datatype halt = Exited int | Aborted | Undefined | Hang

datatype ('s, 'a) outcome = Live 'a | Dead halt 's

primrec bindO :: "('s, 'a) outcome \<Rightarrow> ('a \<Rightarrow> ('s, 'b) outcome) \<Rightarrow> ('s, 'b) outcome" where
  "bindO (Live x) f = f x"
| "bindO (Dead h s) f = Dead h s"

primrec foldO :: "('x \<Rightarrow> 'a \<Rightarrow> ('s, 'a) outcome) \<Rightarrow> 'x list \<Rightarrow> 'a \<Rightarrow> ('s, 'a) outcome" where
  "foldO f [] a = Live a"
| "foldO f (x # xs) a = bindO (f x a) (\<lambda>a'. foldO f xs a')"

text \<open>A computation that keeps no state of its own ends the process in the caller's state.\<close>

primrec at_state :: "'s \<Rightarrow> (unit, 'a) outcome \<Rightarrow> ('s, 'a) outcome" where
  "at_state s (Live x) = Live x"
| "at_state s (Dead h u) = Dead h s"

primrec post :: "('s, 'a) outcome \<Rightarrow> ('a \<Rightarrow> bool) \<Rightarrow> (halt \<Rightarrow> 's \<Rightarrow> bool) \<Rightarrow> bool" where
  "post (Live x) Q D = Q x"
| "post (Dead h s) Q D = D h s"

primrec is_live :: "('s, 'a) outcome \<Rightarrow> bool" where
  "is_live (Live x) = True"
| "is_live (Dead h s) = False"

named_theorems post_simps "postconditions of the statements of a handler"

lemma post_bind [post_simps]:
  "post (bindO m f) Q D = post m (\<lambda>x. post (f x) Q D) D"
  by (cases m) auto

lemma post_at_state [post_simps]:
  "post (at_state s m) Q D = post m Q (\<lambda>h u. D h s)"
  by (cases m) auto

lemma post_mono:
  assumes "post m Q D"
    and "\<And>x. Q x \<Longrightarrow> Q' x" and "\<And>h s. D h s \<Longrightarrow> D' h s"
  shows "post m Q' D'"
  using assms by (cases m) auto

lemma post_conj:
  "post m Q D \<Longrightarrow> post m Q' D' \<Longrightarrow> post m (\<lambda>x. Q x \<and> Q' x) (\<lambda>h s. D h s \<and> D' h s)"
  by (cases m) auto

lemma post_Live: "post m Q D \<Longrightarrow> m = Live x \<Longrightarrow> Q x"
  by simp

lemma post_Dead: "post m Q D \<Longrightarrow> m = Dead h s \<Longrightarrow> D h s"
  by simp

lemma bindO_Live_iff: "bindO m f = Live y \<longleftrightarrow> (\<exists>x. m = Live x \<and> f x = Live y)"
  by (cases m) auto

lemma bindO_Dead_iff:
  "bindO m f = Dead h s \<longleftrightarrow> m = Dead h s \<or> (\<exists>x. m = Live x \<and> f x = Dead h s)"
  by (cases m) auto

lemma bindO_assoc: "bindO (bindO m f) g = bindO m (\<lambda>x. bindO (f x) g)"
  by (cases m) auto

text \<open>The rule of a counted loop: an invariant that every iteration keeps.\<close>

lemma foldO_inv:
  assumes "\<And>x a. x \<in> set xs \<Longrightarrow> I a \<Longrightarrow> post (f x a) I D" and "I a"
  shows "post (foldO f xs a) I D"
  using assms
proof (induction xs arbitrary: a)
  case Nil
  then show ?case by simp
next
  case (Cons x xs)
  have "post (f x a) I D" using Cons.prems by simp
  then have "post (f x a) (\<lambda>a'. post (foldO f xs a') I D) D"
    by (rule post_mono) (use Cons in auto)
  then show ?case by (simp add: post_bind)
qed

text \<open>The same with an invariant that knows which elements are done.\<close>

lemma foldO_prefix_inv:
  assumes "\<And>ys x zs a. xs = ys @ x # zs \<Longrightarrow> I ys a \<Longrightarrow> post (f x a) (I (ys @ [x])) D"
    and "I [] a"
  shows "post (foldO f xs a) (I xs) D"
proof -
  have "post (foldO f zs b) (I xs) D" if "xs = ys @ zs" "I ys b" for ys zs b
    using that
  proof (induction zs arbitrary: ys b)
    case Nil
    then show ?case by simp
  next
    case (Cons z zs)
    have "post (f z b) (I (ys @ [z])) D" using assms(1) Cons.prems by simp
    then have "post (f z b) (\<lambda>a'. post (foldO f zs a') (I xs) D) D"
      by (rule post_mono) (use Cons.IH [of "ys @ [z]"] Cons.prems(1) in auto)
    then show ?case by (simp add: post_bind)
  qed
  from this [of "[]" xs a] assms(2) show ?thesis by simp
qed

section \<open>Lists\<close>

text \<open>Drop the first element that satisfies a test, as unlinking from a chain does.\<close>

primrec remove_first :: "('a \<Rightarrow> bool) \<Rightarrow> 'a list \<Rightarrow> 'a list" where
  "remove_first P [] = []"
| "remove_first P (x # xs) = (if P x then xs else x # remove_first P xs)"

lemma remove_first_id: "(\<And>x. x \<in> set xs \<Longrightarrow> \<not> P x) \<Longrightarrow> remove_first P xs = xs"
  by (induction xs) auto

lemma set_remove_first: "set (remove_first P xs) \<subseteq> set xs"
  by (induction xs) auto

lemma remove_first_filter:
  "(\<And>x. x \<in> set xs \<Longrightarrow> P x \<Longrightarrow> Q x) \<Longrightarrow>
   remove_first P (filter Q xs) = filter Q (remove_first P xs)"
  by (induction xs) auto

lemma remove_first_filter_other:
  "(\<And>x. x \<in> set xs \<Longrightarrow> P x \<Longrightarrow> \<not> Q x) \<Longrightarrow>
   filter Q (remove_first P xs) = filter Q xs"
  by (induction xs) auto

lemma remove_first_cong [fundef_cong]:
  "xs = ys \<Longrightarrow> (\<And>x. x \<in> set ys \<Longrightarrow> P x = Q x) \<Longrightarrow> remove_first P xs = remove_first Q ys"
  by (induction xs arbitrary: ys) auto

lemma remove_first_eq_remove1: "remove_first (\<lambda>x. x = a) xs = remove1 a xs"
  by (induction xs) auto

lemma remove_first_map: "remove_first P (map f xs) = map f (remove_first (P \<circ> f) xs)"
  by (induction xs) auto

lemma distinct_map_remove_first:
  "distinct (map f xs) \<Longrightarrow> distinct (map f (remove_first P xs))"
proof (induction xs)
  case Nil
  then show ?case by simp
next
  case (Cons x xs)
  then show ?case using set_remove_first [of P xs] by auto
qed

lemma set_remove_first_distinct:
  "distinct (map f xs) \<Longrightarrow>
   set (remove_first (\<lambda>x. f x = k) xs) = {x \<in> set xs. f x \<noteq> k}"
proof (induction xs)
  case Nil
  then show ?case by simp
next
  case (Cons x xs)
  show ?case
  proof (cases "f x = k")
    case True
    with Cons.prems have "\<And>y. y \<in> set xs \<Longrightarrow> f y \<noteq> k" by (auto simp: image_iff)
    with True show ?thesis by auto
  next
    case False
    with Cons show ?thesis by auto
  qed
qed

lemma find_filter: "(\<And>x. x \<in> set xs \<Longrightarrow> P x \<Longrightarrow> Q x) \<Longrightarrow> List.find P (filter Q xs) = List.find P xs"
  by (induction xs) auto

lemma find_cong_set: "(\<And>x. x \<in> set xs \<Longrightarrow> P x = Q x) \<Longrightarrow> List.find P xs = List.find Q xs"
  by (induction xs) auto

lemma find_map: "List.find P (map f xs) = map_option f (List.find (P \<circ> f) xs)"
  by (induction xs) auto

lemma find_distinct:
  "distinct (map f xs) \<Longrightarrow> x \<in> set xs \<Longrightarrow> List.find (\<lambda>y. f y = f x) xs = Some x"
  by (induction xs) (auto simp: image_iff)

end
