(* ===== verification/CLib.thy ===== *)
theory CLib
  imports Prelude
begin

text \<open>
  The parts of the C library the program leans on, as functions on C strings (character
  lists without a NUL): comparison, substring search, decimal conversion both ways and
  the bounded printing that truncates. Then the program's own string helpers: \<open>xstrcmp\<close>
  (misc.c) and \<open>replace_str\<close> (cmd_server.c), the latter on its memory buffer, since it
  moves bytes in place. Comparison functions return the difference of the first bytes
  that differ; only its sign is used.
\<close>

section \<open>C strings\<close>

abbreviation (input) NUL :: char where "NUL \<equiv> CHR 0x00"

abbreviation (input) newline :: char where "newline \<equiv> CHR 0x0A"

text \<open>What a \<open>char *\<close> to these bytes denotes: everything before the first NUL.\<close>

definition cstr :: "string \<Rightarrow> string" where
  "cstr s = takeWhile (\<lambda>c. c \<noteq> NUL) s"

definition is_cstr :: "string \<Rightarrow> bool" where
  "is_cstr s \<longleftrightarrow> NUL \<notin> set s"

lemma is_cstr_cstr [simp]: "is_cstr (cstr s)"
  by (auto simp: is_cstr_def cstr_def dest: set_takeWhileD)

lemma cstr_id [simp]: "is_cstr s \<Longrightarrow> cstr s = s"
  unfolding is_cstr_def cstr_def by (subst takeWhile_eq_all_conv) auto

lemma cstr_append_NUL: "is_cstr s \<Longrightarrow> cstr (s @ NUL # t) = s"
  unfolding is_cstr_def cstr_def by (subst takeWhile_append2) auto

lemma is_cstr_append [simp]: "is_cstr (s @ t) \<longleftrightarrow> is_cstr s \<and> is_cstr t"
  by (auto simp: is_cstr_def)

lemma is_cstr_Nil [simp]: "is_cstr []"
  by (simp add: is_cstr_def)

lemma is_cstr_take: "is_cstr s \<Longrightarrow> is_cstr (take n s)"
  by (auto simp: is_cstr_def dest: in_set_takeD)

lemma is_cstr_drop: "is_cstr s \<Longrightarrow> is_cstr (drop n s)"
  by (auto simp: is_cstr_def dest: in_set_dropD)

fun strncmp_loop :: "string \<Rightarrow> string \<Rightarrow> nat \<Rightarrow> int" where
  "strncmp_loop a b 0 = 0"
| "strncmp_loop [] [] (Suc n) = 0"
| "strncmp_loop [] (y # ys) (Suc n) = - of_char y"
| "strncmp_loop (x # xs) [] (Suc n) = of_char x"
| "strncmp_loop (x # xs) (y # ys) (Suc n) =
     (if x = y then strncmp_loop xs ys n else of_char x - of_char y)"

definition strncmp :: "string \<Rightarrow> string \<Rightarrow> nat \<Rightarrow> int" where
  "strncmp a b n = strncmp_loop (cstr a) (cstr b) n"

definition strcmp :: "string \<Rightarrow> string \<Rightarrow> int" where
  "strcmp a b = strncmp a b (Suc (max (length a) (length b)))"

text \<open>\<open>strstr\<close>: the offset of the first occurrence of the second string.\<close>

fun strstr :: "string \<Rightarrow> string \<Rightarrow> nat option" where
  "strstr [] b = (if b = [] then Some 0 else None)"
| "strstr (x # xs) b =
     (if take (length b) (x # xs) = b then Some 0 else map_option Suc (strstr xs b))"

lemma of_char_int_eq: "(of_char x :: int) = of_char y \<longleftrightarrow> x = y"
  by (simp add: of_char_eq_iff)

lemma of_char_int_0: "(of_char x :: int) = 0 \<longleftrightarrow> x = NUL"
  using of_char_int_eq [of x NUL] by simp

lemma strncmp_loop_0:
  "is_cstr a \<Longrightarrow> is_cstr b \<Longrightarrow> strncmp_loop a b n = 0 \<longleftrightarrow> take n a = take n b"
proof (induction a b n rule: strncmp_loop.induct)
  case (3 y ys n)
  then show ?case by (auto simp: is_cstr_def of_char_int_0)
next
  case (4 x xs n)
  then show ?case by (auto simp: is_cstr_def of_char_int_0)
next
  case (5 x xs y ys n)
  then show ?case by (auto simp: is_cstr_def of_char_int_eq)
qed auto

lemma strncmp_0: "strncmp a b n = 0 \<longleftrightarrow> take n (cstr a) = take n (cstr b)"
  by (simp add: strncmp_def strncmp_loop_0)

lemma length_cstr: "length (cstr s) \<le> length s"
  by (simp add: cstr_def length_takeWhile_le)

lemma strcmp_0: "strcmp a b = 0 \<longleftrightarrow> cstr a = cstr b"
  using length_cstr [of a] length_cstr [of b] by (simp add: strcmp_def strncmp_0)

lemma strstr_Some:
  "strstr s b = Some k \<Longrightarrow> k + length b \<le> length s \<and> take (length b) (drop k s) = b"
proof (induction s b arbitrary: k rule: strstr.induct)
  case (1 b)
  then show ?case by (auto split: if_splits)
next
  case (2 x xs b)
  show ?case
  proof (cases "take (length b) (x # xs) = b")
    case True
    with "2.prems" have "k = 0" by simp
    moreover have "length b \<le> Suc (length xs)"
      using arg_cong [OF True, of length] by simp
    ultimately show ?thesis using True by simp
  next
    case False
    with "2.prems" obtain j where j: "strstr xs b = Some j" "k = Suc j" by auto
    with "2.IH" [OF False j(1)] show ?thesis by simp
  qed
qed

lemma strstr_least:
  "strstr s b = Some k \<Longrightarrow> j < k \<Longrightarrow> take (length b) (drop j s) \<noteq> b"
proof (induction s b arbitrary: k j rule: strstr.induct)
  case (1 b)
  then show ?case by (auto split: if_splits)
next
  case (2 x xs b)
  then show ?case by (cases j) (auto split: if_splits)
qed

lemma strstr_None: "strstr s b = None \<Longrightarrow> take (length b) (drop j s) = b \<Longrightarrow> False"
proof (induction s b arbitrary: j rule: strstr.induct)
  case (1 b)
  then show ?case by (auto split: if_splits)
next
  case (2 x xs b)
  then show ?case by (cases j) (auto split: if_splits)
qed

section \<open>Numbers\<close>

text \<open>The conversion of a wider integer to \<open>int\<close>, which keeps the low 32 bits.\<close>

definition to_int :: "int \<Rightarrow> int" where
  "to_int x = sint (word_of_int x :: 32 word)"

lemma to_int_range: "- (2 ^ 31) \<le> to_int x \<and> to_int x < 2 ^ 31"
  using sint_greater_eq [of "word_of_int x :: 32 word"] sint_less [of "word_of_int x :: 32 word"]
  by (simp add: to_int_def)

lemma to_int_id: "- (2 ^ 31) \<le> x \<Longrightarrow> x < 2 ^ 31 \<Longrightarrow> to_int x = x"
  by (simp add: to_int_def signed_of_int signed_take_bit_int_eq_self)

text \<open>\<open>%d\<close>.\<close>

fun show_nat :: "nat \<Rightarrow> string" where
  "show_nat n = (if n < 10 then [char_of (48 + n)]
                 else show_nat (n div 10) @ [char_of (48 + n mod 10)])"

declare show_nat.simps [simp del]

definition show_int :: "int \<Rightarrow> string" where
  "show_int i = (if i < 0 then CHR ''-'' # show_nat (nat (- i)) else show_nat (nat i))"

definition is_digit :: "char \<Rightarrow> bool" where
  "is_digit c \<longleftrightarrow> 48 \<le> (of_char c :: nat) \<and> (of_char c :: nat) \<le> 57"

definition is_space :: "char \<Rightarrow> bool" where
  "is_space c \<longleftrightarrow> (of_char c :: nat) = 32 \<or> 9 \<le> (of_char c :: nat) \<and> (of_char c :: nat) \<le> 13"

fun digits_value :: "nat \<Rightarrow> string \<Rightarrow> nat" where
  "digits_value acc [] = acc"
| "digits_value acc (c # cs) =
     (if is_digit c then digits_value (acc * 10 + (of_char c - 48)) cs else acc)"

text \<open>The value \<open>strtol(s, NULL, 10)\<close> denotes before it is clamped to \<open>long\<close>.\<close>

definition strtol_value :: "string \<Rightarrow> int" where
  "strtol_value s =
     (case dropWhile is_space s of
        [] \<Rightarrow> 0
      | c # cs \<Rightarrow> if c = CHR ''-'' then - int (digits_value 0 cs)
                 else if c = CHR ''+'' then int (digits_value 0 cs)
                 else int (digits_value 0 (c # cs)))"

abbreviation (input) LONG_MIN :: int where "LONG_MIN \<equiv> - (2 ^ 63)"

abbreviation (input) LONG_MAX :: int where "LONG_MAX \<equiv> 2 ^ 63 - 1"

definition strtol :: "string \<Rightarrow> int" where
  "strtol s = max LONG_MIN (min LONG_MAX (strtol_value s))"

abbreviation (input) EINVAL :: int where "EINVAL \<equiv> 22"

abbreviation (input) ERANGE :: int where "ERANGE \<equiv> 34"

text \<open>\<open>errno\<close> after the call: set to \<open>ERANGE\<close> when the value is clamped, else left alone.\<close>

definition strtol_errno :: "int \<Rightarrow> string \<Rightarrow> int" where
  "strtol_errno e s = (if strtol s = strtol_value s then e else ERANGE)"

lemma of_char_digit: "d < 10 \<Longrightarrow> (of_char (char_of (48 + d :: nat)) :: nat) = 48 + d"
  by simp

lemma digits_value_append:
  "(\<And>c. c \<in> set xs \<Longrightarrow> is_digit c) \<Longrightarrow>
   digits_value acc (xs @ ys) = digits_value (digits_value acc xs) ys"
  by (induction xs arbitrary: acc) auto

lemma show_nat_digits: "c \<in> set (show_nat n) \<Longrightarrow> is_digit c"
proof (induction n rule: show_nat.induct)
  case (1 n)
  show ?case
  proof (cases "n < 10")
    case True
    with "1.prems" show ?thesis by (simp add: show_nat.simps [of n] is_digit_def)
  next
    case False
    then have "n mod 10 < 10" by simp
    with False 1 show ?thesis by (auto simp: show_nat.simps [of n] is_digit_def)
  qed
qed

lemma digits_value_show_nat: "digits_value 0 (show_nat n) = n"
proof (induction n rule: show_nat.induct)
  case (1 n)
  show ?case
  proof (cases "n < 10")
    case True
    then show ?thesis by (simp add: show_nat.simps [of n] is_digit_def)
  next
    case False
    have "digits_value 0 (show_nat n) =
        digits_value (digits_value 0 (show_nat (n div 10))) [char_of (48 + n mod 10)]"
      using False by (simp add: show_nat.simps [of n] digits_value_append show_nat_digits)
    also have "\<dots> = n div 10 * 10 + n mod 10"
      using False 1 by (simp add: is_digit_def)
    finally show ?thesis by simp
  qed
qed

lemma show_nat_nonempty: "show_nat n \<noteq> []"
  by (subst show_nat.simps) simp

lemma show_nat_length: "n < 10 ^ Suc k \<Longrightarrow> length (show_nat n) \<le> Suc k"
proof (induction k arbitrary: n)
  case 0
  then show ?case by (subst show_nat.simps) simp
next
  case (Suc k)
  show ?case
  proof (cases "n < 10")
    case True
    then show ?thesis by (subst show_nat.simps) simp
  next
    case False
    have "n div 10 < 10 ^ Suc k" using Suc.prems by (simp add: less_mult_imp_div_less)
    with Suc.IH [of "n div 10"] False show ?thesis by (subst show_nat.simps) simp
  qed
qed

lemma is_cstr_show_nat [simp]: "is_cstr (show_nat n)"
  using show_nat_digits [of NUL n] by (auto simp: is_cstr_def is_digit_def)

lemma is_cstr_show_int [simp]: "is_cstr (show_int i)"
  using is_cstr_show_nat by (auto simp: show_int_def is_cstr_def)

lemma is_digit_not_space: "is_digit c \<Longrightarrow> \<not> is_space c"
  by (auto simp: is_digit_def is_space_def)

lemma strtol_value_show_nat: "strtol_value (show_nat n) = int n"
proof -
  obtain c cs where s: "show_nat n = c # cs" using show_nat_nonempty [of n] by (cases "show_nat n") auto
  then have d: "is_digit c" using show_nat_digits [of c n] by simp
  then have "c \<noteq> CHR ''-''" "c \<noteq> CHR ''+''" by (auto simp: is_digit_def)
  with s d digits_value_show_nat [of n] show ?thesis
    by (simp add: strtol_value_def is_digit_not_space del: digits_value.simps)
qed

text \<open>Reading back what \<open>%d\<close> printed gives the number.\<close>

lemma strtol_value_show_int: "strtol_value (show_int i) = i"
proof (cases "i < 0")
  case True
  have "\<not> is_space (CHR ''-'')" by (simp add: is_space_def)
  with True show ?thesis
    by (simp add: show_int_def strtol_value_def digits_value_show_nat)
next
  case False
  then show ?thesis by (simp add: show_int_def strtol_value_show_nat)
qed

text \<open>\<open>snprintf\<close> into a buffer of \<open>n\<close> bytes keeps \<open>n - 1\<close> of them.\<close>

definition snprintf_buf :: "nat \<Rightarrow> string \<Rightarrow> string" where
  "snprintf_buf n s = take (n - 1) s"

section \<open>xstrcmp\<close>

definition xstrcmp :: "string option \<Rightarrow> string option \<Rightarrow> int" where
  "xstrcmp a b =
     (if a = None \<and> b = None then 0
      else case a of
        None \<Rightarrow> -1
      | Some x \<Rightarrow> (case b of None \<Rightarrow> 1 | Some y \<Rightarrow> strcmp x y))"

lemma xstrcmp_0:
  "pred_option is_cstr a \<Longrightarrow> pred_option is_cstr b \<Longrightarrow> xstrcmp a b = 0 \<longleftrightarrow> a = b"
  by (cases a; cases b) (simp_all add: xstrcmp_def strcmp_0)

section \<open>replace_str\<close>

text \<open>
  The buffer is the string with its terminating NUL (and whatever follows). \<open>memcpy\<close>
  and \<open>memmove\<close> write into it; a write outside the buffer is undefined.
\<close>

definition mem_write :: "nat \<Rightarrow> string \<Rightarrow> string \<Rightarrow> (unit, string) outcome" where
  "mem_write i bs buf =
     (if i + length bs \<le> length buf then Live (take i buf @ bs @ drop (i + length bs) buf)
      else Dead Undefined ())"

definition replace_str :: "string \<Rightarrow> string \<Rightarrow> string \<Rightarrow> (unit, string) outcome" where
  "replace_str buf a b =
     (case strstr (cstr buf) a of
        None \<Rightarrow> Live buf
      | Some in_ptr \<Rightarrow>
          (let a_len = length a; b_len = length b
           in if b_len > a_len then Live buf
              else let in_len = length (drop in_ptr (cstr buf))
                   in bindO (mem_write in_ptr b buf)
                        (\<lambda>m. mem_write (in_ptr + b_len)
                              (take (in_len - a_len + 1) (drop (in_ptr + a_len) m)) m)))"

text \<open>What the routine is for: the first occurrence is replaced, in place.\<close>

definition subst_first :: "string \<Rightarrow> string \<Rightarrow> string \<Rightarrow> string" where
  "subst_first s a b =
     (case strstr s a of None \<Rightarrow> s | Some k \<Rightarrow> take k s @ b @ drop (k + length a) s)"

lemma mem_write_Live:
  "i + length bs \<le> length buf \<Longrightarrow>
   mem_write i bs buf = Live (take i buf @ bs @ drop (i + length bs) buf)"
  by (simp add: mem_write_def)

lemma replace_str_spec:
  assumes s: "is_cstr s" and b: "is_cstr b" and len: "length b \<le> length a"
  obtains m where "replace_str (s @ [NUL]) a b = Live m"
    and "cstr m = subst_first s a b" and "length m = Suc (length s)"
proof (cases "strstr s a")
  case None
  then have "replace_str (s @ [NUL]) a b = Live (s @ [NUL])"
    using s by (simp add: replace_str_def cstr_append_NUL)
  with that None s show ?thesis by (simp add: subst_first_def cstr_append_NUL)
next
  case (Some k)
  have k: "k + length a \<le> length s" using strstr_Some [OF Some] by simp
  let ?m = "take k s @ b @ drop (k + length b) (s @ [NUL])"
  let ?tail = "drop (k + length a) (s @ [NUL])"
  have w1: "mem_write k b (s @ [NUL]) = Live ?m"
    using k len by (simp add: mem_write_def)
  have tail: "take (length s - k - length a + 1) (drop (k + length a) ?m) = ?tail"
    using k len by (simp add: add.commute)
  have w2: "mem_write (k + length b) ?tail ?m
      = Live (take k s @ b @ ?tail @ drop (k + length b + length ?tail) ?m)"
    using k len by (simp add: mem_write_def)
  let ?r = "take k s @ b @ ?tail @ drop (k + length b + length ?tail) ?m"
  have "replace_str (s @ [NUL]) a b = bindO (mem_write k b (s @ [NUL]))
      (\<lambda>m. mem_write (k + length b)
        (take (length s - k - length a + 1) (drop (k + length a) m)) m)"
    using Some s len by (simp add: replace_str_def cstr_append_NUL Let_def)
  then have r: "replace_str (s @ [NUL]) a b = Live ?r"
    by (simp only: w1 bindO.simps tail w2)
  have "?tail = drop (k + length a) s @ [NUL]" using k by simp
  then have rest: "take k s @ b @ ?tail @ X = (take k s @ b @ drop (k + length a) s) @ NUL # X" for X
    by (simp only: append_assoc append_Cons append_Nil)
  have "is_cstr (take k s @ b @ drop (k + length a) s)"
    using s b by (simp add: is_cstr_take is_cstr_drop)
  then have c: "cstr ?r = take k s @ b @ drop (k + length a) s"
    unfolding rest by (rule cstr_append_NUL)
  have l: "length ?r = Suc (length s)" using k len by simp
  show ?thesis
    by (rule that [OF r]) (simp_all only: c l subst_first_def Some option.case)
qed

text \<open>
  C26. \<open>replace_str\<close> on a string buffer never writes outside it, keeps its length, and leaves
  the string with the first occurrence of \<open>a\<close> replaced by \<open>b\<close>; a replacement that is longer
  than what it replaces leaves the buffer as it was.
\<close>

theorem replace_str_correct:
  assumes "is_cstr s" and "is_cstr b"
  shows "\<exists>m. replace_str (s @ [NUL]) a b = Live m \<and> length m = Suc (length s) \<and>
    cstr m = (if length b \<le> length a then subst_first s a b else s)"
proof (cases "length b \<le> length a")
  case True
  from replace_str_spec [OF assms True] show ?thesis using True by metis
next
  case False
  then have "replace_str (s @ [NUL]) a b = Live (s @ [NUL])"
    by (simp add: replace_str_def split: option.split)
  with False assms(1) show ?thesis by (simp add: cstr_append_NUL)
qed

lemma replace_str_correct_witness:
  "\<exists>m. replace_str (''/tmp/log_%(NUM)'' @ [NUL]) ''%(NUM)'' ''12'' = Live m \<and> cstr m = ''/tmp/log_12''"
proof -
  have "subst_first ''/tmp/log_%(NUM)'' ''%(NUM)'' ''12'' = ''/tmp/log_12''"
    by (simp add: subst_first_def)
  with replace_str_correct [of "''/tmp/log_%(NUM)''" "''12''" "''%(NUM)''"] show ?thesis
    by (auto simp: is_cstr_def)
qed

end
