(* ===== verification/Tables.thy ===== *)
theory Tables
  imports CLib
begin

text \<open>
  The contract of the program's tables, before any implementation of them. A table is a
  list of entries, newest first, spread over buckets: \<open>holds h L\<close> says that \<open>h\<close> stores
  the entries \<open>L\<close>. The locale \<open>symbol_table\<close> is what a client may rely on: inserting puts an
  entry in front, looking up finds the newest entry that matches the query, removing drops
  the newest entry with the same key. \<open>exact_table\<close> is the case where queries are keys,
  and there the table is a finite map as long as keys are not repeated. The second
  half proves the three operations once for any bucket function; uvhash.c instantiates
  it twice.
\<close>

section \<open>The interface\<close>

locale symbol_table =
  fixes create :: "nat \<Rightarrow> 'h"
    and insert_t :: "'h \<Rightarrow> 'k \<Rightarrow> 'v \<Rightarrow> 'h"
    and lookup_t :: "'h \<Rightarrow> 'q \<Rightarrow> 'v option"
    and remove_t :: "'h \<Rightarrow> 'k \<Rightarrow> 'h"
    and holds :: "'h \<Rightarrow> ('k \<times> 'v) list \<Rightarrow> bool"
    and matches :: "'q \<Rightarrow> 'k \<Rightarrow> bool"
    and same :: "'k \<Rightarrow> 'k \<Rightarrow> bool"
  assumes holds_create: "0 < n \<Longrightarrow> holds (create n) []"
    and holds_insert: "holds h L \<Longrightarrow> holds (insert_t h k v) ((k, v) # L)"
    and lookup_holds: "holds h L \<Longrightarrow>
          lookup_t h q = map_option snd (List.find (\<lambda>e. matches q (fst e)) L)"
    and holds_remove: "holds h L \<Longrightarrow> (\<And>j. same j k \<Longrightarrow> j \<in> fst ` set L \<Longrightarrow> j = k) \<Longrightarrow>
          holds (remove_t h k) (remove_first (\<lambda>e. same (fst e) k) L)"
begin

lemma lookup_create: "0 < n \<Longrightarrow> lookup_t (create n) q = None"
  by (simp add: lookup_holds [OF holds_create])

lemma lookup_insert:
  "holds h L \<Longrightarrow> lookup_t (insert_t h k v) q = (if matches q k then Some v else lookup_t h q)"
  by (simp add: lookup_holds [OF holds_insert] lookup_holds)

lemma lookup_None: "holds h L \<Longrightarrow> lookup_t h q = None \<longleftrightarrow> (\<forall>e \<in> set L. \<not> matches q (fst e))"
  by (auto simp: lookup_holds find_None_iff)

lemma lookup_Some_in:
  assumes "holds h L" and "lookup_t h q = Some v"
  shows "\<exists>k. (k, v) \<in> set L \<and> matches q k"
proof -
  from assms obtain e where "List.find (\<lambda>e. matches q (fst e)) L = Some e" and "snd e = v"
    by (auto simp: lookup_holds)
  then have "e \<in> set L" "matches q (fst e)" by (auto simp: find_Some_iff)
  with \<open>snd e = v\<close> show ?thesis by (cases e) auto
qed

end

locale exact_table = symbol_table create insert_t lookup_t remove_t holds "(=)" "(=)"
  for create :: "nat \<Rightarrow> 'h"
    and insert_t :: "'h \<Rightarrow> 'k \<Rightarrow> 'v \<Rightarrow> 'h"
    and lookup_t :: "'h \<Rightarrow> 'k \<Rightarrow> 'v option"
    and remove_t :: "'h \<Rightarrow> 'k \<Rightarrow> 'h"
    and holds :: "'h \<Rightarrow> ('k \<times> 'v) list \<Rightarrow> bool"
begin

lemma lookup_map_of: "holds h L \<Longrightarrow> lookup_t h k = map_of L k"
proof -
  have "map_option snd (List.find (\<lambda>e. k = fst e) L) = map_of L k"
    by (induction L) auto
  then show "holds h L \<Longrightarrow> lookup_t h k = map_of L k" by (simp add: lookup_holds)
qed

lemma holds_remove_key: "holds h L \<Longrightarrow> holds (remove_t h k) (remove_first (\<lambda>e. fst e = k) L)"
  by (rule holds_remove)

lemma lookup_remove:
  assumes "holds h L" and "distinct (map fst L)"
  shows "lookup_t (remove_t h k) = (lookup_t h)(k := None)"
proof -
  have "map_of (remove_first (\<lambda>e. fst e = k) L) j = ((map_of L)(k := None)) j" for j
    using assms(2)
  proof (induction L)
    case Nil
    then show ?case by simp
  next
    case (Cons e L)
    have "map_of L k = None" if "fst e = k"
      using Cons.prems that by (simp add: map_of_eq_None_iff)
    with Cons show ?case by (cases e) auto
  qed
  then show ?thesis
    by (simp add: fun_eq_iff lookup_map_of [OF holds_remove_key [OF assms(1)]]
        lookup_map_of [OF assms(1)])
qed

end

section \<open>Chains in buckets\<close>

definition bucketed ::
    "('k \<Rightarrow> nat) \<Rightarrow> nat \<Rightarrow> ('k \<times> 'v) list list \<Rightarrow> ('k \<times> 'v) list \<Rightarrow> bool" where
  "bucketed idx n bs L \<longleftrightarrow>
     0 < n \<and> length bs = n \<and> (\<forall>k. idx k < n) \<and>
     (\<forall>i < n. bs ! i = filter (\<lambda>e. idx (fst e) = i) L)"

lemma bucketed_empty: "0 < n \<Longrightarrow> (\<And>k. idx k < n) \<Longrightarrow> bucketed idx n (replicate n []) []"
  by (simp add: bucketed_def)

lemma bucketed_insert:
  "bucketed idx n bs L \<Longrightarrow> bucketed idx n (bs[idx k := (k, v) # bs ! idx k]) ((k, v) # L)"
  by (auto simp: bucketed_def nth_list_update)

lemma bucketed_lookup:
  assumes "bucketed idx n bs L" and "i < n" and "\<And>e. e \<in> set L \<Longrightarrow> P e \<Longrightarrow> idx (fst e) = i"
  shows "List.find P (bs ! i) = List.find P L"
  using assms by (simp add: bucketed_def find_filter)

lemma bucketed_remove:
  assumes b: "bucketed idx n bs L" and P: "\<And>e. e \<in> set L \<Longrightarrow> P e \<Longrightarrow> idx (fst e) = i" and i: "i < n"
  shows "bucketed idx n (bs[i := remove_first P (bs ! i)]) (remove_first P L)"
proof -
  have "(bs[i := remove_first P (bs ! i)]) ! j = filter (\<lambda>e. idx (fst e) = j) (remove_first P L)"
    if j: "j < n" for j
  proof (cases "j = i")
    case True
    with b i P show ?thesis by (simp add: bucketed_def remove_first_filter)
  next
    case False
    with b i j P have "filter (\<lambda>e. idx (fst e) = j) (remove_first P L) = filter (\<lambda>e. idx (fst e) = j) L"
      by (intro remove_first_filter_other) auto
    with False b j show ?thesis by (simp add: bucketed_def)
  qed
  with b show ?thesis by (simp add: bucketed_def)
qed

end
