(* ===== verification/UvHash.thy ===== *)
theory UvHash
  imports Tables
begin

text \<open>
  uvhash.c: two hash tables with chaining, \<open>uvhash\<close> with 32-bit keys and \<open>uvstrhash\<close>
  with \<open>char *\<close> keys. Hashes are 32-bit words. A chain is the list of its entries from
  the head. The string table compares the bytes of keys when it looks up, but the pointer
  itself when it removes, so a key here is the pointer (\<open>sp_addr\<close>) with the string it
  points to (\<open>sp_str\<close>). Each table is shown to satisfy the contract \<open>symbol_table\<close>.
\<close>

unbundle bit_operations_syntax

section \<open>Hash functions\<close>

definition hash_uint :: "32 word \<Rightarrow> 32 word" where
  "hash_uint x = x * 2654435761"

text \<open>\<open>char\<close> is signed on the platforms the server is built for.\<close>

definition char_to_int :: "char \<Rightarrow> int" where
  "char_to_int c = (let n = of_char c in if n < 128 then n else n - 256)"

primrec hash_str_loop :: "32 word \<Rightarrow> string \<Rightarrow> 32 word" where
  "hash_str_loop h [] = h"
| "hash_str_loop h (c # x) =
     (if c = NUL then h
      else hash_str_loop ((push_bit 5 h + h) XOR word_of_int (char_to_int c)) x)"

definition hash_str :: "string \<Rightarrow> 32 word" where
  "hash_str x = hash_str_loop 5381 x"

text \<open>An unsigned number modulo a table size is an index of the table.\<close>

lemma index_less: "0 < n \<Longrightarrow> nat (k mod int n) < n"
  by (simp add: nat_less_iff)

section \<open>Tables keyed by integers\<close>

record 'v uvhash_ent =
  he_key :: "32 word"
  he_value :: 'v

record 'v uvhash =
  h_size :: nat
  h_buckets :: "'v uvhash_ent list list"

definition uvhash_new :: "nat \<Rightarrow> 'v uvhash" where
  "uvhash_new sz = \<lparr>h_size = sz, h_buckets = replicate sz []\<rparr>"

definition uvhash_bucket :: "'v uvhash \<Rightarrow> 32 word \<Rightarrow> nat" where
  "uvhash_bucket h k = nat (uint (hash_uint k) mod int (h_size h))"

definition uvhash_insert :: "'v uvhash \<Rightarrow> 32 word \<Rightarrow> 'v \<Rightarrow> 'v uvhash" where
  "uvhash_insert h k v =
     (let ent = \<lparr>he_key = k, he_value = v\<rparr>;
          l = uvhash_bucket h k
      in h\<lparr>h_buckets := (h_buckets h)[l := ent # h_buckets h ! l]\<rparr>)"

primrec uvhash_find_loop :: "32 word \<Rightarrow> 'v uvhash_ent list \<Rightarrow> 'v option" where
  "uvhash_find_loop k [] = None"
| "uvhash_find_loop k (ent # l) =
     (if he_key ent = k then Some (he_value ent) else uvhash_find_loop k l)"

definition uvhash_find :: "'v uvhash \<Rightarrow> 32 word \<Rightarrow> 'v option" where
  "uvhash_find h k = uvhash_find_loop k (h_buckets h ! uvhash_bucket h k)"

primrec uvhash_remove_loop :: "32 word \<Rightarrow> 'v uvhash_ent list \<Rightarrow> 'v uvhash_ent list" where
  "uvhash_remove_loop k [] = []"
| "uvhash_remove_loop k (ent # l) =
     (if he_key ent = k then l else ent # uvhash_remove_loop k l)"

definition uvhash_remove :: "'v uvhash \<Rightarrow> 32 word \<Rightarrow> 'v uvhash" where
  "uvhash_remove h k =
     (let l = uvhash_bucket h k
      in h\<lparr>h_buckets := (h_buckets h)[l := uvhash_remove_loop k (h_buckets h ! l)]\<rparr>)"

text \<open>The lines \<open>uvhash_bucket_fill\<close> prints: each bucket with its number of entries.\<close>

definition uvhash_bucket_fill :: "'v uvhash \<Rightarrow> string" where
  "uvhash_bucket_fill h =
     concat (map (\<lambda>i. show_nat i @ [CHR 0x09] @ show_nat (length (h_buckets h ! i)) @ [newline])
       [0..<h_size h])"

abbreviation he_pair :: "'v uvhash_ent \<Rightarrow> 32 word \<times> 'v" where
  "he_pair e \<equiv> (he_key e, he_value e)"

definition uvhash_holds :: "'v uvhash \<Rightarrow> (32 word \<times> 'v) list \<Rightarrow> bool" where
  "uvhash_holds h L \<longleftrightarrow> bucketed (uvhash_bucket h) (h_size h) (map (map he_pair) (h_buckets h)) L"

lemma uvhash_find_loop_eq:
  "uvhash_find_loop k l = map_option snd (List.find (\<lambda>e. k = fst e) (map he_pair l))"
  by (induction l) auto

lemma uvhash_remove_loop_eq:
  "map he_pair (uvhash_remove_loop k l) = remove_first (\<lambda>e. fst e = k) (map he_pair l)"
  by (induction l) auto

lemma uvhash_bucket_less: "0 < h_size h \<Longrightarrow> uvhash_bucket h k < h_size h"
  by (simp add: uvhash_bucket_def index_less)

lemma uvhash_bucket_upd [simp]:
  "uvhash_bucket (h\<lparr>h_buckets := bs\<rparr>) = uvhash_bucket h"
  by (simp add: uvhash_bucket_def fun_eq_iff)

lemma uvhash_new_holds: "0 < n \<Longrightarrow> uvhash_holds (uvhash_new n) []"
  by (simp add: uvhash_holds_def uvhash_new_def bucketed_empty uvhash_bucket_def index_less)

lemma uvhash_insert_holds:
  assumes "uvhash_holds h L"
  shows "uvhash_holds (uvhash_insert h k v) ((k, v) # L)"
proof -
  have "uvhash_bucket h k < length (h_buckets h)"
    using assms by (simp add: uvhash_holds_def bucketed_def)
  with bucketed_insert [OF assms [unfolded uvhash_holds_def], of k v] show ?thesis
    by (simp add: uvhash_holds_def uvhash_insert_def Let_def map_update)
qed

lemma uvhash_find_holds:
  assumes "uvhash_holds h L"
  shows "uvhash_find h q = map_option snd (List.find (\<lambda>e. q = fst e) L)"
proof -
  have l: "uvhash_bucket h q < h_size h" "length (h_buckets h) = h_size h"
    using assms by (auto simp: uvhash_holds_def bucketed_def)
  with bucketed_lookup [OF assms [unfolded uvhash_holds_def] l(1), of "\<lambda>e. q = fst e"]
  show ?thesis by (simp add: uvhash_find_def uvhash_find_loop_eq)
qed

lemma uvhash_remove_holds:
  assumes "uvhash_holds h L"
  shows "uvhash_holds (uvhash_remove h k) (remove_first (\<lambda>e. fst e = k) L)"
proof -
  have l: "uvhash_bucket h k < h_size h" "length (h_buckets h) = h_size h"
    using assms by (auto simp: uvhash_holds_def bucketed_def)
  have "bucketed (uvhash_bucket h) (h_size h)
      ((map (map he_pair) (h_buckets h))[uvhash_bucket h k :=
         remove_first (\<lambda>e. fst e = k) (map (map he_pair) (h_buckets h) ! uvhash_bucket h k)])
      (remove_first (\<lambda>e. fst e = k) L)"
    by (rule bucketed_remove [OF assms [unfolded uvhash_holds_def]]) (use l in auto)
  with l show ?thesis
    by (simp add: uvhash_holds_def uvhash_remove_def Let_def map_update uvhash_remove_loop_eq)
qed

interpretation uv: exact_table uvhash_new uvhash_insert uvhash_find uvhash_remove uvhash_holds
  by unfold_locales
    (simp_all add: uvhash_new_holds uvhash_insert_holds uvhash_find_holds uvhash_remove_holds)

section \<open>Tables keyed by strings\<close>

record strptr =
  sp_addr :: nat
  sp_str :: string

record 'v uvstrhash_ent =
  she_key :: strptr
  she_value :: 'v

record 'v uvstrhash =
  sh_size :: nat
  sh_buckets :: "'v uvstrhash_ent list list"

definition uvstrhash_new :: "nat \<Rightarrow> 'v uvstrhash" where
  "uvstrhash_new sz = \<lparr>sh_size = sz, sh_buckets = replicate sz []\<rparr>"

definition uvstrhash_bucket :: "'v uvstrhash \<Rightarrow> string \<Rightarrow> nat" where
  "uvstrhash_bucket h k = nat (uint (hash_str k) mod int (sh_size h))"

definition uvstrhash_insert :: "'v uvstrhash \<Rightarrow> strptr \<Rightarrow> 'v \<Rightarrow> 'v uvstrhash" where
  "uvstrhash_insert h k v =
     (let ent = \<lparr>she_key = k, she_value = v\<rparr>;
          l = uvstrhash_bucket h (sp_str k)
      in h\<lparr>sh_buckets := (sh_buckets h)[l := ent # sh_buckets h ! l]\<rparr>)"

primrec uvstrhash_find_loop :: "string \<Rightarrow> 'v uvstrhash_ent list \<Rightarrow> 'v option" where
  "uvstrhash_find_loop k [] = None"
| "uvstrhash_find_loop k (ent # l) =
     (if strcmp (sp_str (she_key ent)) k = 0 then Some (she_value ent)
      else uvstrhash_find_loop k l)"

definition uvstrhash_find :: "'v uvstrhash \<Rightarrow> string \<Rightarrow> 'v option" where
  "uvstrhash_find h k = uvstrhash_find_loop k (sh_buckets h ! uvstrhash_bucket h k)"

text \<open>Removal compares pointers: \<open>ent->she_key == k\<close>.\<close>

primrec uvstrhash_remove_loop :: "strptr \<Rightarrow> 'v uvstrhash_ent list \<Rightarrow> 'v uvstrhash_ent list" where
  "uvstrhash_remove_loop k [] = []"
| "uvstrhash_remove_loop k (ent # l) =
     (if sp_addr (she_key ent) = sp_addr k then l else ent # uvstrhash_remove_loop k l)"

definition uvstrhash_remove :: "'v uvstrhash \<Rightarrow> strptr \<Rightarrow> 'v uvstrhash" where
  "uvstrhash_remove h k =
     (let l = uvstrhash_bucket h (sp_str k)
      in h\<lparr>sh_buckets := (sh_buckets h)[l := uvstrhash_remove_loop k (sh_buckets h ! l)]\<rparr>)"

definition uvstrhash_bucket_fill :: "'v uvstrhash \<Rightarrow> string" where
  "uvstrhash_bucket_fill h =
     concat (map (\<lambda>i. show_nat i @ [CHR 0x09] @ show_nat (length (sh_buckets h ! i)) @ [newline])
       [0..<sh_size h])"

abbreviation she_pair :: "'v uvstrhash_ent \<Rightarrow> strptr \<times> 'v" where
  "she_pair e \<equiv> (she_key e, she_value e)"

definition str_matches :: "string \<Rightarrow> strptr \<Rightarrow> bool" where
  "str_matches q k \<longleftrightarrow> strcmp (sp_str k) q = 0"

definition same_ptr :: "strptr \<Rightarrow> strptr \<Rightarrow> bool" where
  "same_ptr j k \<longleftrightarrow> sp_addr j = sp_addr k"

definition uvstrhash_holds :: "'v uvstrhash \<Rightarrow> (strptr \<times> 'v) list \<Rightarrow> bool" where
  "uvstrhash_holds h L \<longleftrightarrow>
     bucketed (\<lambda>k. uvstrhash_bucket h (sp_str k)) (sh_size h)
       (map (map she_pair) (sh_buckets h)) L"

lemma uvstrhash_find_loop_eq:
  "uvstrhash_find_loop k l = map_option snd (List.find (\<lambda>e. str_matches k (fst e)) (map she_pair l))"
  by (induction l) (auto simp: str_matches_def)

lemma uvstrhash_remove_loop_eq:
  "map she_pair (uvstrhash_remove_loop k l) = remove_first (\<lambda>e. same_ptr (fst e) k) (map she_pair l)"
  by (induction l) (auto simp: same_ptr_def)

lemma uvstrhash_bucket_upd [simp]:
  "uvstrhash_bucket (h\<lparr>sh_buckets := bs\<rparr>) = uvstrhash_bucket h"
  by (simp add: uvstrhash_bucket_def fun_eq_iff)

lemma hash_str_cstr: "hash_str (cstr s) = hash_str s"
proof -
  have "hash_str_loop h (cstr s) = hash_str_loop h s" for h
    by (induction s arbitrary: h) (auto simp: cstr_def)
  then show ?thesis by (simp add: hash_str_def)
qed

lemma str_matches_hash: "str_matches q k \<Longrightarrow> hash_str (sp_str k) = hash_str q"
  using hash_str_cstr [of q] hash_str_cstr [of "sp_str k"] by (simp add: str_matches_def strcmp_0)

lemma uvstrhash_new_holds: "0 < n \<Longrightarrow> uvstrhash_holds (uvstrhash_new n) []"
  by (simp add: uvstrhash_holds_def uvstrhash_new_def bucketed_empty uvstrhash_bucket_def index_less)

lemma uvstrhash_insert_holds:
  assumes "uvstrhash_holds h L"
  shows "uvstrhash_holds (uvstrhash_insert h k v) ((k, v) # L)"
proof -
  have "uvstrhash_bucket h (sp_str k) < length (sh_buckets h)"
    using assms by (simp add: uvstrhash_holds_def bucketed_def uvstrhash_bucket_def index_less)
  with bucketed_insert [OF assms [unfolded uvstrhash_holds_def], of k v] show ?thesis
    by (simp add: uvstrhash_holds_def uvstrhash_insert_def Let_def map_update)
qed

lemma uvstrhash_find_holds:
  assumes "uvstrhash_holds h L"
  shows "uvstrhash_find h q = map_option snd (List.find (\<lambda>e. str_matches q (fst e)) L)"
proof -
  have l: "uvstrhash_bucket h q < sh_size h" "length (sh_buckets h) = sh_size h"
    using assms by (auto simp: uvstrhash_holds_def bucketed_def uvstrhash_bucket_def index_less)
  have "List.find (\<lambda>e. str_matches q (fst e)) (map (map she_pair) (sh_buckets h) ! uvstrhash_bucket h q)
      = List.find (\<lambda>e. str_matches q (fst e)) L"
    by (rule bucketed_lookup [OF assms [unfolded uvstrhash_holds_def] l(1)])
      (simp add: uvstrhash_bucket_def str_matches_hash)
  with l show ?thesis by (simp add: uvstrhash_find_def uvstrhash_find_loop_eq)
qed

lemma uvstrhash_remove_holds:
  assumes "uvstrhash_holds h L" and "\<And>j. same_ptr j k \<Longrightarrow> j \<in> fst ` set L \<Longrightarrow> j = k"
  shows "uvstrhash_holds (uvstrhash_remove h k) (remove_first (\<lambda>e. same_ptr (fst e) k) L)"
proof -
  have l: "uvstrhash_bucket h (sp_str k) < sh_size h" "length (sh_buckets h) = sh_size h"
    using assms(1) by (auto simp: uvstrhash_holds_def bucketed_def uvstrhash_bucket_def index_less)
  have "bucketed (\<lambda>k. uvstrhash_bucket h (sp_str k)) (sh_size h)
      ((map (map she_pair) (sh_buckets h))[uvstrhash_bucket h (sp_str k) :=
         remove_first (\<lambda>e. same_ptr (fst e) k)
           (map (map she_pair) (sh_buckets h) ! uvstrhash_bucket h (sp_str k))])
      (remove_first (\<lambda>e. same_ptr (fst e) k) L)"
  proof (rule bucketed_remove [OF assms(1) [unfolded uvstrhash_holds_def] _ l(1)])
    fix e
    assume "e \<in> set L" and "same_ptr (fst e) k"
    with assms(2) [of "fst e"] have "fst e = k" by simp
    then show "uvstrhash_bucket h (sp_str (fst e)) = uvstrhash_bucket h (sp_str k)" by simp
  qed
  with l show ?thesis
    by (simp add: uvstrhash_holds_def uvstrhash_remove_def Let_def map_update
        uvstrhash_remove_loop_eq)
qed

interpretation ustr: symbol_table uvstrhash_new uvstrhash_insert uvstrhash_find uvstrhash_remove
    uvstrhash_holds str_matches same_ptr
  by unfold_locales
    (fact uvstrhash_new_holds uvstrhash_insert_holds uvstrhash_find_holds
      uvstrhash_remove_holds)+

section \<open>Histories of operations\<close>

text \<open>
  A table after any history of insertions and removals, against an association list that
  the same history acts on: insertion puts a binding in front, removal takes away the most
  recent binding of the key (the older ones come back, as in the code).
\<close>

datatype ('k, 'v) table_op = Insert 'k 'v | Remove 'k

primrec op_key :: "('k, 'v) table_op \<Rightarrow> 'k" where
  "op_key (Insert k v) = k"
| "op_key (Remove k) = k"

primrec uvhash_step :: "(32 word, 'v) table_op \<Rightarrow> 'v uvhash \<Rightarrow> 'v uvhash" where
  "uvhash_step (Insert k v) h = uvhash_insert h k v"
| "uvhash_step (Remove k) h = uvhash_remove h k"

primrec uvstrhash_step :: "(strptr, 'v) table_op \<Rightarrow> 'v uvstrhash \<Rightarrow> 'v uvstrhash" where
  "uvstrhash_step (Insert k v) h = uvstrhash_insert h k v"
| "uvstrhash_step (Remove k) h = uvstrhash_remove h k"

primrec alist_step :: "('k \<Rightarrow> 'k \<Rightarrow> bool) \<Rightarrow> ('k, 'v) table_op \<Rightarrow> ('k \<times> 'v) list \<Rightarrow> ('k \<times> 'v) list" where
  "alist_step eq (Insert k v) L = (k, v) # L"
| "alist_step eq (Remove k) L = remove_first (\<lambda>e. eq (fst e) k) L"

lemma uvhash_history: "uvhash_holds h L \<Longrightarrow> uvhash_holds (fold uvhash_step ops h) (fold (alist_step (=)) ops L)"
proof (induction ops arbitrary: h L)
  case Nil
  then show ?case by simp
next
  case (Cons op ops)
  have "uvhash_holds (uvhash_step op h) (alist_step (=) op L)"
    by (cases op) (simp_all add: uv.holds_insert uv.holds_remove_key Cons.prems)
  with Cons.IH show ?case by simp
qed

lemma uvstrhash_history:
  assumes "\<And>j k. j \<in> K \<Longrightarrow> k \<in> K \<Longrightarrow> same_ptr j k \<Longrightarrow> j = k"
  shows "uvstrhash_holds h L \<Longrightarrow> fst ` set L \<subseteq> K \<Longrightarrow> op_key ` set ops \<subseteq> K \<Longrightarrow>
    uvstrhash_holds (fold uvstrhash_step ops h) (fold (alist_step same_ptr) ops L)"
proof (induction ops arbitrary: h L)
  case Nil
  then show ?case by simp
next
  case (Cons op ops)
  have "uvstrhash_holds (uvstrhash_step op h) (alist_step same_ptr op L) \<and>
      fst ` set (alist_step same_ptr op L) \<subseteq> K"
  proof (cases op)
    case (Insert k v)
    with Cons.prems show ?thesis by (simp add: ustr.holds_insert)
  next
    case (Remove k)
    have "uvstrhash_holds (uvstrhash_remove h k) (remove_first (\<lambda>e. same_ptr (fst e) k) L)"
      by (rule ustr.holds_remove [OF Cons.prems(1)]) (use assms Cons.prems Remove in auto)
    moreover have "fst ` set (remove_first (\<lambda>e. same_ptr (fst e) k) L) \<subseteq> K"
      using set_remove_first [of _ L] Cons.prems(2) by blast
    ultimately show ?thesis using Remove by simp
  qed
  with Cons.IH [of "uvstrhash_step op h" "alist_step same_ptr op L"] Cons.prems(3) show ?case by simp
qed

text \<open>
  The table keyed by integers, of any positive size and after any history of insertions
  and removals, answers a lookup as the association list does.
\<close>

theorem uvhash_refines_alist:
  assumes "0 < n"
  shows "uvhash_find (fold uvhash_step ops (uvhash_new n)) k = map_of (fold (alist_step (=)) ops []) k"
  by (rule uv.lookup_map_of [OF uvhash_history [OF uv.holds_create [OF assms]]])

lemma uvhash_refines_alist_witness:
  "uvhash_find (fold uvhash_step [Insert 1 ''a'', Insert 17 ''b'', Insert 1 ''c'', Remove 17, Remove 1]
     (uvhash_new 16)) 1 = Some ''a''"
  by (subst uvhash_refines_alist) simp_all

text \<open>
  C23. The table keyed by strings does the same, as long as one pointer always points to one
  string while the table is used (removal compares pointers, lookup compares strings).
\<close>

theorem uvstrhash_refines_alist:
  assumes "0 < n"
    and "\<forall>j \<in> op_key ` set ops. \<forall>k \<in> op_key ` set ops. same_ptr j k \<longrightarrow> j = k"
  shows "uvstrhash_find (fold uvstrhash_step ops (uvstrhash_new n)) q =
    map_option snd (List.find (\<lambda>e. str_matches q (fst e)) (fold (alist_step same_ptr) ops []))"
  by (rule ustr.lookup_holds [OF uvstrhash_history [OF _ ustr.holds_create [OF assms(1)], OF _ _ order_refl]])
    (use assms(2) in auto)

lemma uvstrhash_refines_alist_witness:
  "uvstrhash_find (fold uvstrhash_step
     [Insert \<lparr>sp_addr = 1, sp_str = ''web''\<rparr> (10::nat), Insert \<lparr>sp_addr = 2, sp_str = ''db''\<rparr> 20,
      Remove \<lparr>sp_addr = 1, sp_str = ''web''\<rparr>] (uvstrhash_new 16)) ''db'' = Some 20"
  by (subst uvstrhash_refines_alist) (auto simp: same_ptr_def str_matches_def strcmp_0)

end
