(* ===== verification/Json.thy ===== *)
theory Json
  imports Complex_Main CLib "HOL-Library.Monad_Syntax"
begin

text \<open>
  The JSON values the program reads and builds. json-c itself is not part of the
  repository: parsing a text into a value and printing a value as text are parameters of
  the model (see \<open>env\<close> in the theory State). What is here is the value and the accessors
  the program calls on one. json-c represents a JSON \<open>null\<close> by a null pointer, so an
  accessor that finds \<open>null\<close> answers as if nothing was there.
\<close>

datatype json =
    JNull
  | JBool bool
  | JInt int
  | JDouble rat
  | JString string
  | JArray "json list"
  | JObject "(string \<times> json) list"

datatype json_type =
    json_type_null
  | json_type_boolean
  | json_type_double
  | json_type_int
  | json_type_object
  | json_type_array
  | json_type_string

fun json_object_get_type :: "json \<Rightarrow> json_type" where
  "json_object_get_type JNull = json_type_null"
| "json_object_get_type (JBool b) = json_type_boolean"
| "json_object_get_type (JInt i) = json_type_int"
| "json_object_get_type (JDouble d) = json_type_double"
| "json_object_get_type (JString s) = json_type_string"
| "json_object_get_type (JArray xs) = json_type_array"
| "json_object_get_type (JObject kvs) = json_type_object"

definition json_object_is_type :: "json \<Rightarrow> json_type \<Rightarrow> bool" where
  "json_object_is_type obj t \<longleftrightarrow> json_object_get_type obj = t"

fun json_ptr :: "json \<Rightarrow> json option" where
  "json_ptr JNull = None"
| "json_ptr v = Some v"

fun json_object_object_get :: "json \<Rightarrow> string \<Rightarrow> json option" where
  "json_object_object_get (JObject kvs) k = Option.bind (map_of kvs k) json_ptr"
| "json_object_object_get v k = None"

text \<open>Adding a member replaces a member of the same name.\<close>

fun json_object_object_add :: "(string \<times> json) list \<Rightarrow> string \<Rightarrow> json \<Rightarrow> (string \<times> json) list" where
  "json_object_object_add [] k v = [(k, v)]"
| "json_object_object_add ((j, w) # kvs) k v =
     (if j = k then (k, v) # kvs else (j, w) # json_object_object_add kvs k v)"

fun json_object_array_elems :: "json \<Rightarrow> json list" where
  "json_object_array_elems (JArray xs) = xs"
| "json_object_array_elems v = []"

definition json_object_array_length :: "json \<Rightarrow> nat" where
  "json_object_array_length v = length (json_object_array_elems v)"

definition json_object_array_get_idx :: "json \<Rightarrow> nat \<Rightarrow> json option" where
  "json_object_array_get_idx v i =
     (if i < json_object_array_length v then json_ptr (json_object_array_elems v ! i) else None)"

text \<open>The \<open>char *\<close> of a string value ends at its first NUL.\<close>

fun json_object_get_string :: "json \<Rightarrow> string" where
  "json_object_get_string (JString s) = cstr s"
| "json_object_get_string v = []"

abbreviation (input) INT_MIN :: int where "INT_MIN \<equiv> - (2 ^ 31)"

abbreviation (input) INT_MAX :: int where "INT_MAX \<equiv> 2 ^ 31 - 1"

text \<open>Values outside the range of \<open>int\<close> are clamped to it.\<close>

fun json_object_get_int :: "json \<Rightarrow> int" where
  "json_object_get_int (JInt i) = max INT_MIN (min INT_MAX i)"
| "json_object_get_int (JBool b) = (if b then 1 else 0)"
| "json_object_get_int v = 0"

fun json_object_get_double :: "json \<Rightarrow> rat" where
  "json_object_get_double (JDouble d) = d"
| "json_object_get_double (JInt i) = of_int i"
| "json_object_get_double v = 0"

fun json_object_get_boolean :: "json \<Rightarrow> bool" where
  "json_object_get_boolean (JBool b) = b"
| "json_object_get_boolean (JInt i) = (i \<noteq> 0)"
| "json_object_get_boolean (JDouble d) = (d \<noteq> 0)"
| "json_object_get_boolean (JString s) = (s \<noteq> [])"
| "json_object_get_boolean v = False"

definition is_int :: "int \<Rightarrow> bool" where
  "is_int i \<longleftrightarrow> INT_MIN \<le> i \<and> i \<le> INT_MAX"

lemma is_int_get_int [simp]: "is_int (json_object_get_int v)"
  by (cases v) (auto simp: is_int_def)

lemma is_int_to_int [simp]: "is_int (to_int x)"
  using to_int_range [of x] by (simp add: is_int_def)

lemma to_int_is_int: "is_int x \<Longrightarrow> to_int x = x"
  by (simp add: is_int_def to_int_id)

lemma is_int_small [simp]: "is_int 0" "is_int 1" "is_int (-1)" "is_int (numeral n) \<longleftrightarrow> (numeral n :: int) \<le> INT_MAX"
  by (auto simp: is_int_def intro: order_trans [of _ 0])

lemma get_int_JInt: "is_int i \<Longrightarrow> json_object_get_int (JInt i) = i"
  by (simp add: is_int_def)

lemma is_cstr_get_string [simp]: "is_cstr (json_object_get_string v)"
  by (cases v) simp_all

lemma map_of_object_add [simp]:
  "map_of (json_object_object_add kvs k v) = (map_of kvs)(k \<mapsto> v)"
  by (induction kvs k v rule: json_object_object_add.induct) auto

lemma json_ptr_simps [simp]: "v \<noteq> JNull \<Longrightarrow> json_ptr v = Some v"
  by (cases v) auto

lemma json_ptr_None_iff: "json_ptr v = None \<longleftrightarrow> v = JNull"
  by (cases v) auto

lemma json_ptr_Some_iff: "json_ptr v = Some w \<longleftrightarrow> v = w \<and> v \<noteq> JNull"
  by (cases v) auto

end
