(* ===== verification/Config.thy ===== *)
theory Config
  imports Json
begin

text \<open>
  child_config.h and child_config.c: the configuration of a process group, its JSON form
  and the reading of one. A record has the fields of \<open>struct child_config\<close>; the
  integers a client sets stay in the range of \<open>int\<close> (\<open>config_wf\<close>). \<open>cc_childs\<close> is the array of
  process pointers, one slot per instance: a slot that was allocated and never written is
  \<open>Uninit\<close>. Reading an argument vector is modelled on the array it is copied to, because
  the error path frees it while parts of it are uninitialised.
\<close>

type_synonym addr = nat

abbreviation (input) STATUS_RUNNING :: int where "STATUS_RUNNING \<equiv> 1"

abbreviation (input) STATUS_STOPPED :: int where "STATUS_STOPPED \<equiv> 2"

abbreviation (input) STATUS_BROKEN :: int where "STATUS_BROKEN \<equiv> 3"

abbreviation (input) STATUS_MAX :: int where "STATUS_MAX \<equiv> 3"

abbreviation (input) STATUS_CREATE :: int where "STATUS_CREATE \<equiv> 4"

abbreviation (input) STATUS_DELETE :: int where "STATUS_DELETE \<equiv> 5"

datatype slot = Uninit | Null | Proc addr

record child_config =
  cc_command :: "string list option"
  cc_name :: "string option"
  cc_stdout :: "string option"
  cc_stderr :: "string option"
  cc_dir :: "string option"
  cc_heartbeat :: "string option"
  cc_fatal_cb :: "string option"
  cc_username :: "string option"
  cc_groupname :: "string option"
  cc_instances :: int
  cc_status :: int
  cc_killsig :: int
  cc_age :: int
  cc_uid :: int
  cc_gid :: int
  cc_error :: int
  cc_errtime :: int
  cc_childs :: "slot list"

definition child_config_new :: child_config where
  "child_config_new =
     \<lparr>cc_command = None, cc_name = None, cc_stdout = None, cc_stderr = None, cc_dir = None,
      cc_heartbeat = None, cc_fatal_cb = None, cc_username = None, cc_groupname = None,
      cc_instances = -1, cc_status = -1, cc_killsig = -1, cc_age = 0, cc_uid = -1, cc_gid = -1,
      cc_error = 0, cc_errtime = 0, cc_childs = []\<rparr>"

section \<open>Serialisation\<close>

definition ADD :: "string \<Rightarrow> string option \<Rightarrow> (string \<times> json) list \<Rightarrow> (string \<times> json) list" where
  "ADD X Y obj =
     (case Y of None \<Rightarrow> obj | Some s \<Rightarrow> json_object_object_add obj X (JString s))"

definition ADDINT :: "string \<Rightarrow> int \<Rightarrow> (string \<times> json) list \<Rightarrow> (string \<times> json) list" where
  "ADDINT X Y obj =
     (if Y \<noteq> -1 then json_object_object_add obj X (JInt (to_int Y)) else obj)"

definition child_config_json :: "child_config \<Rightarrow> json" where
  "child_config_json cc =
     (let obj = [];
          obj = ADD ''name'' (cc_name cc) obj;
          obj = ADD ''stdout'' (cc_stdout cc) obj;
          obj = ADD ''stderr'' (cc_stderr cc) obj;
          obj = ADD ''dir'' (cc_dir cc) obj;
          obj = ADD ''heartbeat'' (cc_heartbeat cc) obj;
          obj = ADD ''fatal_cb'' (cc_fatal_cb cc) obj;
          obj = ADD ''username'' (cc_username cc) obj;
          obj = ADD ''groupname'' (cc_groupname cc) obj;
          obj = ADDINT ''instances'' (cc_instances cc) obj;
          obj = ADDINT ''status'' (cc_status cc) obj;
          obj = ADDINT ''killsig'' (cc_killsig cc) obj;
          obj = ADDINT ''uid'' (cc_uid cc) obj;
          obj = ADDINT ''gid'' (cc_gid cc) obj;
          obj = ADDINT ''error'' (cc_error cc) obj;
          obj = ADDINT ''age'' (cc_age cc) obj;
          obj = (case cc_command cc of
                   None \<Rightarrow> obj
                 | Some xs \<Rightarrow> json_object_object_add obj ''args'' (JArray (map JString xs)))
      in JObject obj)"

definition child_config_serialize :: "(json \<Rightarrow> string) \<Rightarrow> child_config \<Rightarrow> string" where
  "child_config_serialize to_json_string cc = to_json_string (child_config_json cc)"

section \<open>Reading a configuration\<close>

text \<open>The macros \<open>GET\<close> and \<open>GETINT\<close>: \<open>None\<close> is the early \<open>return NULL\<close>.\<close>

definition GET :: "json \<Rightarrow> string option \<Rightarrow> string \<Rightarrow> string option option" where
  "GET obj X Y =
     (case json_object_object_get obj Y of
        None \<Rightarrow> Some X
      | Some t \<Rightarrow> if json_object_is_type t json_type_string
                 then Some (Some (json_object_get_string t)) else None)"

definition GETINT :: "json \<Rightarrow> int \<Rightarrow> string \<Rightarrow> int option" where
  "GETINT obj X Y =
     (case json_object_object_get obj Y of
        None \<Rightarrow> Some X
      | Some t \<Rightarrow> if json_object_is_type t json_type_int
                 then Some (json_object_get_int t) else None)"

definition child_config_get_fields :: "json \<Rightarrow> child_config option" where
  "child_config_get_fields obj =
     do {
       let ret = child_config_new;
       v \<leftarrow> GET obj (cc_name ret) ''name'';
       ret \<leftarrow> (if v = None then None else Some (ret\<lparr>cc_name := v\<rparr>));
       v \<leftarrow> GET obj (cc_stdout ret) ''stdout''; let ret = ret\<lparr>cc_stdout := v\<rparr>;
       v \<leftarrow> GET obj (cc_stderr ret) ''stderr''; let ret = ret\<lparr>cc_stderr := v\<rparr>;
       v \<leftarrow> GET obj (cc_dir ret) ''dir''; let ret = ret\<lparr>cc_dir := v\<rparr>;
       v \<leftarrow> GET obj (cc_heartbeat ret) ''heartbeat''; let ret = ret\<lparr>cc_heartbeat := v\<rparr>;
       v \<leftarrow> GET obj (cc_fatal_cb ret) ''fatal_cb''; let ret = ret\<lparr>cc_fatal_cb := v\<rparr>;
       v \<leftarrow> GET obj (cc_username ret) ''username''; let ret = ret\<lparr>cc_username := v\<rparr>;
       v \<leftarrow> GET obj (cc_groupname ret) ''groupname''; let ret = ret\<lparr>cc_groupname := v\<rparr>;
       i \<leftarrow> GETINT obj (cc_instances ret) ''instances''; let ret = ret\<lparr>cc_instances := i\<rparr>;
       i \<leftarrow> GETINT obj (cc_status ret) ''status''; let ret = ret\<lparr>cc_status := i\<rparr>;
       i \<leftarrow> GETINT obj (cc_killsig ret) ''killsig''; let ret = ret\<lparr>cc_killsig := i\<rparr>;
       i \<leftarrow> GETINT obj (cc_uid ret) ''uid''; let ret = ret\<lparr>cc_uid := i\<rparr>;
       i \<leftarrow> GETINT obj (cc_gid ret) ''gid''; let ret = ret\<lparr>cc_gid := i\<rparr>;
       i \<leftarrow> GETINT obj (cc_error ret) ''error''; let ret = ret\<lparr>cc_error := i\<rparr>;
       i \<leftarrow> GETINT obj (cc_age ret) ''age''; let ret = ret\<lparr>cc_age := i\<rparr>;
       Some ret
     }"

text \<open>
  The cells of the \<open>char **\<close> array: a string, the null pointer, or memory \<open>malloc\<close>
  returned and nobody wrote.
\<close>

datatype arg_cell = ArgStr string | ArgNull | ArgUninit

text \<open>
  The loop of \<open>child_config_free\<close> over the array: it stops at a null pointer, and frees
  what it finds before. Freeing an uninitialised pointer, or running off the array, is
  undefined.
\<close>

fun free_command :: "arg_cell list \<Rightarrow> (unit, unit) outcome" where
  "free_command (ArgStr s # cs) = free_command cs"
| "free_command (ArgNull # cs) = Live ()"
| "free_command (ArgUninit # cs) = Dead Undefined ()"
| "free_command [] = Dead Undefined ()"

fun args_of_cells :: "arg_cell list \<Rightarrow> string list" where
  "args_of_cells (ArgStr s # cs) = s # args_of_cells cs"
| "args_of_cells cs = []"

text \<open>\<open>None\<close> is \<open>return NULL\<close>, after \<open>child_config_free\<close> on the array as it is then.\<close>

fun args_loop :: "json list \<Rightarrow> nat \<Rightarrow> arg_cell list \<Rightarrow> (unit, string list option) outcome" where
  "args_loop [] i cells = Live (Some (args_of_cells (cells[i := ArgNull])))"
| "args_loop (s # ss) i cells =
     (case json_ptr s of
        None \<Rightarrow> bindO (free_command (cells[i := ArgNull])) (\<lambda>_. Live None)
      | Some t \<Rightarrow>
          if json_object_is_type t json_type_string
          then args_loop ss (Suc i) (cells[i := ArgStr (json_object_get_string t)])
          else bindO (free_command cells) (\<lambda>_. Live None))"

definition child_config_from_json :: "json \<Rightarrow> (unit, child_config option) outcome" where
  "child_config_from_json obj =
     (case child_config_get_fields obj of
        None \<Rightarrow> Live None
      | Some ret \<Rightarrow>
          (case json_object_object_get obj ''args'' of
             None \<Rightarrow> Live (Some ret)
           | Some t \<Rightarrow>
               if \<not> json_object_is_type t json_type_array then Live None
               else bindO (args_loop (json_object_array_elems t) 0
                            (replicate (json_object_array_length t + 1) ArgUninit))
                      (\<lambda>r. Live (map_option (\<lambda>args. ret\<lparr>cc_command := Some args\<rparr>) r))))"

definition child_config_unserialize ::
    "(string \<Rightarrow> json option) \<Rightarrow> string \<Rightarrow> (unit, child_config option) outcome" where
  "child_config_unserialize tokener_parse buf =
     (case tokener_parse buf of
        None \<Rightarrow> Live None
      | Some obj \<Rightarrow> if \<not> json_object_is_type obj json_type_object then Live None
                   else child_config_from_json obj)"

section \<open>Status names\<close>

text \<open>The first argument is \<open>errno\<close> when the function is entered; it is not cleared.\<close>

definition child_config_status_from_string :: "int \<Rightarrow> string \<Rightarrow> int" where
  "child_config_status_from_string errno str =
     (if strncmp str ''start'' 5 = 0 then STATUS_RUNNING
      else if strncmp str ''stop'' 4 = 0 then STATUS_STOPPED
      else if strncmp str ''fatal'' 5 = 0 then STATUS_BROKEN
      else let ret = to_int (strtol str)
           in if strtol_errno errno str = EINVAL then -1
              else if ret > STATUS_MAX then -1
              else ret)"

section \<open>Well-formed configurations\<close>

definition config_wf :: "child_config \<Rightarrow> bool" where
  "config_wf cc \<longleftrightarrow>
     cc_name cc \<noteq> None \<and>
     list_all (pred_option is_cstr)
       [cc_name cc, cc_stdout cc, cc_stderr cc, cc_dir cc, cc_heartbeat cc, cc_fatal_cb cc,
        cc_username cc, cc_groupname cc] \<and>
     pred_option (list_all is_cstr) (cc_command cc) \<and>
     list_all is_int
       [cc_instances cc, cc_status cc, cc_killsig cc, cc_age cc, cc_uid cc, cc_gid cc]"

lemma GET_cstr:
  "GET obj X Y = Some v \<Longrightarrow> pred_option is_cstr X \<Longrightarrow> pred_option is_cstr v"
  by (auto simp: GET_def split: option.splits if_splits)

lemma GETINT_int: "GETINT obj X Y = Some v \<Longrightarrow> is_int X \<Longrightarrow> is_int v"
  by (auto simp: GETINT_def split: option.splits if_splits)

text \<open>The same as rules for one statement of the chain of reads.\<close>

lemma GET_bind:
  assumes "pred_option is_cstr X"
    and "\<And>v. pred_option is_cstr v \<Longrightarrow> pred_option P (f v)"
  shows "pred_option P (Option.bind (GET obj X Y) f)"
  using assms GET_cstr [of obj X Y] by (cases "GET obj X Y") auto

lemma GETINT_bind:
  assumes "is_int X" and "\<And>v. is_int v \<Longrightarrow> pred_option P (f v)"
  shows "pred_option P (Option.bind (GETINT obj X Y) f)"
  using assms GETINT_int [of obj X Y] by (cases "GETINT obj X Y") auto

lemma need_name_bind:
  assumes "\<And>n. v = Some n \<Longrightarrow> pred_option P (f (ret\<lparr>cc_name := v\<rparr>))"
  shows "pred_option P (Option.bind (if v = None then None else Some (ret\<lparr>cc_name := v\<rparr>)) f)"
  using assms by (cases v) auto

lemma child_config_get_fields_pred:
  "pred_option (\<lambda>ret. config_wf ret \<and> cc_command ret = None \<and> cc_childs ret = [] \<and> cc_errtime ret = 0)
     (child_config_get_fields obj)"
  unfolding child_config_get_fields_def Let_def child_config_new_def
  by (intro GET_bind GETINT_bind need_name_bind) (simp_all add: config_wf_def)

lemma child_config_get_fields_wf:
  "child_config_get_fields obj = Some ret \<Longrightarrow>
   config_wf ret \<and> cc_command ret = None \<and> cc_childs ret = [] \<and> cc_errtime ret = 0"
  using child_config_get_fields_pred [of obj] by simp

section \<open>Reading back what was written\<close>

lemma map_of_ADD:
  "map_of (ADD X Y obj) k =
     (if k = X then (case Y of None \<Rightarrow> map_of obj k | Some s \<Rightarrow> Some (JString s)) else map_of obj k)"
  by (simp add: ADD_def split: option.splits)

lemma map_of_ADDINT:
  "map_of (ADDINT X Y obj) k =
     (if k = X \<and> Y \<noteq> -1 then Some (JInt (to_int Y)) else map_of obj k)"
  by (simp add: ADDINT_def)

lemma map_of_args:
  "map_of (case Y of None \<Rightarrow> obj | Some xs \<Rightarrow> json_object_object_add obj X (JArray (map JString xs))) k =
     (if k = X then (case Y of None \<Rightarrow> map_of obj k | Some xs \<Rightarrow> Some (JArray (map JString xs)))
      else map_of obj k)"
  by (simp split: option.splits)

lemmas config_lookups = map_of_ADD map_of_ADDINT map_of_args

lemma get_child_config_json_strings:
  "json_object_object_get (child_config_json cc) ''name'' = map_option JString (cc_name cc)"
  "json_object_object_get (child_config_json cc) ''stdout'' = map_option JString (cc_stdout cc)"
  "json_object_object_get (child_config_json cc) ''stderr'' = map_option JString (cc_stderr cc)"
  "json_object_object_get (child_config_json cc) ''dir'' = map_option JString (cc_dir cc)"
  "json_object_object_get (child_config_json cc) ''heartbeat'' = map_option JString (cc_heartbeat cc)"
  "json_object_object_get (child_config_json cc) ''fatal_cb'' = map_option JString (cc_fatal_cb cc)"
  "json_object_object_get (child_config_json cc) ''username'' = map_option JString (cc_username cc)"
  "json_object_object_get (child_config_json cc) ''groupname'' = map_option JString (cc_groupname cc)"
  by (simp_all add: child_config_json_def Let_def config_lookups split: option.splits)

definition int_member :: "int \<Rightarrow> json option" where
  "int_member Y = (if Y \<noteq> -1 then Some (JInt (to_int Y)) else None)"

lemma get_child_config_json_ints:
  "json_object_object_get (child_config_json cc) ''instances'' = int_member (cc_instances cc)"
  "json_object_object_get (child_config_json cc) ''status'' = int_member (cc_status cc)"
  "json_object_object_get (child_config_json cc) ''killsig'' = int_member (cc_killsig cc)"
  "json_object_object_get (child_config_json cc) ''uid'' = int_member (cc_uid cc)"
  "json_object_object_get (child_config_json cc) ''gid'' = int_member (cc_gid cc)"
  "json_object_object_get (child_config_json cc) ''error'' = int_member (cc_error cc)"
  "json_object_object_get (child_config_json cc) ''age'' = int_member (cc_age cc)"
  "json_object_object_get (child_config_json cc) ''args'' =
     map_option (\<lambda>xs. JArray (map JString xs)) (cc_command cc)"
  by (simp_all add: child_config_json_def Let_def config_lookups int_member_def split: option.splits)

lemma GET_string_member:
  assumes "json_object_object_get obj Y = map_option JString X" and "pred_option is_cstr X"
  shows "GET obj None Y = Some X"
  using assms by (cases X) (simp_all add: GET_def json_object_is_type_def)

lemma GETINT_int_member:
  assumes "json_object_object_get obj Y = int_member X" and "is_int X"
  shows "GETINT obj d Y = Some (if X = -1 then d else X)"
  using assms by (simp add: GETINT_def int_member_def json_object_is_type_def to_int_is_int
      get_int_JInt del: json_object_get_int.simps)

text \<open>
  What is left of a configuration after one trip through its JSON form: the internal
  fields are reset, and -1, which stands for "not set", becomes the default of the two
  fields whose default is 0.
\<close>

definition config_image :: "child_config \<Rightarrow> child_config" where
  "config_image cc =
     cc\<lparr>cc_age := (if cc_age cc = -1 then 0 else cc_age cc),
        cc_error := (if cc_error cc = -1 then 0 else cc_error cc),
        cc_errtime := 0, cc_childs := []\<rparr>"

lemma config_wf_strings:
  assumes "config_wf cc"
  shows "pred_option is_cstr (cc_name cc)" "pred_option is_cstr (cc_stdout cc)"
    "pred_option is_cstr (cc_stderr cc)" "pred_option is_cstr (cc_dir cc)"
    "pred_option is_cstr (cc_heartbeat cc)" "pred_option is_cstr (cc_fatal_cb cc)"
    "pred_option is_cstr (cc_username cc)" "pred_option is_cstr (cc_groupname cc)"
  using assms by (simp_all add: config_wf_def)

lemma config_wf_ints:
  assumes "config_wf cc"
  shows "is_int (cc_instances cc)" "is_int (cc_status cc)" "is_int (cc_killsig cc)"
    "is_int (cc_uid cc)" "is_int (cc_gid cc)" "is_int (cc_age cc)"
  using assms by (simp_all add: config_wf_def)

lemma get_fields_child_config_json:
  assumes wf: "config_wf cc" and err: "is_int (cc_error cc)"
  shows "child_config_get_fields (child_config_json cc) = Some ((config_image cc)\<lparr>cc_command := None\<rparr>)"
proof -
  note s = GET_string_member [OF get_child_config_json_strings(1) config_wf_strings(1) [OF wf]]
    GET_string_member [OF get_child_config_json_strings(2) config_wf_strings(2) [OF wf]]
    GET_string_member [OF get_child_config_json_strings(3) config_wf_strings(3) [OF wf]]
    GET_string_member [OF get_child_config_json_strings(4) config_wf_strings(4) [OF wf]]
    GET_string_member [OF get_child_config_json_strings(5) config_wf_strings(5) [OF wf]]
    GET_string_member [OF get_child_config_json_strings(6) config_wf_strings(6) [OF wf]]
    GET_string_member [OF get_child_config_json_strings(7) config_wf_strings(7) [OF wf]]
    GET_string_member [OF get_child_config_json_strings(8) config_wf_strings(8) [OF wf]]
  note i = GETINT_int_member [OF get_child_config_json_ints(1) config_wf_ints(1) [OF wf]]
    GETINT_int_member [OF get_child_config_json_ints(2) config_wf_ints(2) [OF wf]]
    GETINT_int_member [OF get_child_config_json_ints(3) config_wf_ints(3) [OF wf]]
    GETINT_int_member [OF get_child_config_json_ints(4) config_wf_ints(4) [OF wf]]
    GETINT_int_member [OF get_child_config_json_ints(5) config_wf_ints(5) [OF wf]]
    GETINT_int_member [OF get_child_config_json_ints(6) err]
    GETINT_int_member [OF get_child_config_json_ints(7) config_wf_ints(6) [OF wf]]
  have "cc_name cc \<noteq> None" using wf by (simp add: config_wf_def)
  then have "child_config_get_fields (child_config_json cc) =
      Some \<lparr>cc_command = None, cc_name = cc_name cc, cc_stdout = cc_stdout cc,
        cc_stderr = cc_stderr cc, cc_dir = cc_dir cc, cc_heartbeat = cc_heartbeat cc,
        cc_fatal_cb = cc_fatal_cb cc, cc_username = cc_username cc,
        cc_groupname = cc_groupname cc, cc_instances = cc_instances cc,
        cc_status = cc_status cc, cc_killsig = cc_killsig cc,
        cc_age = (if cc_age cc = -1 then 0 else cc_age cc), cc_uid = cc_uid cc,
        cc_gid = cc_gid cc, cc_error = (if cc_error cc = -1 then 0 else cc_error cc),
        cc_errtime = 0, cc_childs = []\<rparr>"
    by (simp add: child_config_get_fields_def child_config_new_def Let_def s i)
  then show ?thesis by (simp add: config_image_def)
qed

lemma free_command_strings: "free_command (map ArgStr pre @ cs) = free_command cs"
  by (induction pre) simp_all

lemma args_of_cells_strings: "args_of_cells (map ArgStr pre @ ArgNull # cs) = pre"
  by (induction pre) simp_all

lemma cells_update: "(map ArgStr pre @ c # cs)[length pre := d] = map ArgStr pre @ d # cs"
  by (simp add: list_update_append)

text \<open>
  The argument loop, on every input: an array of strings gives the vector; a \<open>null\<close> among
  them makes the parse fail; any other value makes the error path free uninitialised
  pointers.
\<close>

lemma args_loop_from:
  "args_loop ss (length pre) (map ArgStr pre @ replicate (length ss + 1) ArgUninit) =
     (case dropWhile (\<lambda>s. json_object_is_type s json_type_string) ss of
        [] \<Rightarrow> Live (Some (pre @ map json_object_get_string ss))
      | s # _ \<Rightarrow> if s = JNull then Live None else Dead Undefined ())"
proof (induction ss arbitrary: pre)
  case Nil
  show ?case by (simp add: args_of_cells_strings cells_update)
next
  case (Cons s ss)
  show ?case
  proof (cases "json_object_is_type s json_type_string")
    case True
    then have p: "json_ptr s = Some s" by (cases s) (simp_all add: json_object_is_type_def)
    have "(map ArgStr pre @ replicate (length (s # ss) + 1) ArgUninit)
            [length pre := ArgStr (json_object_get_string s)]
        = map ArgStr (pre @ [json_object_get_string s]) @ replicate (length ss + 1) ArgUninit"
      by (simp add: cells_update)
    with Cons.IH [of "pre @ [json_object_get_string s]"] True p show ?thesis
      by (cases "dropWhile (\<lambda>s. json_object_is_type s json_type_string) ss")
        (simp_all del: dropWhile_eq_Nil_conv)
  next
    case False
    show ?thesis
    proof (cases "s = JNull")
      case True
      have "(map ArgStr pre @ replicate (length (s # ss) + 1) ArgUninit)[length pre := ArgNull]
          = map ArgStr pre @ ArgNull # replicate (length ss + 1) ArgUninit"
        by (simp add: cells_update)
      with True False show ?thesis by (simp add: free_command_strings)
    next
      case neq: False
      with False show ?thesis by (simp add: free_command_strings)
    qed
  qed
qed

lemma args_loop_result:
  "args_loop ss 0 (replicate (length ss + 1) ArgUninit) =
     (case dropWhile (\<lambda>s. json_object_is_type s json_type_string) ss of
        [] \<Rightarrow> Live (Some (map json_object_get_string ss))
      | s # _ \<Rightarrow> if s = JNull then Live None else Dead Undefined ())"
  using args_loop_from [of ss "[]"] unfolding append_Nil list.map(1) list.size(3) .

lemma from_json_config_json:
  assumes wf: "config_wf cc" and err: "is_int (cc_error cc)"
  shows "child_config_from_json (child_config_json cc) = Live (Some (config_image cc))"
proof (cases "cc_command cc")
  case None
  then have "(config_image cc)\<lparr>cc_command := None\<rparr> = config_image cc"
    by (simp add: config_image_def)
  with None wf err show ?thesis
    by (simp add: child_config_from_json_def get_fields_child_config_json
        get_child_config_json_ints(8))
next
  case (Some xs)
  have cstr: "list_all is_cstr xs" using wf Some by (simp add: config_wf_def)
  then have "map (\<lambda>x. json_object_get_string (JString x)) xs = xs"
    by (induction xs) simp_all
  moreover have "dropWhile (\<lambda>s. json_object_is_type s json_type_string) (map JString xs) = []"
    by (simp add: json_object_is_type_def)
  ultimately have "args_loop (map JString xs) 0 (replicate (length (map JString xs) + 1) ArgUninit)
      = Live (Some xs)"
    by (simp only: args_loop_result list.case list.map_comp comp_def)
  with Some wf err show ?thesis
    by (simp add: child_config_from_json_def get_fields_child_config_json
        get_child_config_json_ints(8) json_object_is_type_def json_object_array_length_def
        config_image_def)
qed

text \<open>A configuration that was read is well-formed.\<close>

lemma from_json_wf:
  "child_config_from_json obj = Live (Some cc) \<Longrightarrow>
   config_wf cc \<and> cc_childs cc = [] \<and> cc_errtime cc = 0"
proof -
  assume a: "child_config_from_json obj = Live (Some cc)"
  then obtain ret where ret: "child_config_get_fields obj = Some ret"
    by (auto simp: child_config_from_json_def split: option.splits)
  note wf = child_config_get_fields_wf [OF ret]
  show ?thesis
  proof (cases "json_object_object_get obj ''args''")
    case None
    with a ret wf show ?thesis by (simp add: child_config_from_json_def)
  next
    case (Some t)
    with a ret obtain args where l: "args_loop (json_object_array_elems t) 0
        (replicate (json_object_array_length t + 1) ArgUninit) = Live (Some args)"
      and cc: "cc = ret\<lparr>cc_command := Some args\<rparr>"
      by (auto simp: child_config_from_json_def bindO_Live_iff split: if_splits)
    have "list_all is_cstr args"
      using l unfolding json_object_array_length_def args_loop_result
      by (auto simp: list_all_iff split: list.splits if_splits)
    with wf cc show ?thesis by (simp add: config_wf_def)
  qed
qed

lemma unserialize_wf:
  "child_config_unserialize P buf = Live (Some cc) \<Longrightarrow>
   config_wf cc \<and> cc_childs cc = [] \<and> cc_errtime cc = 0"
  by (auto simp: child_config_unserialize_def from_json_wf split: option.splits if_splits)

text \<open>
  Reading is safe if the first argument that is not a string, if there is one, is \<open>null\<close>.
  Anything else in an argument list makes the error path free memory nobody wrote.
\<close>

definition args_ok :: "json list \<Rightarrow> bool" where
  "args_ok ss \<longleftrightarrow>
     (case dropWhile (\<lambda>s. json_object_is_type s json_type_string) ss of [] \<Rightarrow> True | s # _ \<Rightarrow> s = JNull)"

definition payload_ok :: "(string \<Rightarrow> json option) \<Rightarrow> string \<Rightarrow> bool" where
  "payload_ok tokener_parse buf \<longleftrightarrow>
     (case tokener_parse buf of
        None \<Rightarrow> True
      | Some obj \<Rightarrow>
          (case json_object_object_get obj ''args'' of
             None \<Rightarrow> True
           | Some t \<Rightarrow> args_ok (json_object_array_elems t)))"

lemma args_loop_ok:
  "post (args_loop (json_object_array_elems t) 0
       (replicate (json_object_array_length t + 1) ArgUninit)) (\<lambda>r. True)
     (\<lambda>h u. h = Undefined \<and> \<not> args_ok (json_object_array_elems t))"
  unfolding json_object_array_length_def args_loop_result
  by (simp add: args_ok_def split: list.split)

lemma from_json_dead:
  assumes "child_config_from_json obj = Dead h u"
  shows "h = Undefined \<and> (\<exists>ss. json_object_object_get obj ''args'' = Some (JArray ss) \<and> \<not> args_ok ss)"
proof -
  from assms obtain t where t: "json_object_object_get obj ''args'' = Some t"
    "json_object_is_type t json_type_array"
    "args_loop (json_object_array_elems t) 0 (replicate (json_object_array_length t + 1) ArgUninit) = Dead h u"
    by (auto simp: child_config_from_json_def bindO_Dead_iff split: option.splits if_splits)
  moreover obtain ss where "t = JArray ss" using t(2) by (cases t) (simp_all add: json_object_is_type_def)
  ultimately show ?thesis using args_loop_ok [of t] by simp
qed

lemma unserialize_post:
  "post (child_config_unserialize P buf)
     (\<lambda>r. pred_option (\<lambda>cc. config_wf cc \<and> cc_childs cc = [] \<and> cc_errtime cc = 0) r)
     (\<lambda>h u. h = Undefined \<and> \<not> payload_ok P buf)"
proof (cases "child_config_unserialize P buf")
  case (Live r)
  then show ?thesis using unserialize_wf by (cases r) auto
next
  case (Dead h u)
  then obtain obj where obj: "P buf = Some obj" "child_config_from_json obj = Dead h u"
    by (auto simp: child_config_unserialize_def split: option.splits if_splits)
  then obtain t where "json_object_object_get obj ''args'' = Some t"
    "args_loop (json_object_array_elems t) 0 (replicate (json_object_array_length t + 1) ArgUninit) = Dead h u"
    by (auto simp: child_config_from_json_def bindO_Dead_iff split: option.splits if_splits)
  then have "h = Undefined \<and> \<not> payload_ok P buf"
    using args_loop_ok [of t] obj(1) by (simp add: payload_ok_def)
  with Dead show ?thesis by simp
qed

section \<open>Properties\<close>

text \<open>
  C21. Configurations survive serialisation: for a well-formed configuration, reading back what
  \<open>child_config_serialize\<close> printed gives its image, which differs from it only in the
  internal fields and in the defaults of \<open>age\<close> and \<open>error\<close> for -1. The JSON library is only
  assumed to read what it printed.
\<close>

theorem config_roundtrip:
  assumes "config_wf cc" and "is_int (cc_error cc)"
    and "parse (print (child_config_json cc)) = Some (child_config_json cc)"
  shows "child_config_unserialize parse (child_config_serialize print cc) = Live (Some (config_image cc))"
proof -
  have "json_object_is_type (child_config_json cc) json_type_object"
    by (simp add: child_config_json_def json_object_is_type_def Let_def)
  with assms(3) from_json_config_json [OF assms(1,2)] show ?thesis
    by (simp add: child_config_unserialize_def child_config_serialize_def)
qed

definition sample_cc :: child_config where
  "sample_cc = child_config_new\<lparr>cc_name := Some ''web'', cc_command := Some [''httpd'', ''-f''],
     cc_instances := 2, cc_status := STATUS_RUNNING, cc_killsig := 15, cc_error := 3, cc_errtime := 99,
     cc_childs := [Proc 1, Null]\<rparr>"

lemma config_roundtrip_witness:
  "child_config_unserialize (\<lambda>t. if t = ''text'' then Some (child_config_json sample_cc) else None)
     (child_config_serialize (\<lambda>v. ''text'') sample_cc) =
   Live (Some (sample_cc\<lparr>cc_errtime := 0, cc_childs := []\<rparr>))"
proof -
  have "config_wf sample_cc"
    by (simp add: sample_cc_def child_config_new_def config_wf_def is_cstr_def)
  moreover have "config_image sample_cc = sample_cc\<lparr>cc_errtime := 0, cc_childs := []\<rparr>"
    by (simp add: sample_cc_def child_config_new_def config_image_def)
  ultimately show ?thesis
    using config_roundtrip [of sample_cc "\<lambda>t. if t = ''text'' then Some (child_config_json sample_cc) else None"
        "\<lambda>v. ''text''"]
    by (simp add: sample_cc_def child_config_new_def)
qed

text \<open>
  C25. Reading a configuration ends the process in exactly one case: all members up to the
  arguments are well typed, and the first member of the argument array that is not a string
  is not \<open>null\<close> either. Then the error path frees pointers nobody wrote.
\<close>

theorem from_json_undefined_iff:
  "child_config_from_json obj = Dead h u \<longleftrightarrow>
     h = Undefined \<and> child_config_get_fields obj \<noteq> None \<and>
     (\<exists>ss. json_object_object_get obj ''args'' = Some (JArray ss) \<and> \<not> args_ok ss)"
proof (cases "child_config_get_fields obj")
  case None
  then show ?thesis by (simp add: child_config_from_json_def)
next
  case (Some ret)
  show ?thesis
  proof (cases "json_object_object_get obj ''args''")
    case None
    with Some show ?thesis by (simp add: child_config_from_json_def)
  next
    case t: (Some t)
    show ?thesis
    proof (cases t)
      case (JArray ss)
      have "args_loop ss 0 (replicate (length ss + 1) ArgUninit) = Dead h u \<longleftrightarrow>
          h = Undefined \<and> \<not> args_ok ss"
        unfolding args_loop_result args_ok_def
        by (cases "dropWhile (\<lambda>s. json_object_is_type s json_type_string) ss")
          (auto simp del: dropWhile_eq_Nil_conv)
      with Some t JArray show ?thesis
        by (simp add: child_config_from_json_def json_object_is_type_def bindO_Dead_iff
            json_object_array_length_def)
    qed (use Some t in \<open>simp_all add: child_config_from_json_def json_object_is_type_def\<close>)
  qed
qed

end
