(* ===== verification/State.thy ===== *)
theory State
  imports UvHash Config
begin

text \<open>
  The state of the server process (cmd_server.c, process.c, subscription.c) and what the
  outside can do to it. Heap objects live in explicit stores (\<open>cfgs\<close>, \<open>procs\<close>,
  \<open>conns\<close>) indexed by addresses, because the program shares them: a process is reachable
  from the pid table, from a slot of its group and from its timer, and a subscription
  points to a connection. An address is never handed out twice. The record \<open>env\<close> holds
  what is not part of the program: json-c's parser and printer, the answers of the kernel
  and of libevent to each call (numbered by \<open>tick\<close>), and the clock's text form. The
  kernel's table of our children is \<open>kids\<close>; those that ended and were not reaped are
  \<open>zombies\<close>. Effects on the outside are appended to \<open>effects\<close>, bytes queued for a client
  to its \<open>c_out\<close>.
\<close>

section \<open>Records\<close>

abbreviation (input) MAX_INSTANCES :: int where "MAX_INSTANCES \<equiv> 1024"

abbreviation (input) BUFFER_SIZ :: nat where "BUFFER_SIZ \<equiv> 2048"

abbreviation (input) CHUNKSIZ :: nat where "CHUNKSIZ \<equiv> 16383"

abbreviation (input) CHUNKEXT :: nat where "CHUNKEXT \<equiv> 32768"

abbreviation (input) HASH_BSIZE_PROCESS :: nat where "HASH_BSIZE_PROCESS \<equiv> 16"

abbreviation (input) HASH_BSIZE_CHILD_CONFIG :: nat where "HASH_BSIZE_CHILD_CONFIG \<equiv> 16"

record process =
  p_pid :: int
  p_start :: int
  p_age :: int
  p_terminated :: bool
  p_child_config :: "addr option"
  p_instance :: nat
  p_heartbeat_timer :: bool
  p_child_sockbuf :: bool
  p_child_sock :: int

record client_con =
  c_sock :: int
  c_in :: string
  c_out :: string
  c_watermark :: nat
  c_len :: nat
  c_cid :: "16 word"

record subscription =
  s_client :: addr
  s_ident :: "16 word"
  s_cid :: "16 word"

text \<open>
  \<open>EvChild pid cc i\<close> is the fork of the process of slot \<open>i\<close> (the child goes on in
  \<open>spawn_child\<close> with its copy of the configuration), \<open>EvExec pid args\<close> the fork of a
  helper command, \<open>EvFail call\<close> a system call that did not do what it was asked to.
\<close>

datatype effect =
    EvLog string
  | EvKill int int
  | EvChild int child_config nat
  | EvExec int "string list"
  | EvClose int
  | EvFail string

record server =
  cfgs :: "addr \<rightharpoonup> child_config"
  child_config_list :: "addr list"
  child_config_hash :: "addr uvstrhash"
  procs :: "addr \<rightharpoonup> process"
  process_hash :: "addr uvhash"
  conns :: "addr \<rightharpoonup> client_con"
  client_con_list :: "addr list"
  subscription_list :: "subscription list"
  next_addr :: addr
  auto_dump :: bool
  allow_exit :: bool
  server_logfile :: "string option"
  dump_cnt :: int
  files :: "string \<rightharpoonup> string"
  kids :: "int list"
  zombies :: "(int \<times> int) list"
  now :: int
  tick :: nat
  effects :: "effect list"

record env =
  tokener_parse :: "string \<Rightarrow> json option"
  to_json_string :: "json \<Rightarrow> string"
  strftime_log :: "int \<Rightarrow> string"
  strftime_dump :: "int \<Rightarrow> string"
  geteuid :: int
  uv_version :: string
  os_socketpair :: "nat \<Rightarrow> int option"
  os_fork :: "nat \<Rightarrow> int list \<Rightarrow> int"
  os_accept :: "nat \<Rightarrow> int"
  accept_again :: "nat \<Rightarrow> bool"
  os_open_log :: "nat \<Rightarrow> bool"
  os_open :: "nat \<Rightarrow> bool"
  os_read :: "nat \<Rightarrow> bool"
  os_logfile :: "nat \<Rightarrow> string \<Rightarrow> string option"
  os_fprintf :: "nat \<Rightarrow> bool"
  os_link :: "nat \<Rightarrow> bool"
  bufferevent_new :: "nat \<Rightarrow> bool"
  bufferevent_enable :: "nat \<Rightarrow> bool"
  bufferevent_write_ok :: "nat \<Rightarrow> bool"

type_synonym 'a run = "(server, 'a) outcome"

definition init_server :: server where
  "init_server =
     \<lparr>cfgs = Map.empty, child_config_list = [],
      child_config_hash = uvstrhash_new HASH_BSIZE_CHILD_CONFIG,
      procs = Map.empty, process_hash = uvhash_new HASH_BSIZE_PROCESS,
      conns = Map.empty, client_con_list = [], subscription_list = [], next_addr = 0,
      auto_dump = False, allow_exit = True, server_logfile = None, dump_cnt = 0, files = Map.empty,
      kids = [], zombies = [], now = 0, tick = 0, effects = []\<rparr>"

definition ticked :: "server \<Rightarrow> server" where
  "ticked s = s\<lparr>tick := Suc (tick s)\<rparr>"

definition emit :: "effect \<Rightarrow> server \<Rightarrow> server" where
  "emit e s = s\<lparr>effects := effects s @ [e]\<rparr>"

section \<open>Bytes on the wire\<close>

text \<open>
  A \<open>uint16_t\<close> in memory has its low byte first on the hosts in question; \<open>htons\<close> swaps.
  The command id is copied as it lies in memory, in both directions.
\<close>

definition store16 :: "16 word \<Rightarrow> string" where
  "store16 w = [char_of (unat w mod 256), char_of (unat w div 256)]"

definition load16 :: "char \<Rightarrow> char \<Rightarrow> 16 word" where
  "load16 a b = of_nat (of_char a + 256 * of_char b)"

definition htons :: "16 word \<Rightarrow> 16 word" where
  "htons w = of_nat (256 * (unat w mod 256) + unat w div 256)"

abbreviation (input) ntohs :: "16 word \<Rightarrow> 16 word" where "ntohs \<equiv> htons"

section \<open>Queueing bytes for a client\<close>

definition bufferevent_write :: "env \<Rightarrow> addr \<Rightarrow> string \<Rightarrow> server \<Rightarrow> (bool \<times> server) run" where
  "bufferevent_write E con bs s =
     (case conns s con of
        None \<Rightarrow> Dead Undefined s
      | Some c \<Rightarrow>
          if bufferevent_write_ok E (tick s)
          then Live (True, (ticked s)\<lparr>conns := (conns s)(con \<mapsto> c\<lparr>c_out := c_out c @ bs\<rparr>)\<rparr>)
          else Live (False, ticked s))"

section \<open>Notifications and the log\<close>

abbreviation (input) SUBS_SERVER :: "16 word" where "SUBS_SERVER \<equiv> 1"

abbreviation (input) SUBS_STATUS :: "16 word" where "SUBS_STATUS \<equiv> 2"

abbreviation (input) SUBS_GROUP_CFG :: "16 word" where "SUBS_GROUP_CFG \<equiv> 4"

definition notify_one :: "env \<Rightarrow> 16 word \<Rightarrow> string \<Rightarrow> subscription \<Rightarrow> server \<Rightarrow> server run" where
  "notify_one E n ret u s =
     (if s_ident u AND n \<noteq> 0
      then bindO (bufferevent_write E (s_client u) (store16 (htons (of_nat (length ret)))) s) (\<lambda>(ok, s).
           if \<not> ok then Live s
           else bindO (bufferevent_write E (s_client u) (store16 (s_cid u)) s) (\<lambda>(ok, s).
           if \<not> ok then Live s
           else bindO (bufferevent_write E (s_client u) ret s) (\<lambda>(ok, s). Live s)))
      else Live s)"

definition send_notification :: "env \<Rightarrow> 16 word \<Rightarrow> string \<Rightarrow> server \<Rightarrow> server run" where
  "send_notification E n ret s =
     (if \<not> length ret \<le> CHUNKSIZ then Dead Aborted s
      else foldO (notify_one E n ret) (subscription_list s) s)"

definition send_log_notification :: "env \<Rightarrow> string \<Rightarrow> server \<Rightarrow> server run" where
  "send_log_notification E msg s =
     send_notification E SUBS_SERVER (to_json_string E (JObject [(''msg'', JString msg)])) s"

text \<open>
  \<open>slog\<close> gets the formatted message. Both \<open>vsnprintf\<close> and \<open>snprintf\<close> truncate to
  \<open>BUFFER_SIZ\<close>; a line that does not fit is reported by a nested call first, and then
  written with the whole buffer, its terminating NUL included.
\<close>

definition slog_line :: "env \<Rightarrow> server \<Rightarrow> string \<Rightarrow> string" where
  "slog_line E s msg =
     snprintf_buf 64 (strftime_log E (now s)) @ '' -- '' @ snprintf_buf BUFFER_SIZ msg"

definition slog_write :: "env \<Rightarrow> string \<Rightarrow> string \<Rightarrow> server \<Rightarrow> server run" where
  "slog_write E bytes out s = send_log_notification E out (emit (EvLog bytes) s)"

definition slog_warning :: string where
  "slog_warning = ''too big log message is being truncated.'' @ [newline]"

definition slog :: "env \<Rightarrow> string \<Rightarrow> server \<Rightarrow> server run" where
  "slog E msg s =
     (let line = slog_line E s msg
      in if length line < BUFFER_SIZ then slog_write E line line s
         else let w = slog_line E s slog_warning
              in bindO (slog_write E w w s) (\<lambda>s.
                 let out = (snprintf_buf BUFFER_SIZ line)[BUFFER_SIZ - 2 := newline]
                 in slog_write E (out @ [NUL]) out s))"

definition send_status_update_notification ::
    "env \<Rightarrow> string \<Rightarrow> int \<Rightarrow> server \<Rightarrow> server run" where
  "send_status_update_notification E name status s =
     send_notification E SUBS_STATUS
       (to_json_string E (JObject [(''name'', JString name), (''status'', JInt status)])) s"

definition send_group_cfg_update_notification ::
    "env \<Rightarrow> child_config \<Rightarrow> server \<Rightarrow> server run" where
  "send_group_cfg_update_notification E cc s =
     send_notification E SUBS_GROUP_CFG (child_config_serialize (to_json_string E) cc) s"

section \<open>Replies\<close>

text \<open>One turn of the loop of \<open>send_message\<close>: length, command id, payload.\<close>

definition send_chunk :: "env \<Rightarrow> addr \<Rightarrow> nat \<Rightarrow> string \<Rightarrow> server \<Rightarrow> (bool \<times> server) run" where
  "send_chunk E con len payload s =
     bindO (bufferevent_write E con (store16 (htons (of_nat len))) s) (\<lambda>(ok, s).
     if \<not> ok then bindO (slog E (''write failed in send_message (len)'' @ [newline]) s)
                    (\<lambda>s. Live (False, s))
     else case conns s con of
       None \<Rightarrow> Dead Undefined s
     | Some c \<Rightarrow>
     bindO (bufferevent_write E con (store16 (c_cid c)) s) (\<lambda>(ok, s).
     if \<not> ok then bindO (slog E (''write failed in send_message'' @ [newline]) s)
                    (\<lambda>s. Live (False, s))
     else bindO (bufferevent_write E con payload s) (\<lambda>(ok, s).
     if \<not> ok then bindO (slog E (''write failed in send_message'' @ [newline]) s)
                    (\<lambda>s. Live (False, s))
     else Live (True, s))))"

function send_message :: "env \<Rightarrow> addr \<Rightarrow> string \<Rightarrow> server \<Rightarrow> (bool \<times> server) run" where
  "send_message E con ret s =
     (if length ret > CHUNKSIZ
      then bindO (send_chunk E con (CHUNKEXT + CHUNKSIZ) (take CHUNKSIZ ret) s) (\<lambda>(ok, s).
           if \<not> ok then Live (False, s) else send_message E con (drop CHUNKSIZ ret) s)
      else send_chunk E con (length ret) ret s)"
  by pat_completeness auto
termination
  by (relation "measure (\<lambda>(E, con, ret, s). length ret)") auto

declare send_message.simps [simp del]

definition send_status_msg :: "env \<Rightarrow> addr \<Rightarrow> bool \<Rightarrow> string \<Rightarrow> server \<Rightarrow> server run" where
  "send_status_msg E con code msg s =
     bindO (send_message E con
              (to_json_string E (JObject [(''code'', JBool code), (''msg'', JString msg)])) s)
       (\<lambda>(ok, s). Live s)"

end
