(* ===== verification/Frame.thy ===== *)
theory Frame
  imports State
begin

text \<open>
  What the output routines leave alone. \<open>core s\<close> is the state without its output: the bytes
  queued for clients, the effects and the call counter. Every notification, log line and
  reply keeps the core, on every path, and can end the process in two ways only: the
  assertion on the size of a notification, or a write to a connection that is gone
  (\<open>out_dead\<close>). The rules \<open>slog_step\<close>, \<open>send_status_msg_step\<close> and so on are these facts in
  the shape a handler's proof uses.
\<close>

definition core :: "server \<Rightarrow> server" where
  "core s = s\<lparr>conns := (\<lambda>a. map_option (\<lambda>c. c\<lparr>c_out := []\<rparr>) (conns s a)), tick := 0, effects := []\<rparr>"

lemma core_eqD:
  assumes "core s' = core s"
  shows "cfgs s' = cfgs s" "child_config_list s' = child_config_list s"
    "child_config_hash s' = child_config_hash s" "procs s' = procs s"
    "process_hash s' = process_hash s" "client_con_list s' = client_con_list s"
    "subscription_list s' = subscription_list s" "next_addr s' = next_addr s"
    "auto_dump s' = auto_dump s" "allow_exit s' = allow_exit s" "dump_cnt s' = dump_cnt s"
    "files s' = files s" "kids s' = kids s" "zombies s' = zombies s" "now s' = now s"
    "map_option (\<lambda>c. c\<lparr>c_out := []\<rparr>) (conns s' a) = map_option (\<lambda>c. c\<lparr>c_out := []\<rparr>) (conns s a)"
  using arg_cong [OF assms, of cfgs] arg_cong [OF assms, of child_config_list]
    arg_cong [OF assms, of child_config_hash] arg_cong [OF assms, of procs]
    arg_cong [OF assms, of process_hash] arg_cong [OF assms, of client_con_list]
    arg_cong [OF assms, of subscription_list] arg_cong [OF assms, of next_addr]
    arg_cong [OF assms, of auto_dump] arg_cong [OF assms, of allow_exit]
    arg_cong [OF assms, of dump_cnt] arg_cong [OF assms, of files] arg_cong [OF assms, of kids]
    arg_cong [OF assms, of zombies] arg_cong [OF assms, of now]
    fun_cong [OF arg_cong [OF assms, of conns], of a]
  by (simp_all add: core_def)

definition conn_live :: "addr \<Rightarrow> server \<Rightarrow> bool" where
  "conn_live a s \<longleftrightarrow> conns s a \<noteq> None"

lemma core_conn_live:
  assumes "core s' = core s"
  shows "conn_live a s' = conn_live a s"
  using core_eqD(16) [OF assms, of a] unfolding conn_live_def
  by (cases "conns s' a"; cases "conns s a") auto

lemma core_conn_dom:
  assumes "core s' = core s"
  shows "dom (conns s') = dom (conns s)"
  using core_conn_live [OF assms] unfolding conn_live_def dom_def by blast

lemma core_conn_fields:
  assumes "core s' = core s" and "conns s' a = Some c'" and "conns s a = Some c"
  shows "c_sock c' = c_sock c" "c_in c' = c_in c" "c_watermark c' = c_watermark c"
    "c_len c' = c_len c" "c_cid c' = c_cid c"
proof -
  have e: "c'\<lparr>c_out := []\<rparr> = c\<lparr>c_out := []\<rparr>"
    using core_eqD(16) [OF assms(1), of a] assms(2,3) by simp
  show "c_sock c' = c_sock c" using arg_cong [OF e, of c_sock] by simp
  show "c_in c' = c_in c" using arg_cong [OF e, of c_in] by simp
  show "c_watermark c' = c_watermark c" using arg_cong [OF e, of c_watermark] by simp
  show "c_len c' = c_len c" using arg_cong [OF e, of c_len] by simp
  show "c_cid c' = c_cid c" using arg_cong [OF e, of c_cid] by simp
qed

lemma core_ticked [simp]: "core (ticked s) = core s"
  by (simp add: core_def ticked_def)

lemma core_emit [simp]: "core (emit e s) = core s"
  by (simp add: core_def emit_def)

lemma ticked_sel [simp]:
  "cfgs (ticked s) = cfgs s" "procs (ticked s) = procs s" "conns (ticked s) = conns s"
  "process_hash (ticked s) = process_hash s" "kids (ticked s) = kids s"
  "zombies (ticked s) = zombies s" "next_addr (ticked s) = next_addr s" "now (ticked s) = now s"
  "child_config_list (ticked s) = child_config_list s"
  "child_config_hash (ticked s) = child_config_hash s"
  "subscription_list (ticked s) = subscription_list s" "files (ticked s) = files s"
  "effects (ticked s) = effects s"
  by (simp_all add: ticked_def)

lemma emit_sel [simp]:
  "cfgs (emit e s) = cfgs s" "procs (emit e s) = procs s" "conns (emit e s) = conns s"
  "process_hash (emit e s) = process_hash s" "kids (emit e s) = kids s"
  "zombies (emit e s) = zombies s" "next_addr (emit e s) = next_addr s" "now (emit e s) = now s"
  "child_config_list (emit e s) = child_config_list s"
  "child_config_hash (emit e s) = child_config_hash s"
  "subscription_list (emit e s) = subscription_list s" "files (emit e s) = files s"
  "tick (emit e s) = tick s" "effects (emit e s) = effects s @ [e]"
  by (simp_all add: emit_def)

lemma core_write:
  "conns s con = Some c \<Longrightarrow>
   core ((ticked s)\<lparr>conns := (conns s)(con \<mapsto> c\<lparr>c_out := bs\<rparr>)\<rparr>) = core s"
  by (simp add: core_def ticked_def fun_eq_iff)

definition subs_live :: "server \<Rightarrow> bool" where
  "subs_live s \<longleftrightarrow> (\<forall>u \<in> set (subscription_list s). conn_live (s_client u) s)"

lemma subs_live_core:
  assumes "core s' = core s"
  shows "subs_live s' = subs_live s"
  unfolding subs_live_def core_eqD(7) [OF assms] core_conn_live [OF assms] ..

definition out_dead :: "bool \<Rightarrow> server \<Rightarrow> halt \<Rightarrow> server \<Rightarrow> bool" where
  "out_dead C s h t \<longleftrightarrow>
     core t = core s \<and> (h = Aborted \<or> h = Undefined \<and> \<not> (subs_live s \<and> C))"

lemma out_dead_core:
  assumes "core s' = core s"
  shows "out_dead C s' = out_dead C s"
  unfolding out_dead_def subs_live_core [OF assms] assms ..

lemma out_dead_weaken: "out_dead C s h t \<Longrightarrow> (C' \<Longrightarrow> C) \<Longrightarrow> out_dead C' s h t"
  by (auto simp: out_dead_def)

text \<open>
  \<open>full s\<close> also keeps the effects that are not log lines: signals, children, closed
  descriptors. Output routines keep that too.
\<close>

primrec is_log :: "effect \<Rightarrow> bool" where
  "is_log (EvLog b) = True"
| "is_log (EvKill p sg) = False"
| "is_log (EvChild p cc i) = False"
| "is_log (EvExec p args) = False"
| "is_log (EvClose fd) = False"
| "is_log (EvFail call) = False"

definition acts :: "server \<Rightarrow> effect list" where
  "acts s = filter (\<lambda>e. \<not> is_log e) (effects s)"

definition full :: "server \<Rightarrow> server" where
  "full s = (core s)\<lparr>effects := acts s\<rparr>"

lemma core_full: "core s = (full s)\<lparr>effects := []\<rparr>"
  by (simp add: full_def core_def)

lemma full_core: "full s' = full s \<Longrightarrow> core s' = core s"
  by (simp add: core_full)

lemma full_acts: "full s' = full s \<Longrightarrow> acts s' = acts s"
  by (drule arg_cong [where f = effects]) (simp add: full_def)

lemma fullI: "core s' = core s \<Longrightarrow> acts s' = acts s \<Longrightarrow> full s' = full s"
  by (simp add: full_def)

lemma acts_sel [simp]:
  "acts (ticked s) = acts s" "acts (emit e s) = acts s @ (if is_log e then [] else [e])"
  by (simp_all add: acts_def)

text \<open>The acts only grow, so a failed system call stays on record.\<close>

definition acts_grow :: "server \<Rightarrow> server \<Rightarrow> bool" where
  "acts_grow s s' \<longleftrightarrow> set (acts s) \<subseteq> set (acts s')"

definition failed :: "server \<Rightarrow> bool" where
  "failed s \<longleftrightarrow> (\<exists>c. EvFail c \<in> set (acts s))"

lemma acts_grow_refl [simp]: "acts_grow s s"
  by (simp add: acts_grow_def)

lemma acts_grow_trans [trans]: "acts_grow s t \<Longrightarrow> acts_grow t u \<Longrightarrow> acts_grow s u"
  by (auto simp: acts_grow_def)

lemma acts_grow_failed: "acts_grow s s' \<Longrightarrow> failed s \<Longrightarrow> failed s'"
  by (auto simp: acts_grow_def failed_def)

lemma acts_grow_full: "full s' = full s \<Longrightarrow> acts_grow s s'"
  by (drule full_acts) (simp add: acts_grow_def)

lemma acts_grow_eq: "acts s' = acts s \<Longrightarrow> acts_grow t s' = acts_grow t s"
  by (simp add: acts_grow_def)

lemma acts_grow_emit [simp]: "acts_grow t s \<Longrightarrow> acts_grow t (emit e s)"
  by (auto simp: acts_grow_def)

lemma acts_grow_ticked [simp]: "acts_grow t (ticked s) = acts_grow t s"
  "acts_grow (ticked t) s = acts_grow t s"
  by (simp_all add: acts_grow_def)

lemma failed_emit [simp]: "failed (emit (EvFail c) s)"
  by (auto simp: failed_def)

lemma failed_full: "full s' = full s \<Longrightarrow> failed s' = failed s"
  by (drule full_acts) (simp add: failed_def)

lemma full_ticked [simp]: "full (ticked s) = full s"
  by (simp add: full_def)

lemma full_log [simp]: "full (emit (EvLog b) s) = full s"
  by (simp add: full_def)

lemma full_write:
  "conns s con = Some c \<Longrightarrow>
   full ((ticked s)\<lparr>conns := (conns s)(con \<mapsto> c\<lparr>c_out := bs\<rparr>)\<rparr>) = full s"
  using core_write [of s con c bs] by (simp add: full_def acts_def)

section \<open>Each output routine keeps the core\<close>

text \<open>
  In every rule \<open>sb\<close> is the state at the start of the handler and \<open>s\<close> the current one, so
  that a chain of calls needs no transitivity.
\<close>

lemma bufferevent_write_step:
  assumes "full s = full sb"
    and "\<And>ok s'. full s' = full sb \<Longrightarrow> Q (ok, s')"
    and "\<And>t. core t = core sb \<Longrightarrow> \<not> conn_live con sb \<Longrightarrow> D Undefined t"
  shows "post (bufferevent_write E con bs s) Q D"
proof (cases "conns s con")
  case None
  then have "\<not> conn_live con sb"
    using core_conn_live [OF full_core [OF assms(1)], of con] by (simp add: conn_live_def)
  with None assms(3) [OF full_core [OF assms(1)]] show ?thesis by (simp add: bufferevent_write_def)
next
  case (Some c)
  then show ?thesis
    using assms(2) [OF trans [OF full_write assms(1)]] assms(2) [OF trans [OF full_ticked assms(1)]]
    by (simp add: bufferevent_write_def)
qed

lemma notify_one_step:
  assumes c: "full s = full sb" and u: "u \<in> set (subscription_list sb)"
  shows "post (notify_one E n ret u s) (\<lambda>s'. full s' = full sb) (out_dead True sb)"
proof -
  have dead: "out_dead True sb Undefined t"
    if "core t = core sb" "\<not> conn_live (s_client u) sb" for t
    using that u by (auto simp: out_dead_def subs_live_def)
  show ?thesis
    unfolding notify_one_def
    using c by (auto simp: post_bind intro!: bufferevent_write_step [where sb = sb] dead)
qed

lemma send_notification_full:
  assumes c: "full s = full sb"
  shows "post (send_notification E n ret s) (\<lambda>s'. full s' = full sb) (out_dead True sb)"
proof -
  have "post (foldO (notify_one E n ret) (subscription_list s) s)
      (\<lambda>s'. full s' = full sb) (out_dead True sb)"
    by (rule foldO_inv) (simp_all add: notify_one_step core_eqD(7) [OF full_core [OF c]] c)
  then show ?thesis using c by (simp add: send_notification_def out_dead_def full_core [OF c])
qed

lemma slog_write_full:
  assumes "full s = full sb"
  shows "post (slog_write E bytes out s) (\<lambda>s'. full s' = full sb) (out_dead True sb)"
  using assms by (simp add: slog_write_def send_log_notification_def send_notification_full)

lemma slog_keeps:
  assumes "full s = full sb"
  shows "post (slog E msg s) (\<lambda>s'. full s' = full sb) (out_dead True sb)"
proof (cases "length (slog_line E s msg) < BUFFER_SIZ")
  case True
  with assms show ?thesis by (simp add: slog_def slog_write_full Let_def)
next
  case False
  have "post (slog_write E w w s) (\<lambda>s'. post (slog_write E b r s')
      (\<lambda>s'. full s' = full sb) (out_dead True sb)) (out_dead True sb)" for w b r
    by (rule post_mono [OF slog_write_full [OF assms]]) (simp_all add: slog_write_full)
  with False show ?thesis by (simp add: slog_def post_bind Let_def)
qed

lemma slog_step:
  assumes "full s = full sb" and "\<And>s'. full s' = full sb \<Longrightarrow> Q s'"
    and "\<And>h t. out_dead True sb h t \<Longrightarrow> D h t"
  shows "post (slog E msg s) Q D"
  by (rule post_mono [OF slog_keeps [OF assms(1)]]) (use assms in auto)

lemma send_notification_step:
  assumes "full s = full sb" and "\<And>s'. full s' = full sb \<Longrightarrow> Q s'"
    and "\<And>h t. out_dead True sb h t \<Longrightarrow> D h t"
  shows "post (send_notification E n ret s) Q D"
  by (rule post_mono [OF send_notification_full [OF assms(1)]]) (use assms in auto)

lemma send_status_update_notification_step:
  assumes "full s = full sb" and "\<And>s'. full s' = full sb \<Longrightarrow> Q s'"
    and "\<And>h t. out_dead True sb h t \<Longrightarrow> D h t"
  shows "post (send_status_update_notification E name st s) Q D"
  unfolding send_status_update_notification_def
  by (rule send_notification_step [OF assms])

lemma send_group_cfg_update_notification_step:
  assumes "full s = full sb" and "\<And>s'. full s' = full sb \<Longrightarrow> Q s'"
    and "\<And>h t. out_dead True sb h t \<Longrightarrow> D h t"
  shows "post (send_group_cfg_update_notification E cc s) Q D"
  unfolding send_group_cfg_update_notification_def
  by (rule send_notification_step [OF assms])

lemma send_chunk_full:
  assumes c: "full s = full sb"
  shows "post (send_chunk E con len payload s) (\<lambda>(ok, s'). full s' = full sb)
    (out_dead (conn_live con sb) sb)"
proof -
  let ?D = "out_dead (conn_live con sb) sb"
  have dead: "?D Undefined t" if "core t = core sb" "\<not> conn_live con sb" for t
    using that by (simp add: out_dead_def)
  have slog: "post (slog E m s') Q ?D"
    if "full s' = full sb" and "\<And>t. full t = full sb \<Longrightarrow> Q t" for m s' Q
    by (rule slog_step [OF that]) (auto intro: out_dead_weaken)
  have none: "post (case conns s' con of None \<Rightarrow> Dead Undefined s' | Some c \<Rightarrow> f c) P ?D"
    if "full s' = full sb" and "\<And>c. post (f c) P ?D" for s' f and P :: "bool \<times> server \<Rightarrow> bool"
    using that full_core [OF that(1)] dead [of s'] core_conn_live [OF full_core [OF that(1)], of con]
    by (cases "conns s' con") (auto simp: conn_live_def)
  show ?thesis
    unfolding send_chunk_def
    using c by (auto simp: post_bind intro!: bufferevent_write_step [where sb = sb]
        slog dead none)
qed

lemma send_message_keeps:
  "full s = full sb \<Longrightarrow>
   post (send_message E con ret s) (\<lambda>(ok, s'). full s' = full sb)
     (out_dead (conn_live con sb) sb)"
proof (induction E con ret s rule: send_message.induct)
  case (1 E con ret s)
  show ?case
  proof (cases "length ret > CHUNKSIZ")
    case True
    have "post (send_chunk E con (CHUNKEXT + CHUNKSIZ) (take CHUNKSIZ ret) s)
        (\<lambda>x. post (case x of (ok, s) \<Rightarrow> if \<not> ok then Live (False, s)
             else send_message E con (drop CHUNKSIZ ret) s)
           (\<lambda>(ok, s'). full s' = full sb) (out_dead (conn_live con sb) sb))
        (out_dead (conn_live con sb) sb)"
      by (rule post_mono [OF send_chunk_full [OF "1.prems"]]) (use 1 True in auto)
    with True show ?thesis by (subst send_message.simps) (simp add: post_bind)
  next
    case False
    with "1.prems" show ?thesis by (subst send_message.simps) (simp add: send_chunk_full)
  qed
qed

lemma send_message_step:
  assumes "full s = full sb" and "\<And>ok s'. full s' = full sb \<Longrightarrow> Q (ok, s')"
    and "\<And>h t. out_dead (conn_live con sb) sb h t \<Longrightarrow> D h t"
  shows "post (send_message E con ret s) Q D"
  by (rule post_mono [OF send_message_keeps [OF assms(1)]]) (use assms in auto)

lemma send_status_msg_step:
  assumes "full s = full sb" and "\<And>s'. full s' = full sb \<Longrightarrow> Q s'"
    and "\<And>h t. out_dead (conn_live con sb) sb h t \<Longrightarrow> D h t"
  shows "post (send_status_msg E con code msg s) Q D"
  unfolding send_status_msg_def post_bind
  by (rule send_message_step [OF assms(1)]) (use assms in auto)

lemmas out_steps =
  slog_step send_notification_step send_status_update_notification_step
  send_group_cfg_update_notification_step send_message_step send_status_msg_step

end
