(* ===== verification/Process.thy ===== *)
theory Process
  imports Frame
begin

text \<open>
  Process groups and their processes: the registry of groups (the end of child_config.c),
  process.c, and the part of cmd_server.c that starts processes, watches over them and
  reaps them. Every access to a heap object goes through \<open>deref\<close>, which ends the process
  with \<open>Undefined\<close> when the object is gone; the theory Invariants shows when that cannot
  happen.
\<close>

section \<open>Access to shared objects\<close>

definition deref :: "(server \<Rightarrow> addr \<Rightarrow> 'x option) \<Rightarrow> addr \<Rightarrow> server \<Rightarrow> ('x \<Rightarrow> 'b run) \<Rightarrow> 'b run" where
  "deref store a s f = (case store s a of None \<Rightarrow> Dead Undefined s | Some x \<Rightarrow> f x)"

definition set_cfg :: "addr \<Rightarrow> child_config \<Rightarrow> server \<Rightarrow> server" where
  "set_cfg a cc s = s\<lparr>cfgs := (cfgs s)(a \<mapsto> cc)\<rparr>"

definition set_proc :: "addr \<Rightarrow> process \<Rightarrow> server \<Rightarrow> server" where
  "set_proc p pr s = s\<lparr>procs := (procs s)(p \<mapsto> pr)\<rparr>"

text \<open>\<open>cc->cc_childs[i]\<close>, read and written.\<close>

definition get_child :: "addr \<Rightarrow> nat \<Rightarrow> server \<Rightarrow> (addr option \<Rightarrow> 'b run) \<Rightarrow> 'b run" where
  "get_child a i s f =
     deref cfgs a s (\<lambda>cc.
       if i < length (cc_childs cc)
       then (case cc_childs cc ! i of
               Uninit \<Rightarrow> Dead Undefined s
             | Null \<Rightarrow> f None
             | Proc p \<Rightarrow> f (Some p))
       else Dead Undefined s)"

definition set_child :: "addr \<Rightarrow> nat \<Rightarrow> slot \<Rightarrow> server \<Rightarrow> server run" where
  "set_child a i sl s =
     deref cfgs a s (\<lambda>cc.
       if i < length (cc_childs cc)
       then Live (set_cfg a (cc\<lparr>cc_childs := (cc_childs cc)[i := sl]\<rparr>) s)
       else Dead Undefined s)"

text \<open>\<open>%s\<close> with a null pointer prints \<open>(null)\<close>.\<close>

definition fmt_s :: "string option \<Rightarrow> string" where
  "fmt_s x = (case x of None \<Rightarrow> ''(null)'' | Some t \<Rightarrow> t)"

section \<open>The registry of groups\<close>

definition cc_key :: "addr \<Rightarrow> child_config \<Rightarrow> strptr" where
  "cc_key a cc = \<lparr>sp_addr = a, sp_str = (case cc_name cc of None \<Rightarrow> [] | Some n \<Rightarrow> n)\<rparr>"

definition child_config_insert :: "addr \<Rightarrow> server \<Rightarrow> server run" where
  "child_config_insert a s =
     deref cfgs a s (\<lambda>cc.
       Live (s\<lparr>child_config_list := a # child_config_list s,
               child_config_hash := uvstrhash_insert (child_config_hash s) (cc_key a cc) a\<rparr>))"

definition child_config_find_by_name :: "string \<Rightarrow> server \<Rightarrow> addr option" where
  "child_config_find_by_name n s = uvstrhash_find (child_config_hash s) n"

definition child_config_remove :: "addr \<Rightarrow> server \<Rightarrow> server run" where
  "child_config_remove a s =
     deref cfgs a s (\<lambda>cc.
       Live (s\<lparr>child_config_list := remove1 a (child_config_list s),
               child_config_hash := uvstrhash_remove (child_config_hash s) (cc_key a cc)\<rparr>))"

definition child_config_free :: "addr \<Rightarrow> server \<Rightarrow> server" where
  "child_config_free a s = s\<lparr>cfgs := (cfgs s)(a := None)\<rparr>"

section \<open>process.c\<close>

definition process_insert :: "addr \<Rightarrow> server \<Rightarrow> server run" where
  "process_insert p s =
     deref procs p s (\<lambda>pr.
       Live (s\<lparr>process_hash := uvhash_insert (process_hash s) (word_of_int (p_pid pr)) p\<rparr>))"

definition process_find_by_pid :: "int \<Rightarrow> server \<Rightarrow> addr option" where
  "process_find_by_pid pid s = uvhash_find (process_hash s) (word_of_int pid)"

definition process_find_instance :: "addr \<Rightarrow> nat \<Rightarrow> server \<Rightarrow> (addr option \<Rightarrow> 'b run) \<Rightarrow> 'b run" where
  "process_find_instance a i s f = get_child a i s f"

definition process_remove :: "addr \<Rightarrow> server \<Rightarrow> server run" where
  "process_remove p s =
     deref procs p s (\<lambda>pr.
       Live (s\<lparr>process_hash := uvhash_remove (process_hash s) (word_of_int (p_pid pr))\<rparr>))"

section \<open>Starting a process\<close>

definition schedule_heartbeat :: "addr \<Rightarrow> server \<Rightarrow> server run" where
  "schedule_heartbeat p s =
     deref procs p s (\<lambda>pr. Live (set_proc p (pr\<lparr>p_heartbeat_timer := True\<rparr>) s))"

text \<open>
  \<open>fork\<close>: the kernel's answer, given the children we already have. The parent goes on
  with the pid; a child of ours is added to the kernel's table.
\<close>

definition do_fork :: "env \<Rightarrow> server \<Rightarrow> int \<times> server" where
  "do_fork E s =
     (let pid = os_fork E (tick s) (kids s); s = ticked s
      in if pid = -1 then (pid, emit (EvFail ''fork'') s) else (pid, s\<lparr>kids := pid # kids s\<rparr>))"

definition spawn :: "env \<Rightarrow> addr \<Rightarrow> nat \<Rightarrow> server \<Rightarrow> (bool \<times> server) run" where
  "spawn E a inst s =
     (case os_socketpair E (tick s) of
        None \<Rightarrow> Live (False, emit (EvFail ''socketpair'') (ticked s))
      | Some pp \<Rightarrow>
          (let (pid, s) = do_fork E (ticked s)
           in if pid = -1 then Live (False, s)
              else deref cfgs a s (\<lambda>cc.
                let s = emit (EvChild pid cc inst) s;
                    p = next_addr s;
                    new_ok = bufferevent_new E (tick s); s = ticked s;
                    enable_ok = bufferevent_enable E (tick s); s = ticked s;
                    s = (if new_ok \<and> \<not> enable_ok then emit (EvClose pp) s else s);
                    pr = \<lparr>p_pid = pid, p_start = now s, p_age = cc_age cc, p_terminated = False,
                          p_child_config = Some a, p_instance = inst, p_heartbeat_timer = False,
                          p_child_sockbuf = (new_ok \<and> enable_ok), p_child_sock = pp\<rparr>;
                    s = set_proc p pr (s\<lparr>next_addr := Suc p\<rparr>)
                in bindO (schedule_heartbeat p s) (\<lambda>s.
                   bindO (process_insert p s) (\<lambda>s.
                   bindO (set_child a inst (Proc p) s) (\<lambda>s.
                   bindO (slog E (''[process_start] '' @ fmt_s (cc_name cc) @ '' pid: ''
                            @ show_int pid @ [newline]) s) (\<lambda>s.
                   Live (True, s))))))))"

section \<open>Heartbeat and age\<close>

abbreviation (input) SIGKILL :: int where "SIGKILL \<equiv> 9"

abbreviation (input) SIGTERM :: int where "SIGTERM \<equiv> 15"

text \<open>The timer has fired, so it is no longer pending when the callback starts.\<close>

definition heartbeat_cb :: "env \<Rightarrow> addr \<Rightarrow> server \<Rightarrow> server run" where
  "heartbeat_cb E p s =
     bindO (schedule_heartbeat p s) (\<lambda>s.
     deref procs p s (\<lambda>pr.
     let uptime = now s - p_start pr
     in if p_age pr > 0 \<and> uptime > p_age pr then
          if p_terminated pr then
            bindO (slog E (''pid '' @ show_int (p_pid pr) @ '' exceeded uptime. Sending KILL''
                     @ [newline]) s) (\<lambda>s.
            Live (emit (EvKill (p_pid pr) SIGKILL) s))
          else
            bindO (slog E (''pid '' @ show_int (p_pid pr) @ '' exceeded uptime. Sending kill signal''
                     @ [newline]) s) (\<lambda>s.
            case p_child_config pr of
              None \<Rightarrow> Live (set_proc p (pr\<lparr>p_terminated := True\<rparr>) (emit (EvKill (p_pid pr) SIGTERM) s))
            | Some a \<Rightarrow> deref cfgs a s (\<lambda>cc.
                Live (set_proc p (pr\<lparr>p_terminated := True\<rparr>)
                       (emit (EvKill (p_pid pr) (cc_killsig cc)) s))))
        else case p_child_config pr of
          None \<Rightarrow> Live s
        | Some a \<Rightarrow> deref cfgs a s (\<lambda>cc.
            case cc_heartbeat cc of
              None \<Rightarrow> Live s
            | Some hb \<Rightarrow>
                let pid_str = snprintf_buf 8 (show_int (p_pid pr));
                    inst_str = snprintf_buf 8 (show_nat (p_instance pr));
                    (pid, s) = do_fork E s
                in if pid = -1
                   then slog E (''heartbeat spawn error in group '' @ fmt_s (cc_name cc) @ ''.''
                          @ [newline]) s
                   else Live (emit (EvExec pid [hb, fmt_s (cc_name cc), pid_str, inst_str]) s))))"

section \<open>Reaping\<close>

abbreviation (input) ERROR_MAX :: int where "ERROR_MAX \<equiv> 6"

abbreviation (input) ERROR_PERIOD :: int where "ERROR_PERIOD \<equiv> 10"

text \<open>The status word of \<open>wait\<close>.\<close>

definition WIFEXITED :: "int \<Rightarrow> bool" where "WIFEXITED ret \<longleftrightarrow> ret mod 128 = 0"

definition WEXITSTATUS :: "int \<Rightarrow> int" where "WEXITSTATUS ret = ret div 256 mod 256"

definition WIFSIGNALED :: "int \<Rightarrow> bool" where
  "WIFSIGNALED ret \<longleftrightarrow> 0 < ret mod 128 \<and> ret mod 128 < 127"

definition WTERMSIG :: "int \<Rightarrow> int" where "WTERMSIG ret = ret mod 128"

definition exit_is_error :: "int \<Rightarrow> child_config \<Rightarrow> bool" where
  "exit_is_error ret cc \<longleftrightarrow>
     WIFEXITED ret \<and> WEXITSTATUS ret \<noteq> 0 \<or> WIFSIGNALED ret \<and> WTERMSIG ret = cc_killsig cc"

definition run_fatal_cb :: "env \<Rightarrow> addr \<Rightarrow> server \<Rightarrow> server run" where
  "run_fatal_cb E a s =
     deref cfgs a s (\<lambda>cc.
       case cc_fatal_cb cc of
         None \<Rightarrow> Live s
       | Some cb \<Rightarrow>
           (let (pid, s) = do_fork E s
            in if pid = -1
               then slog E (''fork failed when running fatal_cb for '' @ fmt_s (cc_name cc)
                      @ [newline]) s
               else bindO (slog E (''running fatal_cb '' @ [CHR 0x22] @ cb @ [CHR 0x22] @ '' for ''
                            @ fmt_s (cc_name cc) @ '' ...'' @ [newline]) s) (\<lambda>s.
                    Live (emit (EvExec pid [cb, fmt_s (cc_name cc)]) s))))"

text \<open>The error counter of a group, and the transition to the broken state.\<close>

definition count_error :: "int \<Rightarrow> child_config \<Rightarrow> child_config" where
  "count_error t cc =
     (let cc = (if cc_errtime cc + ERROR_PERIOD < t then cc\<lparr>cc_error := 0\<rparr> else cc)
      in cc\<lparr>cc_error := cc_error cc + 1, cc_errtime := t\<rparr>)"

definition note_exit :: "env \<Rightarrow> addr \<Rightarrow> int \<Rightarrow> server \<Rightarrow> server run" where
  "note_exit E a ret s =
     deref cfgs a s (\<lambda>cc.
       if \<not> exit_is_error ret cc then Live s
       else let cc = count_error (now s) cc
            in if cc_error cc \<ge> ERROR_MAX * cc_instances cc
               then let cc = cc\<lparr>cc_status := STATUS_BROKEN\<rparr>
                    in bindO (slog E (''spawn failures. setting broken on '' @ fmt_s (cc_name cc)
                                @ [newline]) (set_cfg a cc s)) (\<lambda>s.
                       bindO (send_status_update_notification E (fmt_s (cc_name cc)) STATUS_BROKEN s)
                         (\<lambda>s. run_fatal_cb E a s))
               else Live (set_cfg a cc s))"

text \<open>The body of the loop of \<open>sigchld_cb\<close>, for a child that is in the table.\<close>

definition release_process :: "addr \<Rightarrow> process \<Rightarrow> server \<Rightarrow> server" where
  "release_process p pr s =
     (let s = (if p_child_sockbuf pr then emit (EvClose (p_child_sock pr)) s else s)
      in s\<lparr>procs := (procs s)(p := None)\<rparr>)"

definition reap_group :: "env \<Rightarrow> addr \<Rightarrow> nat \<Rightarrow> int \<Rightarrow> server \<Rightarrow> server run" where
  "reap_group E a inst ret s =
     deref cfgs a s (\<lambda>cc.
     bindO (if int inst < cc_instances cc then set_child a inst Null s else Live s) (\<lambda>s.
     bindO (note_exit E a ret s) (\<lambda>s.
     deref cfgs a s (\<lambda>cc.
       if int inst < cc_instances cc \<and> cc_status cc = STATUS_RUNNING
       then bindO (spawn E a inst s) (\<lambda>(ok, s). Live s)
       else Live s))))"

definition reap_one :: "env \<Rightarrow> addr \<Rightarrow> int \<Rightarrow> int \<Rightarrow> server \<Rightarrow> server run" where
  "reap_one E p pid ret s =
     deref procs p s (\<lambda>pr.
     let group = p_child_config pr; inst = p_instance pr;
         log = (\<lambda>name s. slog E (''[process_exit] '' @ fmt_s name @ '' pid: '' @ show_int pid
                         @ [newline]) s)
     in bindO (case group of None \<Rightarrow> log None s
                 | Some a \<Rightarrow> deref cfgs a s (\<lambda>cc. log (cc_name cc) s)) (\<lambda>s.
        bindO (process_remove p s) (\<lambda>s.
        let s = release_process p pr s
        in case group of
             None \<Rightarrow> Live s
           | Some a \<Rightarrow> reap_group E a inst ret s)))"

text \<open>
  The loop over what \<open>waitpid\<close> returns. A child that is not in the table (a heartbeat or
  fatal command) makes the callback return, whatever is left to reap.
\<close>

primrec sigchld_loop :: "env \<Rightarrow> (int \<times> int) list \<Rightarrow> server \<Rightarrow> server run" where
  "sigchld_loop E [] s = Live s"
| "sigchld_loop E (z # zs) s =
     (let pid = fst z; ret = snd z;
          s = s\<lparr>zombies := zs, kids := remove1 pid (kids s)\<rparr>
      in case process_find_by_pid pid s of
           None \<Rightarrow> Live s
         | Some p \<Rightarrow> bindO (reap_one E p pid ret s) (\<lambda>s. sigchld_loop E zs s))"

definition sigchld_cb :: "env \<Rightarrow> server \<Rightarrow> server run" where
  "sigchld_cb E s = sigchld_loop E (zombies s) s"

section \<open>The pipe to a process before it runs its command\<close>

text \<open>\<open>input\<close> is what the buffer holds when the callback runs.\<close>

definition child_read_cb :: "env \<Rightarrow> string \<Rightarrow> server \<Rightarrow> server run" where
  "child_read_cb E input s =
     (let buf = take 1023 input; r = length buf
      in if r > 0 then slog E (cstr buf) s else Live s)"

definition child_error_cb :: "addr \<Rightarrow> server \<Rightarrow> server run" where
  "child_error_cb p s =
     deref procs p s (\<lambda>pr.
       if p_child_sockbuf pr
       then Live (set_proc p (pr\<lparr>p_child_sockbuf := False\<rparr>) (emit (EvClose (p_child_sock pr)) s))
       else Live s)"

end
