(* ===== verification/Invariants.thy ===== *)
theory Invariants
  imports Process
begin

text \<open>
  The invariant of the server's heap, in five parts: the registry (list and hash table hold
  the same groups, and no others exist), the slots (a slot and the process in it point to
  each other; a process never points to a group that is gone), the pid table (it holds
  exactly the live processes, under distinct pids), the kernel's children, and the
  connections (every subscription belongs to a live one). The lemmas show what each
  elementary change of the heap does to it; the second half proves the rules for starting
  and reaping processes.
\<close>

section \<open>The invariant\<close>

definition group_keys :: "(addr \<rightharpoonup> child_config) \<Rightarrow> addr list \<Rightarrow> (strptr \<times> addr) list" where
  "group_keys m as = map (\<lambda>a. (cc_key a (the (m a)), a)) as"

definition registry_ok :: "server \<Rightarrow> bool" where
  "registry_ok s \<longleftrightarrow>
     uvstrhash_holds (child_config_hash s) (group_keys (cfgs s) (child_config_list s)) \<and>
     distinct (child_config_list s) \<and> set (child_config_list s) = dom (cfgs s)"

definition sizes_ok :: "server \<Rightarrow> bool" where
  "sizes_ok s \<longleftrightarrow>
     (\<forall>a cc. cfgs s a = Some cc \<longrightarrow>
        config_wf cc \<and> 0 \<le> cc_instances cc \<and> length (cc_childs cc) = nat (cc_instances cc))"

definition slots_ok :: "(addr \<rightharpoonup> child_config) \<Rightarrow> (addr \<rightharpoonup> process) \<Rightarrow> bool" where
  "slots_ok cs ps \<longleftrightarrow>
     (\<forall>a cc i p. cs a = Some cc \<longrightarrow> i < length (cc_childs cc) \<longrightarrow> cc_childs cc ! i = Proc p \<longrightarrow>
        (\<exists>pr. ps p = Some pr \<and> p_child_config pr = Some a \<and> p_instance pr = i)) \<and>
     (\<forall>p pr a. ps p = Some pr \<longrightarrow> p_child_config pr = Some a \<longrightarrow>
        (\<exists>cc. cs a = Some cc \<and> p_instance pr < length (cc_childs cc) \<and>
              cc_childs cc ! p_instance pr = Proc p))"

definition pid_entries :: "(addr \<rightharpoonup> process) \<Rightarrow> (32 word \<times> addr) set" where
  "pid_entries ps = {(word_of_int (p_pid pr), p) | p pr. ps p = Some pr}"

lemma in_pid_entries:
  "(w, p) \<in> pid_entries ps \<longleftrightarrow> (\<exists>pr. ps p = Some pr \<and> w = word_of_int (p_pid pr))"
  by (auto simp: pid_entries_def)

definition table_ok :: "addr uvhash \<Rightarrow> (addr \<rightharpoonup> process) \<Rightarrow> bool" where
  "table_ok h ps \<longleftrightarrow>
     (\<exists>L. uvhash_holds h L \<and> distinct (map fst L) \<and> set L = pid_entries ps)"

definition kids_ok :: "server \<Rightarrow> bool" where
  "kids_ok s \<longleftrightarrow>
     distinct (kids s) \<and> (\<forall>k \<in> set (kids s). 0 < k \<and> k < 2 ^ 31) \<and>
     fst ` set (zombies s) \<subseteq> set (kids s) \<and> distinct (map fst (zombies s)) \<and>
     (\<forall>p pr. procs s p = Some pr \<longrightarrow> p_pid pr \<in> set (kids s))"

definition addrs_ok :: "server \<Rightarrow> bool" where
  "addrs_ok s \<longleftrightarrow>
     (\<forall>a \<in> dom (cfgs s). a < next_addr s) \<and> (\<forall>p \<in> dom (procs s). p < next_addr s) \<and>
     (\<forall>c \<in> dom (conns s). c < next_addr s)"

definition conns_ok :: "server \<Rightarrow> bool" where
  "conns_ok s \<longleftrightarrow>
     subs_live s \<and> distinct (client_con_list s) \<and> set (client_con_list s) = dom (conns s)"

definition srv_inv :: "server \<Rightarrow> bool" where
  "srv_inv s \<longleftrightarrow>
     registry_ok s \<and> sizes_ok s \<and> slots_ok (cfgs s) (procs s) \<and>
     table_ok (process_hash s) (procs s) \<and> kids_ok s \<and> addrs_ok s \<and> conns_ok s"

lemma inv_init: "srv_inv init_server"
  using ustr.holds_create [of 16] uv.holds_create [of 16]
  by (auto simp: srv_inv_def registry_ok_def sizes_ok_def slots_ok_def table_ok_def kids_ok_def
      addrs_ok_def conns_ok_def init_server_def group_keys_def pid_entries_def subs_live_def)

lemma inv_core:
  assumes "core s' = core s"
  shows "srv_inv s' = srv_inv s"
  using core_eqD [OF assms] subs_live_core [OF assms] core_conn_dom [OF assms]
  by (simp add: srv_inv_def registry_ok_def sizes_ok_def kids_ok_def addrs_ok_def conns_ok_def)

lemma inv_emit [simp]: "srv_inv (emit e s) = srv_inv s"
  by (rule inv_core) simp

lemma inv_ticked [simp]: "srv_inv (ticked s) = srv_inv s"
  by (rule inv_core) simp

lemma inv_subs_live: "srv_inv s \<Longrightarrow> subs_live s"
  by (simp add: srv_inv_def conns_ok_def)

text \<open>Fork gives a pid that is not in use, or fails.\<close>

definition fork_fresh :: "env \<Rightarrow> bool" where
  "fork_fresh E \<longleftrightarrow>
     (\<forall>n K. os_fork E n K = -1 \<or>
        0 < os_fork E n K \<and> os_fork E n K < 2 ^ 31 \<and> os_fork E n K \<notin> set K)"

section \<open>What the parts of the state see\<close>

text \<open>\<open>front s\<close> is what process management leaves alone, for the client side of a handler.\<close>

definition front :: "server \<Rightarrow> server" where
  "front s = (core s)\<lparr>cfgs := Map.empty, procs := Map.empty, process_hash := uvhash_new 0,
     next_addr := 0, kids := []\<rparr>"

lemma front_core: "core s' = core s \<Longrightarrow> front s' = front s"
  by (simp add: front_def)

lemma front_eqD:
  assumes "front s' = front s"
  shows "child_config_list s' = child_config_list s"
    "child_config_hash s' = child_config_hash s" "client_con_list s' = client_con_list s"
    "subscription_list s' = subscription_list s"
    "auto_dump s' = auto_dump s" "allow_exit s' = allow_exit s" "dump_cnt s' = dump_cnt s"
    "files s' = files s" "zombies s' = zombies s" "now s' = now s"
    "map_option (\<lambda>c. c\<lparr>c_out := []\<rparr>) (conns s' a) = map_option (\<lambda>c. c\<lparr>c_out := []\<rparr>) (conns s a)"
  using arg_cong [OF assms, of child_config_list]
    arg_cong [OF assms, of child_config_hash]
    arg_cong [OF assms, of client_con_list]
    arg_cong [OF assms, of subscription_list]
    arg_cong [OF assms, of auto_dump] arg_cong [OF assms, of allow_exit]
    arg_cong [OF assms, of dump_cnt] arg_cong [OF assms, of files]
    arg_cong [OF assms, of zombies] arg_cong [OF assms, of now]
    fun_cong [OF arg_cong [OF assms, of conns], of a]
  by (simp_all add: front_def core_def)

lemma front_conn_live:
  assumes "front s' = front s"
  shows "conn_live a s' = conn_live a s"
  using front_eqD(11) [OF assms, of a] unfolding conn_live_def
  by (cases "conns s' a"; cases "conns s a") auto

lemma front_conn_dom:
  assumes "front s' = front s"
  shows "dom (conns s') = dom (conns s)"
  using front_conn_live [OF assms] unfolding conn_live_def dom_def by blast

lemma front_updates [simp]:
  "front (set_cfg a cc s) = front s" "front (set_proc p pr s) = front s"
  "front (s\<lparr>kids := ks\<rparr>) = front s" "front (s\<lparr>next_addr := n\<rparr>) = front s"
  "front (s\<lparr>process_hash := h\<rparr>) = front s" "front (s\<lparr>procs := ps\<rparr>) = front s"
  "front (ticked s) = front s" "front (emit e s) = front s"
  by (simp_all add: front_def core_def set_cfg_def set_proc_def ticked_def emit_def)

lemma acts_updates [simp]:
  "acts (set_cfg a cc s) = acts s" "acts (set_proc p pr s) = acts s" "acts (s\<lparr>kids := ks\<rparr>) = acts s"
  by (simp_all add: acts_def set_cfg_def set_proc_def)

lemma set_proc_sel [simp]:
  "procs (set_proc p pr s) = (procs s)(p \<mapsto> pr)" "cfgs (set_proc p pr s) = cfgs s"
  "now (set_proc p pr s) = now s" "kids (set_proc p pr s) = kids s"
  by (simp_all add: set_proc_def)

lemma set_cfg_sel [simp]:
  "procs (set_cfg a cc s) = procs s" "cfgs (set_cfg a cc s) = (cfgs s)(a \<mapsto> cc)"
  "now (set_cfg a cc s) = now s" "kids (set_cfg a cc s) = kids s"
  by (simp_all add: set_cfg_def)

lemma acts_grow_updates [simp]:
  "acts_grow t (set_cfg a cc s) = acts_grow t s" "acts_grow t (set_proc p pr s) = acts_grow t s"
  by (simp_all add: acts_grow_def)

section \<open>Elementary changes\<close>

lemma sizes_okD:
  "sizes_ok s \<Longrightarrow> cfgs s a = Some cc \<Longrightarrow>
   config_wf cc \<and> 0 \<le> cc_instances cc \<and> length (cc_childs cc) = nat (cc_instances cc)"
  by (simp add: sizes_ok_def)

lemma inv_sizes:
  "srv_inv s \<Longrightarrow> cfgs s a = Some cc \<Longrightarrow>
   config_wf cc \<and> 0 \<le> cc_instances cc \<and> length (cc_childs cc) = nat (cc_instances cc)"
  by (auto simp: srv_inv_def sizes_ok_def)

lemma inv_proc_group:
  assumes "srv_inv s" and "procs s p = Some pr" and "p_child_config pr = Some a"
  obtains cc where "cfgs s a = Some cc" "p_instance pr < length (cc_childs cc)"
    "cc_childs cc ! p_instance pr = Proc p"
  using assms unfolding srv_inv_def slots_ok_def by blast

lemma inv_slot_proc:
  assumes "srv_inv s" and "cfgs s a = Some cc" and "i < length (cc_childs cc)"
    and "cc_childs cc ! i = Proc p"
  obtains pr where "procs s p = Some pr" "p_child_config pr = Some a" "p_instance pr = i"
  using assms unfolding srv_inv_def slots_ok_def by blast

lemma group_keys_upd:
  assumes "cfgs s a = Some cc" and "cc_name cc' = cc_name cc"
  shows "group_keys ((cfgs s)(a \<mapsto> cc')) as = group_keys (cfgs s) as"
  using assms by (simp add: group_keys_def cc_key_def)

text \<open>Changing the settings of a group, its slots aside.\<close>

lemma inv_set_cfg:
  assumes s: "srv_inv s" and a: "cfgs s a = Some cc"
    and same: "cc_name cc' = cc_name cc" "cc_childs cc' = cc_childs cc"
      "cc_instances cc' = cc_instances cc" and wf: "config_wf cc'"
  shows "srv_inv (set_cfg a cc' s)"
proof -
  have "slots_ok ((cfgs s)(a \<mapsto> cc')) (procs s)"
    using s a same unfolding srv_inv_def slots_ok_def by (auto split: if_splits) (metis option.inject)+
  moreover have "registry_ok (set_cfg a cc' s)"
    using s a group_keys_upd [OF a same(1)] by (auto simp: srv_inv_def registry_ok_def set_cfg_def)
  moreover have "sizes_ok (set_cfg a cc' s)"
    using s a same wf by (auto simp: srv_inv_def sizes_ok_def set_cfg_def)
  moreover have "addrs_ok (set_cfg a cc' s)"
    using s a by (auto simp: srv_inv_def addrs_ok_def set_cfg_def)
  ultimately show ?thesis
    using s by (simp add: srv_inv_def set_cfg_def kids_ok_def conns_ok_def subs_live_def conn_live_def)
qed

text \<open>A child of ours that is not in the table: a helper command.\<close>

lemma inv_do_fork:
  assumes E: "fork_fresh E" and s: "srv_inv s" and f: "do_fork E s = (pid, s')"
  shows "srv_inv s' \<and> front s' = front s \<and> cfgs s' = cfgs s \<and> procs s' = procs s \<and>
    process_hash s' = process_hash s \<and> next_addr s' = next_addr s \<and> acts_grow s s' \<and>
    (pid = -1 \<and> kids s' = kids s \<and> failed s' \<or>
     kids s' = pid # kids s \<and> 0 < pid \<and> pid < 2 ^ 31 \<and> pid \<notin> set (kids s))"
proof (cases "os_fork E (tick s) (kids s) = -1")
  case True
  then have "pid = -1 \<and> s' = emit (EvFail ''fork'') (ticked s)"
    using f by (auto simp: do_fork_def Let_def)
  with s show ?thesis by (simp add: inv_core [OF core_ticked] inv_core [OF core_emit])
next
  case False
  then have p: "pid = os_fork E (tick s) (kids s)" "s' = (ticked s)\<lparr>kids := pid # kids s\<rparr>"
    using f by (auto simp: do_fork_def Let_def ticked_def)
  then have "0 < pid" "pid < 2 ^ 31" "pid \<notin> set (kids s)"
    using E False unfolding fork_fresh_def by metis+
  moreover have "srv_inv s'"
    using s calculation by (auto simp: p(2) ticked_def srv_inv_def registry_ok_def sizes_ok_def
        kids_ok_def addrs_ok_def conns_ok_def subs_live_def conn_live_def)
  ultimately show ?thesis
    using p(2) by (simp add: ticked_def [of s] front_def core_def acts_grow_def acts_def)
qed

lemma word_pid_inj:
  "0 < x \<Longrightarrow> x < 2 ^ 31 \<Longrightarrow> 0 < y \<Longrightarrow> y < 2 ^ 31 \<Longrightarrow>
   (word_of_int x :: 32 word) = word_of_int y \<longleftrightarrow> x = (y :: int)"
  by (auto simp: word_of_int_eq_iff take_bit_int_eq_self)

text \<open>Looking up a pid finds the live process with that pid, and nothing else.\<close>

lemma inv_find_by_pid:
  assumes s: "srv_inv s" and pid: "0 < pid" "pid < 2 ^ 31"
  shows "process_find_by_pid pid s = Some p \<longleftrightarrow> (\<exists>pr. procs s p = Some pr \<and> p_pid pr = pid)"
proof -
  obtain L where L: "uvhash_holds (process_hash s) L" "distinct (map fst L)"
    "set L = pid_entries (procs s)"
    using s unfolding srv_inv_def table_ok_def by blast
  have "process_find_by_pid pid s = Some p \<longleftrightarrow> (word_of_int pid, p) \<in> set L"
    using L by (simp add: process_find_by_pid_def uv.lookup_map_of)
  also have "\<dots> \<longleftrightarrow> (\<exists>pr. procs s p = Some pr \<and> p_pid pr = pid)"
  proof -
    have "0 < p_pid pr \<and> p_pid pr < 2 ^ 31" if "procs s p = Some pr" for pr
      using s that unfolding srv_inv_def kids_ok_def by blast
    with pid show ?thesis unfolding L(3) pid_entries_def by (auto simp: word_pid_inj)
  qed
  finally show ?thesis .
qed

section \<open>Adding and removing a process\<close>

lemma slots_ok_slot:
  assumes "slots_ok cs ps" and "cs a = Some cc" and "i < length (cc_childs cc)"
    and "cc_childs cc ! i = Proc p"
  obtains pr where "ps p = Some pr" "p_child_config pr = Some a" "p_instance pr = i"
  using assms unfolding slots_ok_def by blast

lemma slots_ok_proc:
  assumes "slots_ok cs ps" and "ps p = Some pr" and "p_child_config pr = Some a"
  obtains cc where "cs a = Some cc" "p_instance pr < length (cc_childs cc)"
    "cc_childs cc ! p_instance pr = Proc p"
  using assms unfolding slots_ok_def by blast

lemma slots_okI:
  assumes "\<And>a cc i p. cs a = Some cc \<Longrightarrow> i < length (cc_childs cc) \<Longrightarrow> cc_childs cc ! i = Proc p \<Longrightarrow>
      \<exists>pr. ps p = Some pr \<and> p_child_config pr = Some a \<and> p_instance pr = i"
    and "\<And>p pr a. ps p = Some pr \<Longrightarrow> p_child_config pr = Some a \<Longrightarrow>
      \<exists>cc. cs a = Some cc \<and> p_instance pr < length (cc_childs cc) \<and>
        cc_childs cc ! p_instance pr = Proc p"
  shows "slots_ok cs ps"
  using assms unfolding slots_ok_def by blast

lemma slots_ok_add:
  assumes ok: "slots_ok cs ps" and a: "cs a = Some cc" and i: "i < length (cc_childs cc)"
    and free: "\<And>q. cc_childs cc ! i \<noteq> Proc q" and p: "ps p = None"
    and pr: "p_child_config pr = Some a" "p_instance pr = i"
  shows "slots_ok (cs(a \<mapsto> cc\<lparr>cc_childs := (cc_childs cc)[i := Proc p]\<rparr>)) (ps(p \<mapsto> pr))"
proof -
  have slot: "q \<noteq> p" if "cs b = Some c" "j < length (cc_childs c)" "cc_childs c ! j = Proc q" for b c j q
    using ok p that unfolding slots_ok_def by fastforce
  have fwd: "\<exists>r. (ps(p \<mapsto> pr)) q = Some r \<and> p_child_config r = Some b \<and> p_instance r = j"
    if c: "(cs(a \<mapsto> cc\<lparr>cc_childs := (cc_childs cc)[i := Proc p]\<rparr>)) b = Some c"
      "j < length (cc_childs c)" "cc_childs c ! j = Proc q" for b c j q
  proof (cases "b = a \<and> j = i")
    case True
    with c i have "q = p" by auto
    with True pr show ?thesis by simp
  next
    case False
    then obtain c0 where c0: "cs b = Some c0" "j < length (cc_childs c0)" "cc_childs c0 ! j = Proc q"
      using c a by (auto split: if_splits)
    with slot have "q \<noteq> p" by blast
    with c0 ok show ?thesis unfolding slots_ok_def by simp
  qed
  have bwd: "\<exists>c. (cs(a \<mapsto> cc\<lparr>cc_childs := (cc_childs cc)[i := Proc p]\<rparr>)) b = Some c \<and>
      p_instance r < length (cc_childs c) \<and> cc_childs c ! p_instance r = Proc q"
    if r: "(ps(p \<mapsto> pr)) q = Some r" "p_child_config r = Some b" for q r b
  proof (cases "q = p")
    case True
    with r pr i show ?thesis by auto
  next
    case False
    with r have "ps q = Some r" by simp
    with ok r obtain c0 where c0: "cs b = Some c0" "p_instance r < length (cc_childs c0)"
      "cc_childs c0 ! p_instance r = Proc q"
      unfolding slots_ok_def by blast
    show ?thesis
    proof (cases "b = a")
      case True
      with c0 a free have "p_instance r \<noteq> i" by auto
      with True c0 a show ?thesis by auto
    qed (use c0 in auto)
  qed
  from fwd bwd show ?thesis unfolding slots_ok_def by blast
qed

lemma table_ok_add:
  assumes ok: "table_ok h ps" and p: "ps p = None"
    and pid: "0 < p_pid pr" "p_pid pr < 2 ^ 31"
    and fresh: "\<And>q r. ps q = Some r \<Longrightarrow> 0 < p_pid r \<and> p_pid r < 2 ^ 31 \<and> p_pid r \<noteq> p_pid pr"
  shows "table_ok (uvhash_insert h (word_of_int (p_pid pr)) p) (ps(p \<mapsto> pr))"
proof -
  obtain L where L: "uvhash_holds h L" "distinct (map fst L)" "set L = pid_entries ps"
    using ok unfolding table_ok_def by blast
  have "(word_of_int (p_pid pr) :: 32 word) \<notin> set (map fst L)"
  proof
    assume "(word_of_int (p_pid pr) :: 32 word) \<in> set (map fst L)"
    then obtain q r where "ps q = Some r" "word_of_int (p_pid pr) = (word_of_int (p_pid r) :: 32 word)"
      using L(3) by (auto simp: in_pid_entries)
    with fresh [of q r] pid show False by (simp add: word_pid_inj)
  qed
  moreover have "set ((word_of_int (p_pid pr), p) # L) = pid_entries (ps(p \<mapsto> pr))"
  proof (rule set_eqI)
    fix e
    show "e \<in> set ((word_of_int (p_pid pr), p) # L) \<longleftrightarrow> e \<in> pid_entries (ps(p \<mapsto> pr))"
      using p by (cases e) (auto simp: L(3) in_pid_entries)
  qed
  ultimately show ?thesis
    using uv.holds_insert [OF L(1)] L(2) unfolding table_ok_def
    by (intro exI [of _ "(word_of_int (p_pid pr), p) # L"]) simp
qed

lemma table_ok_remove:
  assumes ok: "table_ok h ps" and p: "ps p = Some pr"
    and pids: "\<And>q r. ps q = Some r \<Longrightarrow> 0 < p_pid r \<and> p_pid r < 2 ^ 31"
  shows "table_ok (uvhash_remove h (word_of_int (p_pid pr))) (ps(p := None))"
proof -
  obtain L where L: "uvhash_holds h L" "distinct (map fst L)" "set L = pid_entries ps"
    using ok unfolding table_ok_def by blast
  let ?k = "word_of_int (p_pid pr) :: 32 word"
  let ?L = "remove_first (\<lambda>e. fst e = ?k) L"
  have in_L: "(?k, p) \<in> set L" using L(3) p by (auto simp: pid_entries_def)
  have uniq: "q = p" if "(?k, q) \<in> set L" for q
    by (rule eq_key_imp_eq_value [OF L(2) that in_L])
  have "set ?L = pid_entries (ps(p := None))"
  proof (rule set_eqI)
    fix e :: "32 word \<times> addr"
    obtain w q where e: "e = (w, q)" by (cases e)
    have "q = p" if "ps q = Some r" "word_of_int (p_pid r) = ?k" for r
      by (rule uniq) (use that L(3) in \<open>auto simp: in_pid_entries\<close>)
    then have "(w, q) \<in> pid_entries ps \<and> w \<noteq> ?k \<longleftrightarrow> (w, q) \<in> pid_entries (ps(p := None))"
      using p by (cases "q = p") (auto simp: in_pid_entries)
    then show "e \<in> set ?L \<longleftrightarrow> e \<in> pid_entries (ps(p := None))"
      unfolding set_remove_first_distinct [OF L(2)] L(3) [symmetric] e by simp
  qed
  moreover note distinct_map_remove_first [OF L(2)] uv.holds_remove_key [OF L(1)]
  ultimately show ?thesis unfolding table_ok_def by (intro exI conjI)
qed

lemma inv_pids:
  "srv_inv s \<Longrightarrow> procs s p = Some pr \<Longrightarrow>
   0 < p_pid pr \<and> p_pid pr < 2 ^ 31 \<and> p_pid pr \<in> set (kids s)"
  unfolding srv_inv_def kids_ok_def by blast

lemma inv_add_process:
  assumes s: "srv_inv s" and a: "cfgs s a = Some cc" and i: "i < length (cc_childs cc)"
    and free: "\<And>q. cc_childs cc ! i \<noteq> Proc q"
    and pid: "p_pid pr \<in> set (kids s)" and fresh: "\<And>q r. procs s q = Some r \<Longrightarrow> p_pid r \<noteq> p_pid pr"
    and pr: "p_child_config pr = Some a" "p_instance pr = i" and p: "p = next_addr s"
  shows "srv_inv (s\<lparr>next_addr := Suc p, procs := (procs s)(p \<mapsto> pr),
    process_hash := uvhash_insert (process_hash s) (word_of_int (p_pid pr)) p,
    cfgs := (cfgs s)(a \<mapsto> cc\<lparr>cc_childs := (cc_childs cc)[i := Proc p]\<rparr>)\<rparr>)" (is "srv_inv ?t")
proof -
  let ?cc = "cc\<lparr>cc_childs := (cc_childs cc)[i := Proc p]\<rparr>"
  have none: "procs s p = None"
    using s p unfolding srv_inv_def addrs_ok_def by (metis domIff less_irrefl)
  have range: "0 < p_pid pr" "p_pid pr < 2 ^ 31"
    using s pid unfolding srv_inv_def kids_ok_def by blast+
  have "slots_ok (cfgs ?t) (procs ?t)"
    using slots_ok_add [where cs = "cfgs s" and ps = "procs s", OF _ a i free none pr] s by (simp add: srv_inv_def)
  moreover have "table_ok (process_hash ?t) (procs ?t)"
    using table_ok_add [where ps = "procs s" and pr = pr and p = p, OF _ none range] s fresh inv_pids [OF s] by (simp add: srv_inv_def)
  moreover have "registry_ok ?t"
    using s a group_keys_upd [OF a, of ?cc] by (auto simp: srv_inv_def registry_ok_def)
  moreover have "sizes_ok ?t"
    using s inv_sizes [OF s a] by (auto simp: srv_inv_def sizes_ok_def config_wf_def)
  moreover have "kids_ok ?t"
    using s pid by (auto simp: srv_inv_def kids_ok_def)
  moreover have "addrs_ok ?t"
    using s a p by (auto simp: srv_inv_def addrs_ok_def less_Suc_eq)
  ultimately show ?thesis
    using s by (simp add: srv_inv_def conns_ok_def subs_live_def conn_live_def)
qed

text \<open>Reaping: the process leaves the table and the heap, and its slot is cleared.\<close>

definition clear_slot :: "process \<Rightarrow> (addr \<rightharpoonup> child_config) \<Rightarrow> (addr \<rightharpoonup> child_config)" where
  "clear_slot pr cs =
     (case p_child_config pr of
        None \<Rightarrow> cs
      | Some a \<Rightarrow> (case cs a of
          None \<Rightarrow> cs
        | Some cc \<Rightarrow> cs(a \<mapsto> cc\<lparr>cc_childs := (cc_childs cc)[p_instance pr := Null]\<rparr>)))"

lemma slots_ok_remove:
  assumes ok: "slots_ok cs ps" and p: "ps p = Some pr"
  shows "slots_ok (clear_slot pr cs) (ps(p := None))"
proof -
  have only: "p_child_config pr = Some b \<and> p_instance pr = j"
    if c: "cs b = Some c" "j < length (cc_childs c)" "cc_childs c ! j = Proc p" for b c j
    by (rule slots_ok_slot [OF ok c]) (use p in simp)
  have other: "(ps(p := None)) q = Some r \<longleftrightarrow> q \<noteq> p \<and> ps q = Some r" for q r
    by simp
  show ?thesis
  proof (cases "p_child_config pr")
    case None
    show ?thesis
      unfolding clear_slot_def None option.case
    proof (rule slots_okI, unfold other)
      fix a cc i q
      assume c: "cs a = Some cc" "i < length (cc_childs cc)" "cc_childs cc ! i = Proc q"
      then have "q \<noteq> p" using only None by fastforce
      then show "\<exists>r. (q \<noteq> p \<and> ps q = Some r) \<and> p_child_config r = Some a \<and> p_instance r = i"
        using slots_ok_slot [OF ok c] by blast
    next
      fix q r a
      assume "q \<noteq> p \<and> ps q = Some r" and "p_child_config r = Some a"
      then show "\<exists>cc. cs a = Some cc \<and> p_instance r < length (cc_childs cc) \<and>
          cc_childs cc ! p_instance r = Proc q"
        using slots_ok_proc [OF ok] by blast
    qed
  next
    case (Some a)
    then obtain cc where cc: "cs a = Some cc" "p_instance pr < length (cc_childs cc)"
      "cc_childs cc ! p_instance pr = Proc p"
      using slots_ok_proc [OF ok p] by blast
    let ?cc = "cc\<lparr>cc_childs := (cc_childs cc)[p_instance pr := Null]\<rparr>"
    have "slots_ok (cs(a \<mapsto> ?cc)) (ps(p := None))"
    proof (rule slots_okI, unfold other)
      fix b c j q
      assume c: "(cs(a \<mapsto> ?cc)) b = Some c" "j < length (cc_childs c)" "cc_childs c ! j = Proc q"
      have ne: "\<not> (b = a \<and> j = p_instance pr)" using c cc by auto
      then obtain c0 where c0: "cs b = Some c0" "j < length (cc_childs c0)" "cc_childs c0 ! j = Proc q"
        using c cc by (auto split: if_splits)
      have "q \<noteq> p" using only [of b c0 j] c0 ne Some by auto
      then show "\<exists>r. (q \<noteq> p \<and> ps q = Some r) \<and> p_child_config r = Some b \<and> p_instance r = j"
        using slots_ok_slot [OF ok c0] by blast
    next
      fix q r b
      assume r: "q \<noteq> p \<and> ps q = Some r" "p_child_config r = Some b"
      then obtain c0 where c0: "cs b = Some c0" "p_instance r < length (cc_childs c0)"
        "cc_childs c0 ! p_instance r = Proc q"
        using slots_ok_proc [OF ok] by blast
      show "\<exists>c. (cs(a \<mapsto> ?cc)) b = Some c \<and> p_instance r < length (cc_childs c) \<and>
          cc_childs c ! p_instance r = Proc q"
      proof (cases "b = a")
        case True
        with c0 cc r have "p_instance r \<noteq> p_instance pr" by auto
        with True c0 cc show ?thesis by simp
      qed (use c0 in simp)
    qed
    then show ?thesis by (simp add: clear_slot_def Some cc(1))
  qed
qed

end
