(* ===== verification/Supervise.thy ===== *)
theory Supervise
  imports Invariants
begin

text \<open>
  Starting, watching and reaping processes keep the invariant, and what each of them
  changes. The rules have the shape of the output rules of Frame: from a state that
  satisfies the invariant, the postcondition on return, and \<open>Aborted\<close> (an oversized
  notification) as the only way to end the server.
\<close>

lemma aborted_if_live: "srv_inv s \<Longrightarrow> out_dead C s h t \<Longrightarrow> C \<Longrightarrow> h = Aborted"
  by (auto simp: out_dead_def srv_inv_def conns_ok_def)

lemma slog_live_full:
  assumes "subs_live s" and "\<And>s'. full s' = full s \<Longrightarrow> Q s'"
  shows "post (slog E msg s) Q (\<lambda>h t. h = Aborted)"
  by (rule slog_step [OF refl]) (use assms in \<open>auto simp: out_dead_def\<close>)

lemma slog_live:
  assumes "subs_live s" and "\<And>s'. core s' = core s \<Longrightarrow> Q s'"
  shows "post (slog E msg s) Q (\<lambda>h t. h = Aborted)"
  using assms by (blast intro: slog_live_full full_core)

lemma slog_full:
  assumes "srv_inv s" and "\<And>s'. full s' = full s \<Longrightarrow> Q s'"
  shows "post (slog E msg s) Q (\<lambda>h t. h = Aborted)"
  using assms by (simp add: slog_live_full inv_subs_live)

lemma slog_inv:
  assumes "srv_inv s" and "\<And>s'. core s' = core s \<Longrightarrow> Q s'"
  shows "post (slog E msg s) Q (\<lambda>h t. h = Aborted)"
  using assms by (simp add: slog_live inv_subs_live)

lemma send_status_update_notification_full:
  assumes "srv_inv s" and "\<And>s'. full s' = full s \<Longrightarrow> Q s'"
  shows "post (send_status_update_notification E name st s) Q (\<lambda>h t. h = Aborted)"
  by (rule send_status_update_notification_step [OF refl]) (use assms in \<open>auto intro: aborted_if_live\<close>)

lemma send_status_update_notification_inv:
  assumes "srv_inv s" and "\<And>s'. core s' = core s \<Longrightarrow> Q s'"
  shows "post (send_status_update_notification E name st s) Q (\<lambda>h t. h = Aborted)"
  by (rule send_status_update_notification_full [OF assms(1)]) (rule assms(2) [OF full_core])

lemma send_group_cfg_update_notification_full:
  assumes "srv_inv s" and "\<And>s'. full s' = full s \<Longrightarrow> Q s'"
  shows "post (send_group_cfg_update_notification E cc s) Q (\<lambda>h t. h = Aborted)"
  by (rule send_group_cfg_update_notification_step [OF refl]) (use assms in \<open>auto intro: aborted_if_live\<close>)

lemma send_group_cfg_update_notification_inv:
  assumes "srv_inv s" and "\<And>s'. core s' = core s \<Longrightarrow> Q s'"
  shows "post (send_group_cfg_update_notification E cc s) Q (\<lambda>h t. h = Aborted)"
  by (rule send_group_cfg_update_notification_full [OF assms(1)]) (rule assms(2) [OF full_core])

lemma send_message_full:
  assumes "srv_inv s" and "conn_live con s" and "\<And>ok s'. full s' = full s \<Longrightarrow> Q (ok, s')"
  shows "post (send_message E con ret s) Q (\<lambda>h t. h = Aborted)"
  by (rule send_message_step [OF refl]) (use assms in \<open>auto intro: aborted_if_live\<close>)

lemma send_message_inv:
  assumes "srv_inv s" and "conn_live con s" and "\<And>ok s'. core s' = core s \<Longrightarrow> Q (ok, s')"
  shows "post (send_message E con ret s) Q (\<lambda>h t. h = Aborted)"
  by (rule send_message_full [OF assms(1,2)]) (rule assms(3) [OF full_core])

lemma send_status_msg_full:
  assumes "srv_inv s" and "conn_live con s" and "\<And>s'. full s' = full s \<Longrightarrow> Q s'"
  shows "post (send_status_msg E con code msg s) Q (\<lambda>h t. h = Aborted)"
  by (rule send_status_msg_step [OF refl]) (use assms in \<open>auto intro: aborted_if_live\<close>)

lemma send_status_msg_inv:
  assumes "srv_inv s" and "conn_live con s" and "\<And>s'. core s' = core s \<Longrightarrow> Q s'"
  shows "post (send_status_msg E con code msg s) Q (\<lambda>h t. h = Aborted)"
  by (rule send_status_msg_full [OF assms(1,2)]) (rule assms(3) [OF full_core])

section \<open>Spawn\<close>

definition spawned :: "addr \<Rightarrow> child_config \<Rightarrow> nat \<Rightarrow> process \<Rightarrow> server \<Rightarrow> server" where
  "spawned a cc inst pr s =
     s\<lparr>next_addr := Suc (next_addr s),
       procs := (procs s)(next_addr s \<mapsto> pr),
       process_hash := uvhash_insert (process_hash s) (word_of_int (p_pid pr)) (next_addr s),
       cfgs := (cfgs s)(a \<mapsto> cc\<lparr>cc_childs := (cc_childs cc)[inst := Proc (next_addr s)]\<rparr>)\<rparr>"

lemma spawn_eval:
  assumes pp: "os_socketpair E (tick s) = Some pp"
    and f: "do_fork E (ticked s) = (pid, s1)" "pid \<noteq> -1"
    and a: "cfgs s1 a = Some cc" and inst: "inst < length (cc_childs cc)"
  obtains pr t msg where
    "spawn E a inst s = bindO (slog E msg t) (\<lambda>s. Live (True, s))"
    "core t = core (spawned a cc inst pr s1)" "acts_grow s1 t"
    "p_pid pr = pid" "p_child_config pr = Some a" "p_instance pr = inst"
    "p_heartbeat_timer pr" "p_start pr = now s1" "p_age pr = cc_age cc" "\<not> p_terminated pr"
proof -
  let ?new = "bufferevent_new E (tick s1)"
  let ?en = "bufferevent_enable E (Suc (tick s1))"
  let ?pr = "\<lparr>p_pid = pid, p_start = now s1, p_age = cc_age cc, p_terminated = False,
      p_child_config = Some a, p_instance = inst, p_heartbeat_timer = True,
      p_child_sockbuf = (?new \<and> ?en), p_child_sock = pp\<rparr>"
  let ?s2 = "ticked (ticked (emit (EvChild pid cc inst) s1))"
  let ?s3 = "if ?new \<and> \<not> ?en then emit (EvClose pp) ?s2 else ?s2"
  have "spawn E a inst s = bindO (slog E (''[process_start] '' @ fmt_s (cc_name cc) @ '' pid: ''
      @ show_int pid @ [newline]) (spawned a cc inst ?pr ?s3)) (\<lambda>s. Live (True, s))"
    using pp f a inst
    by (simp add: spawn_def Let_def deref_def schedule_heartbeat_def process_insert_def
        set_child_def set_proc_def set_cfg_def spawned_def emit_def ticked_def)
  moreover have "core (spawned a cc inst ?pr ?s3) = core (spawned a cc inst ?pr s1)"
    by (simp add: core_def spawned_def emit_def ticked_def)
  moreover have "acts_grow s1 (spawned a cc inst ?pr ?s3)"
    by (auto simp: acts_grow_def acts_def spawned_def)
  ultimately show thesis by (rule that) simp_all
qed

definition slot_free :: "child_config \<Rightarrow> nat \<Rightarrow> bool" where
  "slot_free cc i \<longleftrightarrow> i < length (cc_childs cc) \<and> (\<forall>q. cc_childs cc ! i \<noteq> Proc q)"

text \<open>
  What a spawn does: nothing to the groups and processes if a system call failed, else one
  new process, in the slot, in the table and with its heartbeat scheduled.
\<close>

definition spawn_effect :: "addr \<Rightarrow> child_config \<Rightarrow> nat \<Rightarrow> server \<Rightarrow> bool \<Rightarrow> server \<Rightarrow> bool" where
  "spawn_effect a cc inst s ok s' \<longleftrightarrow>
     (if ok then
        (\<exists>p pr. procs s p = None \<and> procs s' = (procs s)(p \<mapsto> pr) \<and>
           cfgs s' = (cfgs s)(a \<mapsto> cc\<lparr>cc_childs := (cc_childs cc)[inst := Proc p]\<rparr>) \<and>
           p_child_config pr = Some a \<and> p_instance pr = inst \<and> p_heartbeat_timer pr \<and>
           p_pid pr \<notin> set (kids s) \<and> kids s' = p_pid pr # kids s)
      else procs s' = procs s \<and> cfgs s' = cfgs s \<and> kids s' = kids s)"

definition os_refuses :: "env \<Rightarrow> int list \<Rightarrow> bool" where
  "os_refuses E K \<longleftrightarrow> (\<exists>n. os_socketpair E n = None \<or> os_fork E n K = -1)"

lemma spawn_post:
  assumes E: "fork_fresh E" and s: "srv_inv s" and a: "cfgs s a = Some cc" and i: "slot_free cc inst"
  shows "post (spawn E a inst s)
    (\<lambda>(ok, s'). srv_inv s' \<and> front s' = front s \<and> spawn_effect a cc inst s ok s' \<and>
       (ok \<or> os_refuses E (kids s) \<and> failed s') \<and> acts_grow s s') (\<lambda>h t. h = Aborted)"
proof (cases "os_socketpair E (tick s)")
  case None
  with s show ?thesis
    by (auto simp: spawn_def inv_core [OF core_ticked] spawn_effect_def os_refuses_def)
next
  case (Some pp)
  have t: "srv_inv (ticked s)" using s by (simp add: inv_core [OF core_ticked])
  obtain pid s1 where f: "do_fork E (ticked s) = (pid, s1)" by fastforce
  note fk = inv_do_fork [OF E t f]
  show ?thesis
  proof (cases "pid = -1")
    case True
    then have "os_refuses E (kids s)"
      using f by (auto simp: os_refuses_def do_fork_def Let_def split: if_splits)
    with True fk f Some show ?thesis
      by (simp add: spawn_def spawn_effect_def)
  next
    case False
    with fk have kid: "kids s1 = pid # kids s" "pid \<notin> set (kids s)"
      and same: "cfgs s1 = cfgs s" "procs s1 = procs s" "front s1 = front s"
        "next_addr s1 = next_addr s"
      by (auto simp: ticked_def front_def core_def)
    have a1: "cfgs s1 a = Some cc" using a same by simp
    have il: "inst < length (cc_childs cc)" using i by (simp add: slot_free_def)
    obtain pr u msg where sp: "spawn E a inst s = bindO (slog E msg u) (\<lambda>s. Live (True, s))"
      and u: "core u = core (spawned a cc inst pr s1)" and grow: "acts_grow s1 u"
      and pr: "p_pid pr = pid" "p_child_config pr = Some a" "p_instance pr = inst"
        "p_heartbeat_timer pr" "p_start pr = now s1" "p_age pr = cc_age cc" "\<not> p_terminated pr"
      by (rule spawn_eval [OF Some f False a1 il])
    have fresh: "p_pid r \<noteq> p_pid pr" if "procs s1 q = Some r" for q r
      using inv_pids [OF s, of q r] that same kid pr by auto
    have "srv_inv (spawned a cc inst pr s1)"
      unfolding spawned_def
      by (rule inv_add_process) (use fk a1 i fresh kid pr in \<open>auto simp: slot_free_def\<close>)
    then have inv_u: "srv_inv u" by (simp add: inv_core [OF u])
    have none: "procs s (next_addr s) = None"
      using s unfolding srv_inv_def addrs_ok_def by (metis domIff less_irrefl)
    have "front u = front s"
      using front_core [OF u] same(3) by (simp add: spawned_def front_def core_def)
    moreover have "spawn_effect a cc inst s True u"
      using core_eqD [OF u] same none kid pr a unfolding spawn_effect_def
      by (auto simp: spawned_def intro!: exI [of _ "next_addr s"] exI [of _ pr])
    moreover have "acts_grow s u" by (rule acts_grow_trans [OF _ grow]) (use fk in simp)
    ultimately have Q: "srv_inv s' \<and> front s' = front s \<and> spawn_effect a cc inst s True s' \<and>
        acts_grow s s'" if f: "full s' = full u" for s'
      using inv_u core_eqD [OF full_core [OF f]] front_core [OF full_core [OF f]]
        inv_core [OF full_core [OF f]] acts_grow_eq [OF full_acts [OF f]]
      by (simp add: spawn_effect_def)
    show ?thesis
      unfolding sp post_bind by (rule slog_full [OF inv_u]) (use Q in simp)
  qed
qed

section \<open>Counting errors\<close>

text \<open>What one exit does to the settings of the group.\<close>

definition exit_verdict :: "int \<Rightarrow> int \<Rightarrow> child_config \<Rightarrow> child_config" where
  "exit_verdict t ret cc =
     (if \<not> exit_is_error ret cc then cc
      else let c = count_error t cc
           in if cc_error c \<ge> ERROR_MAX * cc_instances c then c\<lparr>cc_status := STATUS_BROKEN\<rparr> else c)"

lemma exit_verdict_keeps [simp]:
  "cc_name (exit_verdict t ret cc) = cc_name cc"
  "cc_childs (exit_verdict t ret cc) = cc_childs cc"
  "cc_instances (exit_verdict t ret cc) = cc_instances cc"
  "cc_killsig (exit_verdict t ret cc) = cc_killsig cc"
  "cc_command (exit_verdict t ret cc) = cc_command cc"
  "cc_fatal_cb (exit_verdict t ret cc) = cc_fatal_cb cc"
  by (simp_all add: exit_verdict_def count_error_def Let_def)

lemma count_error_keeps [simp]:
  "cc_name (count_error t cc) = cc_name cc" "cc_childs (count_error t cc) = cc_childs cc"
  "cc_instances (count_error t cc) = cc_instances cc"
  "config_wf (count_error t cc) = config_wf cc"
  by (simp_all add: count_error_def Let_def config_wf_def)

lemma config_wf_status: "config_wf cc \<Longrightarrow> is_int st \<Longrightarrow> config_wf (cc\<lparr>cc_status := st\<rparr>)"
  by (simp add: config_wf_def)

lemma exit_verdict_wf: "config_wf cc \<Longrightarrow> config_wf (exit_verdict t ret cc)"
  by (simp add: exit_verdict_def count_error_def Let_def config_wf_def)

lemma run_fatal_cb_post:
  assumes E: "fork_fresh E" and s: "srv_inv s" and a: "cfgs s a = Some cc"
  shows "post (run_fatal_cb E a s)
    (\<lambda>s'. srv_inv s' \<and> front s' = front s \<and> cfgs s' = cfgs s \<and> procs s' = procs s \<and> acts_grow s s')
    (\<lambda>h t. h = Aborted)"
proof (cases "cc_fatal_cb cc")
  case None
  with a s show ?thesis by (simp add: run_fatal_cb_def deref_def)
next
  case (Some cb)
  obtain pid s1 where f: "do_fork E s = (pid, s1)" by fastforce
  note fk = inv_do_fork [OF E s f]
  have logged: "post (slog E msg s1) (\<lambda>s'. srv_inv s' \<and> front s' = front s \<and>
      cfgs s' = cfgs s \<and> procs s' = procs s \<and> acts_grow s s') (\<lambda>h t. h = Aborted)" for msg
  proof (rule slog_full)
    show "srv_inv s1" using fk by simp
    fix s'
    assume f: "full s' = full s1"
    show "srv_inv s' \<and> front s' = front s \<and> cfgs s' = cfgs s \<and> procs s' = procs s \<and> acts_grow s s'"
      using fk core_eqD [OF full_core [OF f]] front_core [OF full_core [OF f]]
        inv_core [OF full_core [OF f]] acts_grow_eq [OF full_acts [OF f]]
      by simp
  qed
  show ?thesis
    using a Some f
    by (auto simp: run_fatal_cb_def deref_def post_bind intro: post_mono [OF logged])
qed

lemma note_exit_post:
  assumes E: "fork_fresh E" and s: "srv_inv s" and a: "cfgs s a = Some cc"
  shows "post (note_exit E a ret s)
    (\<lambda>s'. srv_inv s' \<and> front s' = front s \<and> procs s' = procs s \<and>
          cfgs s' = (cfgs s)(a \<mapsto> exit_verdict (now s) ret cc) \<and>
          (kids s' = kids s \<or> cc_status (exit_verdict (now s) ret cc) = STATUS_BROKEN) \<and>
          acts_grow s s') (\<lambda>h t. h = Aborted)"
proof (cases "exit_is_error ret cc")
  case False
  with a s show ?thesis by (simp add: note_exit_def deref_def exit_verdict_def fun_upd_idem)
next
  case True
  let ?c = "count_error (now s) cc"
  let ?b = "?c\<lparr>cc_status := STATUS_BROKEN\<rparr>"
  have wf: "config_wf cc" using inv_sizes [OF s a] by simp
  have set: "srv_inv (set_cfg a c s)" if "c = ?c \<or> c = ?b" for c
    using that wf by (auto intro!: inv_set_cfg [OF s a] config_wf_status)
  show ?thesis
  proof (cases "cc_error ?c \<ge> ERROR_MAX * cc_instances ?c")
    case False
    with True a set show ?thesis
      by (simp add: note_exit_def deref_def exit_verdict_def Let_def)
  next
    case broken: True
    let ?D = "\<lambda>h t. h = Aborted"
    let ?s1 = "set_cfg a ?b s"
    let ?Q = "\<lambda>s'. srv_inv s' \<and> front s' = front s \<and> procs s' = procs s \<and>
      cfgs s' = (cfgs s)(a \<mapsto> ?b) \<and> acts_grow s s'"
    have fatal: "post (run_fatal_cb E a s3) ?Q ?D" if f: "full s3 = full ?s1" for s3
    proof -
      note c = full_core [OF f]
      have "srv_inv s3" using set by (simp add: inv_core [OF c])
      moreover have "cfgs s3 a = Some ?b" using core_eqD(1) [OF c] by (simp add: set_cfg_def)
      moreover have "acts_grow s s3"
        using full_acts [OF f] by (simp add: acts_grow_def acts_def set_cfg_def)
      moreover have "front s3 = front s" using front_core [OF c] by simp
      moreover have "procs s3 = procs s" "cfgs s3 = (cfgs s)(a \<mapsto> ?b)"
        using core_eqD(1,4) [OF c] by simp_all
      ultimately show ?thesis
        by (intro post_mono [OF run_fatal_cb_post [OF E]])
          (simp_all, blast intro: acts_grow_trans)
    qed
    have "post (slog E m ?s1) (\<lambda>s2. post (send_status_update_notification E n st s2)
        (\<lambda>s3. post (run_fatal_cb E a s3) ?Q ?D) ?D) ?D" for m n st
    proof (rule slog_full)
      show "srv_inv ?s1" using set by simp
      fix s2
      assume f2: "full s2 = full ?s1"
      show "post (send_status_update_notification E n st s2)
        (\<lambda>s3. post (run_fatal_cb E a s3) ?Q ?D) ?D"
      proof (rule send_status_update_notification_full)
        show "srv_inv s2" using set by (simp add: inv_core [OF full_core [OF f2]])
        show "post (run_fatal_cb E a s3) ?Q ?D" if "full s3 = full s2" for s3
          using fatal that f2 by simp
      qed
    qed
    with True broken a show ?thesis
      by (simp add: note_exit_def deref_def exit_verdict_def Let_def post_bind)
  qed
qed

section \<open>Reaping\<close>

text \<open>The state once a dead process is out of the table, the heap and its slot.\<close>

definition buried :: "addr \<Rightarrow> process \<Rightarrow> (int \<times> int) list \<Rightarrow> server \<Rightarrow> server" where
  "buried p pr zs s =
     s\<lparr>zombies := zs, kids := remove1 (p_pid pr) (kids s),
       procs := (procs s)(p := None),
       process_hash := uvhash_remove (process_hash s) (word_of_int (p_pid pr)),
       cfgs := clear_slot pr (cfgs s)\<rparr>"

lemma clear_slot_keeps:
  assumes "clear_slot pr cs a = Some cc'"
  obtains cc where "cs a = Some cc" "cc_name cc' = cc_name cc" "cc_instances cc' = cc_instances cc"
    "length (cc_childs cc') = length (cc_childs cc)" "config_wf cc' = config_wf cc"
  using assms by (auto simp: clear_slot_def config_wf_def split: option.splits if_splits)

lemma dom_clear_slot [simp]: "dom (clear_slot pr cs) = dom cs"
  by (auto simp: clear_slot_def split: option.splits)

lemma clear_slot_name:
  "map_option cc_name (clear_slot pr cs a) = map_option cc_name (cs a)"
  by (auto simp: clear_slot_def split: option.splits)

lemma group_keys_clear_slot:
  assumes "set as \<subseteq> dom cs"
  shows "group_keys (clear_slot pr cs) as = group_keys cs as"
proof -
  have "cc_key a (the (clear_slot pr cs a)) = cc_key a (the (cs a))" if a: "a \<in> set as" for a
  proof -
    obtain cc where c: "cs a = Some cc" using assms a by auto
    obtain cc' where c': "clear_slot pr cs a = Some cc'"
      using c dom_clear_slot [of pr cs] by (metis domD domI)
    show ?thesis using clear_slot_name [of pr cs a] c c' by (simp add: cc_key_def)
  qed
  then show ?thesis by (simp add: group_keys_def)
qed

lemma inv_buried:
  assumes s: "srv_inv s" and p: "procs s p = Some pr" and z: "zombies s = (p_pid pr, r) # zs"
  shows "srv_inv (buried p pr zs s)"
proof -
  let ?t = "buried p pr zs s"
  have "slots_ok (cfgs ?t) (procs ?t)"
    using slots_ok_remove [where ps = "procs s", OF _ p] s by (simp add: srv_inv_def buried_def)
  moreover have "table_ok (process_hash ?t) (procs ?t)"
    using table_ok_remove [where ps = "procs s", OF _ p] s inv_pids [OF s] by (simp add: srv_inv_def buried_def)
  moreover have "registry_ok ?t"
    using s by (simp add: srv_inv_def registry_ok_def buried_def group_keys_clear_slot)
  moreover have "sizes_ok ?t"
    unfolding sizes_ok_def
  proof (intro allI impI)
    fix a cc'
    assume "cfgs ?t a = Some cc'"
    then have "clear_slot pr (cfgs s) a = Some cc'" by (simp add: buried_def)
    then show "config_wf cc' \<and> 0 \<le> cc_instances cc' \<and> length (cc_childs cc') = nat (cc_instances cc')"
      using inv_sizes [OF s] by (elim clear_slot_keeps) simp
  qed
  moreover have "kids_ok ?t"
  proof -
    have K: "distinct (kids s)" "\<forall>k \<in> set (kids s). 0 < k \<and> k < 2 ^ 31"
      "fst ` set (zombies s) \<subseteq> set (kids s)" "distinct (map fst (zombies s))"
      "\<forall>p pr. procs s p = Some pr \<longrightarrow> p_pid pr \<in> set (kids s)"
      using s by (auto simp: srv_inv_def kids_ok_def)
    have "p_pid r \<noteq> p_pid pr" if "procs s q = Some r" "q \<noteq> p" for q r
    proof
      assume e: "p_pid r = p_pid pr"
      have "process_find_by_pid (p_pid pr) s = Some p" "process_find_by_pid (p_pid pr) s = Some q"
        using inv_find_by_pid [OF s] inv_pids [OF s p] that p e by auto
      with that show False by simp
    qed
    moreover have "p_pid pr \<notin> fst ` set zs" using K(4) z by simp
    then have "fst ` set zs \<subseteq> set (remove1 (p_pid pr) (kids s))"
      using K(1,3) z by (simp add: subset_Diff_insert)
    ultimately show ?thesis
      using K z by (auto simp: kids_ok_def buried_def)
  qed
  moreover have "addrs_ok ?t" using s by (auto simp: srv_inv_def addrs_ok_def buried_def)
  ultimately show ?thesis
    using s by (simp add: srv_inv_def buried_def conns_ok_def subs_live_def conn_live_def)
qed

lemma inv_unknown_child:
  assumes s: "srv_inv s" and z: "zombies s = (pid, r) # zs"
    and none: "\<And>p pr. procs s p = Some pr \<Longrightarrow> p_pid pr \<noteq> pid"
  shows "srv_inv (s\<lparr>zombies := zs, kids := remove1 pid (kids s)\<rparr>)"
proof -
  have K: "distinct (kids s)" "\<forall>k \<in> set (kids s). 0 < k \<and> k < 2 ^ 31"
    "fst ` set (zombies s) \<subseteq> set (kids s)" "distinct (map fst (zombies s))"
    "\<forall>p pr. procs s p = Some pr \<longrightarrow> p_pid pr \<in> set (kids s)"
    using s by (auto simp: srv_inv_def kids_ok_def)
  have "pid \<notin> fst ` set zs" using K(4) z by simp
  then have "fst ` set zs \<subseteq> set (remove1 pid (kids s))"
    using K(1,3) z by (simp add: subset_Diff_insert)
  moreover have "p_pid pr \<in> set (remove1 pid (kids s))" if "procs s p = Some pr" for p pr
    using none [OF that] K(5) that by simp
  ultimately show ?thesis
    using s K z by (simp add: srv_inv_def registry_ok_def sizes_ok_def kids_ok_def addrs_ok_def
        conns_ok_def subs_live_def conn_live_def)
qed

text \<open>
  What reaping one process of the table does: the process is gone; if it belonged to a
  group, its slot is empty, the exit is counted, and if the group still runs, the slot gets
  a new process unless the system refuses one.
\<close>

definition reap_effect :: "env \<Rightarrow> addr \<Rightarrow> process \<Rightarrow> int \<Rightarrow> server \<Rightarrow> server \<Rightarrow> bool" where
  "reap_effect E p pr ret b s' \<longleftrightarrow>
     (case p_child_config pr of
        None \<Rightarrow> procs s' = procs b \<and> cfgs s' = cfgs b
      | Some a \<Rightarrow>
          (\<exists>cc t ok. cfgs b a = Some cc \<and>
             procs t = procs b \<and>
             cfgs t = (cfgs b)(a \<mapsto> exit_verdict (now b) ret cc) \<and>
             (if cc_status (exit_verdict (now b) ret cc) = STATUS_RUNNING
              then spawn_effect a (exit_verdict (now b) ret cc) (p_instance pr) t ok s' \<and>
                   kids t = kids b \<and> (ok \<or> os_refuses E (kids b) \<and> failed s')
              else procs s' = procs t \<and> cfgs s' = cfgs t)))"

lemma reap_group_post:
  assumes E: "fork_fresh E"
    and b: "srv_inv b" and cc: "cfgs b a = Some cc" and free: "slot_free cc inst"
    and grp: "p_child_config pr = Some a" "p_instance pr = inst"
    and s: "core s = core (b\<lparr>cfgs := (cfgs b)(a \<mapsto> cc0)\<rparr>)" and grow: "acts_grow b s"
    and cc0: "cc = cc0\<lparr>cc_childs := (cc_childs cc0)[inst := Null]\<rparr>"
  shows "post (reap_group E a inst ret s)
    (\<lambda>s'. srv_inv s' \<and> front s' = front b \<and> reap_effect E p pr ret b s' \<and> acts_grow b s') (\<lambda>h t. h = Aborted)"
proof -
  have a0: "cfgs s a = Some cc0" using core_eqD(1) [OF s] by simp
  have il: "inst < length (cc_childs cc)" using free by (simp add: slot_free_def)
  have il0: "inst < length (cc_childs cc0)" using il cc0 by simp
  have "length (cc_childs cc) = nat (cc_instances cc)" "0 \<le> cc_instances cc"
    using inv_sizes [OF b cc] by auto
  then have in0: "int inst < cc_instances cc0" using il cc0 by simp
  let ?s1 = "set_cfg a cc s"
  have c1: "core ?s1 = core b"
  proof -
    have "core ?s1 = (core s)\<lparr>cfgs := (cfgs s)(a \<mapsto> cc)\<rparr>" by (simp add: core_def set_cfg_def)
    also have "\<dots> = core b"
      unfolding s core_eqD(1) [OF s] using fun_upd_idem [of "cfgs b" a "Some cc", OF cc]
      by (simp add: core_def)
    finally show ?thesis .
  qed
  have i1: "srv_inv ?s1" using b by (simp add: inv_core [OF c1])
  have a1: "cfgs ?s1 a = Some cc" by (simp add: set_cfg_def)
  let ?v = "exit_verdict (now b) ret cc"
  have n1: "now ?s1 = now b" by (rule core_eqD(15) [OF c1])
  have rest: "post (deref cfgs a s2 (\<lambda>cc. if int inst < cc_instances cc \<and> cc_status cc = STATUS_RUNNING
          then bindO (spawn E a inst s2) (\<lambda>(ok, s). Live s) else Live s2))
      (\<lambda>s'. srv_inv s' \<and> front s' = front b \<and> reap_effect E p pr ret b s' \<and> acts_grow b s') (\<lambda>h t. h = Aborted)"
    if Q: "srv_inv s2" "front s2 = front b" "procs s2 = procs b" "cfgs s2 = (cfgs b)(a \<mapsto> ?v)"
      "kids s2 = kids b \<or> cc_status ?v = STATUS_BROKEN" "acts_grow b s2" for s2
  proof (cases "cc_status ?v = STATUS_RUNNING")
    case False
    with Q grp cc show ?thesis by (auto simp: deref_def reap_effect_def)
  next
    case True
    then have k: "kids s2 = kids b" using Q(5) by simp
    have a2: "cfgs s2 a = Some ?v" using Q by simp
    have f2: "slot_free ?v inst" using free by (simp add: slot_free_def)
    have "post (spawn E a inst s2) (\<lambda>x. case x of (ok, s') \<Rightarrow>
        srv_inv s' \<and> front s' = front b \<and> reap_effect E p pr ret b s' \<and> acts_grow b s') (\<lambda>h t. h = Aborted)"
    proof (rule post_mono [OF spawn_post [OF E Q(1) a2 f2]])
      fix x
      assume x: "case x of (ok, s') \<Rightarrow> srv_inv s' \<and> front s' = front s2 \<and>
        spawn_effect a ?v inst s2 ok s' \<and> (ok \<or> os_refuses E (kids s2) \<and> failed s') \<and> acts_grow s2 s'"
      obtain ok s' where x': "x = (ok, s')" by (cases x)
      have "reap_effect E p pr ret b s'"
        unfolding reap_effect_def grp option.case
        by (rule exI [of _ cc], rule exI [of _ s2], rule exI [of _ ok])
          (use x x' Q True cc k in simp)
      moreover have "acts_grow b s'" by (rule acts_grow_trans [OF Q(6)]) (use x x' in simp)
      ultimately show "case x of (ok, s') \<Rightarrow> srv_inv s' \<and> front s' = front b \<and>
        reap_effect E p pr ret b s' \<and> acts_grow b s'"
        using x x' Q by simp
    qed simp
    with True a2 in0 cc0 show ?thesis
      by (simp add: deref_def post_bind case_prod_unfold)
  qed
  have "post (note_exit E a ret ?s1) (\<lambda>s2. post (deref cfgs a s2
        (\<lambda>cc. if int inst < cc_instances cc \<and> cc_status cc = STATUS_RUNNING
          then bindO (spawn E a inst s2) (\<lambda>(ok, s). Live s) else Live s2))
      (\<lambda>s'. srv_inv s' \<and> front s' = front b \<and> reap_effect E p pr ret b s' \<and> acts_grow b s') (\<lambda>h t. h = Aborted))
      (\<lambda>h t. h = Aborted)"
  proof (rule post_mono [OF note_exit_post [OF E i1 a1]])
    fix s2
    assume q: "srv_inv s2 \<and> front s2 = front ?s1 \<and> procs s2 = procs ?s1 \<and>
      cfgs s2 = (cfgs ?s1)(a \<mapsto> exit_verdict (now ?s1) ret cc) \<and>
      (kids s2 = kids ?s1 \<or> cc_status (exit_verdict (now ?s1) ret cc) = STATUS_BROKEN) \<and>
      acts_grow ?s1 s2"
    have v: "(cfgs b)(a \<mapsto> v) = (cfgs s)(a \<mapsto> v)" for v
      unfolding core_eqD(1) [OF c1, symmetric] by simp
    have g: "acts_grow b s2"
      by (rule acts_grow_trans [of b ?s1]) (use q grow in simp_all)
    show "post (deref cfgs a s2
        (\<lambda>cc. if int inst < cc_instances cc \<and> cc_status cc = STATUS_RUNNING
          then bindO (spawn E a inst s2) (\<lambda>(ok, s). Live s) else Live s2))
      (\<lambda>s'. srv_inv s' \<and> front s' = front b \<and> reap_effect E p pr ret b s' \<and> acts_grow b s') (\<lambda>h t. h = Aborted)"
      by (rule rest) (use q n1 g v front_core [OF c1] core_eqD(4,13) [OF c1] in simp_all)
  qed simp
  with a0 in0 il0 cc0 show ?thesis
    by (simp add: reap_group_def deref_def set_child_def post_bind)
qed

text \<open>
  The whole of one turn, from the state in which the child was a zombie. \<open>reaped\<close> says what
  happened; the rest of the postcondition is the invariant and the frame.
\<close>

definition reaped :: "env \<Rightarrow> addr \<Rightarrow> process \<Rightarrow> int \<Rightarrow> (int \<times> int) list \<Rightarrow> server \<Rightarrow> server \<Rightarrow> bool" where
  "reaped E p pr ret zs s s' \<longleftrightarrow>
     front s' = front (s\<lparr>zombies := zs\<rparr>) \<and> reap_effect E p pr ret (buried p pr zs s) s' \<and>
     acts_grow s s'"

lemma reap_one_post:
  assumes E: "fork_fresh E" and s: "srv_inv s" and p: "procs s p = Some pr"
    and z: "zombies s = (p_pid pr, ret) # zs"
  shows "post (reap_one E p (p_pid pr) ret (s\<lparr>zombies := zs, kids := remove1 (p_pid pr) (kids s)\<rparr>))
    (\<lambda>s'. srv_inv s' \<and> reaped E p pr ret zs s s') (\<lambda>h t. h = Aborted)"
    (is "post (reap_one E p _ ret ?s0) ?Q ?D")
proof -
  let ?b = "buried p pr zs s"
  have b: "srv_inv ?b" by (rule inv_buried [OF s p z])
  have fb: "front ?b = front (s\<lparr>zombies := zs\<rparr>)"
    by (simp add: buried_def front_def core_def)
  have rest: "post (bindO (process_remove p s1) (\<lambda>s.
      let s = release_process p pr s
      in case p_child_config pr of
           None \<Rightarrow> Live s
         | Some a \<Rightarrow> reap_group E a (p_instance pr) ret s)) ?Q ?D" if f: "full s1 = full ?s0" for s1
  proof -
    note c = full_core [OF f]
    let ?s2 = "s1\<lparr>process_hash := uvhash_remove (process_hash s1) (word_of_int (p_pid pr))\<rparr>"
    let ?s3 = "release_process p pr ?s2"
    have p1: "procs s1 p = Some pr" using core_eqD(4) [OF c] p by simp
    have c3: "core ?s3 = core (?b\<lparr>cfgs := cfgs s\<rparr>)"
    proof -
      have "core ?s3 = (core s1)\<lparr>process_hash := uvhash_remove (process_hash s1) (word_of_int (p_pid pr)),
          procs := (procs s1)(p := None)\<rparr>"
        by (simp add: release_process_def core_def emit_def Let_def)
      also have "\<dots> = core (?b\<lparr>cfgs := cfgs s\<rparr>)"
        unfolding c using core_eqD(4,5) [OF c] by (simp add: buried_def core_def)
      finally show ?thesis .
    qed
    have "acts s1 = acts s" using full_acts [OF f] by (simp add: acts_def)
    moreover have "acts ?s3 = acts s1 @ (if p_child_sockbuf pr then [EvClose (p_child_sock pr)] else [])"
      by (simp add: release_process_def acts_def emit_def Let_def)
    ultimately have g3: "acts_grow s ?s3" by (simp add: acts_grow_def)
    have gb: "acts_grow ?b t = acts_grow s t" for t
      by (simp add: acts_grow_def acts_def buried_def)
    show ?thesis
    proof (cases "p_child_config pr")
      case None
      then have "?b\<lparr>cfgs := cfgs s\<rparr> = ?b" by (simp add: buried_def clear_slot_def)
      then have c4: "core ?s3 = core ?b" using c3 by simp
      have "?Q ?s3"
        using b core_eqD(1,4) [OF c4] front_core [OF c4] fb None g3
        by (simp add: inv_core [OF c4] reaped_def reap_effect_def)
      with None p1 show ?thesis by (simp add: process_remove_def deref_def Let_def)
    next
      case (Some a)
      obtain cc where cc: "cfgs s a = Some cc" "p_instance pr < length (cc_childs cc)"
        "cc_childs cc ! p_instance pr = Proc p"
        by (rule inv_proc_group [OF s p Some])
      let ?cc = "cc\<lparr>cc_childs := (cc_childs cc)[p_instance pr := Null]\<rparr>"
      have ba: "cfgs ?b = (cfgs s)(a \<mapsto> ?cc)"
        using Some cc by (simp add: buried_def clear_slot_def)
      have "?b\<lparr>cfgs := cfgs s\<rparr> = ?b\<lparr>cfgs := (cfgs ?b)(a \<mapsto> cc)\<rparr>"
        unfolding ba using fun_upd_idem [of "cfgs s" a "Some cc", OF cc(1)] by simp
      then have c4: "core ?s3 = core (?b\<lparr>cfgs := (cfgs ?b)(a \<mapsto> cc)\<rparr>)" using c3 by simp
      have "post (reap_group E a (p_instance pr) ret ?s3)
          (\<lambda>s'. srv_inv s' \<and> front s' = front ?b \<and> reap_effect E p pr ret ?b s' \<and>
            acts_grow ?b s') ?D"
        by (rule reap_group_post [OF E b _ _ Some refl c4])
          (use ba cc g3 gb in \<open>simp_all add: slot_free_def\<close>)
      then have "post (reap_group E a (p_instance pr) ret ?s3) ?Q ?D"
        by (rule post_mono) (simp_all add: reaped_def fb gb)
      with Some p1 show ?thesis by (simp add: process_remove_def deref_def Let_def)
    qed
  qed
  have live: "subs_live ?s0"
    using inv_subs_live [OF s] by (simp add: subs_live_def conn_live_def)
  have log: "post (bindO (slog E m ?s0) (\<lambda>s1. bindO (process_remove p s1) (\<lambda>s.
      let s = release_process p pr s
      in case p_child_config pr of
           None \<Rightarrow> Live s
         | Some a \<Rightarrow> reap_group E a (p_instance pr) ret s))) ?Q ?D" for m
    unfolding post_bind [of "slog E m ?s0"] by (rule slog_live_full [OF live]) (rule rest)
  have p0: "procs ?s0 p = Some pr" using p by simp
  show ?thesis
  proof (cases "p_child_config pr")
    case None
    show ?thesis
      using log unfolding reap_one_def deref_def p0 None Let_def option.case .
  next
    case (Some a)
    obtain cc where cc: "cfgs s a = Some cc"
      by (rule inv_proc_group [OF s p Some])
    then have c0: "cfgs ?s0 a = Some cc" by simp
    show ?thesis
      using log unfolding reap_one_def deref_def p0 Some Let_def option.case c0 .
  qed
qed

section \<open>The timer and the pipe callbacks\<close>

lemma inv_set_proc:
  assumes s: "srv_inv s" and p: "procs s p = Some pr"
    and same: "p_pid pr' = p_pid pr" "p_child_config pr' = p_child_config pr"
      "p_instance pr' = p_instance pr"
  shows "srv_inv (set_proc p pr' s)"
proof -
  have "slots_ok (cfgs s) ((procs s)(p \<mapsto> pr'))"
  proof (rule slots_okI)
    fix a cc i q
    assume c: "cfgs s a = Some cc" "i < length (cc_childs cc)" "cc_childs cc ! i = Proc q"
    obtain r where "procs s q = Some r" "p_child_config r = Some a" "p_instance r = i"
      by (rule inv_slot_proc [OF s c])
    then show "\<exists>r. ((procs s)(p \<mapsto> pr')) q = Some r \<and> p_child_config r = Some a \<and> p_instance r = i"
      using p same by auto
  next
    fix q r a
    assume r: "((procs s)(p \<mapsto> pr')) q = Some r" "p_child_config r = Some a"
    then obtain r0 where r0: "procs s q = Some r0" "p_child_config r0 = Some a"
      "p_instance r0 = p_instance r"
      using p same by (auto split: if_splits)
    show "\<exists>cc. cfgs s a = Some cc \<and> p_instance r < length (cc_childs cc) \<and>
        cc_childs cc ! p_instance r = Proc q"
      using inv_proc_group [OF s r0(1,2)] r0(3) by metis
  qed
  moreover have "pid_entries ((procs s)(p \<mapsto> pr')) = pid_entries (procs s)"
  proof (rule set_eqI)
    fix e
    show "e \<in> pid_entries ((procs s)(p \<mapsto> pr')) \<longleftrightarrow> e \<in> pid_entries (procs s)"
      using p same(1) by (cases e) (auto simp: in_pid_entries)
  qed
  ultimately show ?thesis
    using s p same
    by (auto simp: srv_inv_def set_proc_def registry_ok_def sizes_ok_def table_ok_def
        kids_ok_def addrs_ok_def conns_ok_def subs_live_def conn_live_def)
qed

text \<open>
  The heartbeat: what it signals or runs. A process over its age gets the kill signal of its
  group, and on the next heartbeat \<open>SIGKILL\<close>; otherwise the group's heartbeat command runs.
\<close>

definition over_age :: "int \<Rightarrow> process \<Rightarrow> bool" where
  "over_age t pr \<longleftrightarrow> p_age pr > 0 \<and> t - p_start pr > p_age pr"

definition term_signal :: "server \<Rightarrow> process \<Rightarrow> int" where
  "term_signal s pr =
     (case p_child_config pr of None \<Rightarrow> SIGTERM | Some a \<Rightarrow> cc_killsig (the (cfgs s a)))"

definition heartbeat_acts :: "server \<Rightarrow> process \<Rightarrow> effect list \<Rightarrow> bool" where
  "heartbeat_acts s pr as \<longleftrightarrow>
     (if over_age (now s) pr
      then as = [EvKill (p_pid pr) (if p_terminated pr then SIGKILL else term_signal s pr)]
      else as = [] \<or> as = [EvFail ''fork''] \<or>
        (\<exists>a cc hb k. p_child_config pr = Some a \<and> cfgs s a = Some cc \<and> cc_heartbeat cc = Some hb \<and>
           as = [EvExec k [hb, fmt_s (cc_name cc), snprintf_buf 8 (show_int (p_pid pr)),
                  snprintf_buf 8 (show_nat (p_instance pr))]]))"

definition heartbeat_effect :: "server \<Rightarrow> addr \<Rightarrow> process \<Rightarrow> server \<Rightarrow> bool" where
  "heartbeat_effect s p pr s' \<longleftrightarrow>
     cfgs s' = cfgs s \<and>
     procs s' = (procs s)(p \<mapsto> pr\<lparr>p_heartbeat_timer := True,
                                 p_terminated := (p_terminated pr \<or> over_age (now s) pr)\<rparr>) \<and>
     (\<exists>as. acts s' = acts s @ as \<and> heartbeat_acts s pr as)"

lemma terminated_idem:
  "p_terminated pr \<Longrightarrow> pr\<lparr>p_heartbeat_timer := b, p_terminated := True\<rparr> = pr\<lparr>p_heartbeat_timer := b\<rparr>"
  by (cases pr) simp

lemma sockbuf_idem: "\<not> p_child_sockbuf pr \<Longrightarrow> pr\<lparr>p_child_sockbuf := False\<rparr> = pr"
  by (cases pr) simp

lemma heartbeat_cb_post:
  assumes E: "fork_fresh E" and s: "srv_inv s" and p: "procs s p = Some pr"
  shows "post (heartbeat_cb E p s)
    (\<lambda>s'. srv_inv s' \<and> front s' = front s \<and> heartbeat_effect s p pr s') (\<lambda>h t. h = Aborted)"
    (is "post _ ?Q ?D")
proof -
  let ?pr = "pr\<lparr>p_heartbeat_timer := True\<rparr>"
  let ?s1 = "set_proc p ?pr s"
  have i1: "srv_inv ?s1" by (rule inv_set_proc [OF s p]) simp_all
  have p1: "procs ?s1 p = Some ?pr" by simp
  have run: "heartbeat_cb E p s = (let uptime = now s - p_start pr in
      if p_age pr > 0 \<and> uptime > p_age pr then
        if p_terminated pr then
          bindO (slog E (''pid '' @ show_int (p_pid pr) @ '' exceeded uptime. Sending KILL''
                   @ [newline]) ?s1) (\<lambda>s. Live (emit (EvKill (p_pid pr) SIGKILL) s))
        else
          bindO (slog E (''pid '' @ show_int (p_pid pr) @ '' exceeded uptime. Sending kill signal''
                   @ [newline]) ?s1) (\<lambda>s.
          case p_child_config pr of
            None \<Rightarrow> Live (set_proc p (?pr\<lparr>p_terminated := True\<rparr>) (emit (EvKill (p_pid pr) SIGTERM) s))
          | Some a \<Rightarrow> deref cfgs a s (\<lambda>cc.
              Live (set_proc p (?pr\<lparr>p_terminated := True\<rparr>)
                     (emit (EvKill (p_pid pr) (cc_killsig cc)) s))))
      else case p_child_config pr of
        None \<Rightarrow> Live ?s1
      | Some a \<Rightarrow> deref cfgs a ?s1 (\<lambda>cc.
          case cc_heartbeat cc of
            None \<Rightarrow> Live ?s1
          | Some hb \<Rightarrow>
              let pid_str = snprintf_buf 8 (show_int (p_pid pr));
                  inst_str = snprintf_buf 8 (show_nat (p_instance pr));
                  (pid, s) = do_fork E ?s1
              in if pid = -1
                 then slog E (''heartbeat spawn error in group '' @ fmt_s (cc_name cc) @ ''.''
                        @ [newline]) s
                 else Live (emit (EvExec pid [hb, fmt_s (cc_name cc), pid_str, inst_str]) s)))"
    using p by (simp add: heartbeat_cb_def schedule_heartbeat_def deref_def [of procs] Let_def
        cong: option.case_cong)
  show ?thesis
  proof (cases "over_age (now s) pr")
    case old: True
    then have age: "p_age pr > 0 \<and> now s - p_start pr > p_age pr" by (simp add: over_age_def)
    show ?thesis
    proof (cases "p_terminated pr")
      case True
      have "?Q (emit (EvKill (p_pid pr) SIGKILL) s2)" if f: "full s2 = full ?s1" for s2
        using i1 old True core_eqD(1,4) [OF full_core [OF f]] full_acts [OF f]
          front_core [OF full_core [OF f]] inv_core [OF full_core [OF f]]
        by (simp add: heartbeat_effect_def heartbeat_acts_def terminated_idem)
      with True age show ?thesis
        by (simp add: run post_bind Let_def slog_full [OF i1])
    next
      case False
      let ?t = "\<lambda>sg s2. set_proc p (?pr\<lparr>p_terminated := True\<rparr>) (emit (EvKill (p_pid pr) sg) s2)"
      have Q: "?Q (?t (term_signal s pr) s2)" if f: "full s2 = full ?s1" for s2
      proof -
        have p2: "procs s2 = procs ?s1" "cfgs s2 = cfgs s"
          using core_eqD(1,4) [OF full_core [OF f]] by simp_all
        have "srv_inv (?t (term_signal s pr) s2)"
          by (rule inv_set_proc [where pr = ?pr])
            (use i1 p1 p2 inv_core [OF full_core [OF f]] in simp_all)
        with False old p2 full_acts [OF f] front_core [OF full_core [OF f]] show ?thesis
          by (simp add: heartbeat_effect_def heartbeat_acts_def)
      qed
      have "post (case p_child_config pr of None \<Rightarrow> Live (?t SIGTERM s2)
          | Some a \<Rightarrow> deref cfgs a s2 (\<lambda>cc. Live (?t (cc_killsig cc) s2))) ?Q ?D"
        if f: "full s2 = full ?s1" for s2
      proof (cases "p_child_config pr")
        case None
        with Q [OF f] show ?thesis by (simp add: term_signal_def)
      next
        case (Some a)
        obtain cc where cc: "cfgs s a = Some cc"
          by (rule inv_proc_group [OF s p Some])
        then have "cfgs s2 a = Some cc" using core_eqD(1) [OF full_core [OF f]] by simp
        with Some cc Q [OF f] show ?thesis by (simp add: term_signal_def deref_def)
      qed
      with False age show ?thesis
        by (simp add: run post_bind Let_def slog_full [OF i1])
    qed
  next
    case young: False
    then have age: "\<not> (p_age pr > 0 \<and> now s - p_start pr > p_age pr)" by (simp add: over_age_def)
    have same: "heartbeat_effect s p pr s2"
      if "procs s2 = procs ?s1" "cfgs s2 = cfgs s" "acts s2 = acts s @ as" "heartbeat_acts s pr as" for s2 as
      using that young by (auto simp: heartbeat_effect_def)
    have quiet: "heartbeat_acts s pr []" "heartbeat_acts s pr [EvFail ''fork'']"
      using young by (simp_all add: heartbeat_acts_def)
    have Q1: "?Q ?s1"
      using i1 same [of ?s1 "[]"] quiet by simp
    show ?thesis
    proof (cases "p_child_config pr")
      case None
      with Q1 show ?thesis unfolding run Let_def if_not_P [OF age] by simp
    next
      case (Some a)
      obtain cc where cc: "cfgs s a = Some cc"
        by (rule inv_proc_group [OF s p Some])
      have cc1: "cfgs ?s1 a = Some cc" using cc by simp
      show ?thesis
      proof (cases "cc_heartbeat cc")
        case none: None
        with Q1 Some cc1 show ?thesis
          unfolding run Let_def if_not_P [OF age] by (simp add: deref_def)
      next
        case hb: (Some hb)
        obtain k s2 where f: "do_fork E ?s1 = (k, s2)" by fastforce
        note fk = inv_do_fork [OF E i1 f]
        have a2: "acts s2 = acts s @ (if k = -1 then [EvFail ''fork''] else [])"
          using f by (auto simp: do_fork_def Let_def acts_def [of "s\<lparr>kids := ks\<rparr>" for ks] split: if_splits)
        have p2: "procs s2 = procs ?s1" "cfgs s2 = cfgs s" "front s2 = front s" "srv_inv s2"
            using fk by simp_all
        have "post (slog E m s2) ?Q ?D" if k: "k = -1" for m
        proof (rule slog_full [OF p2(4)])
          fix s3
          assume f3: "full s3 = full s2"
          show "?Q s3"
            using same [of s3 "[EvFail ''fork'']"] quiet p2 a2 k core_eqD(1,4) [OF full_core [OF f3]]
              full_acts [OF f3] front_core [OF full_core [OF f3]] inv_core [OF full_core [OF f3]]
            by simp
        qed
        moreover have "?Q (emit (EvExec k [hb, fmt_s (cc_name cc), snprintf_buf 8 (show_int (p_pid pr)),
            snprintf_buf 8 (show_nat (p_instance pr))]) s2)" if "k \<noteq> -1"
          using that p2 a2 Some cc hb young
          by (auto intro!: same simp: heartbeat_acts_def)
        ultimately show ?thesis
          using Some cc1 hb f unfolding run Let_def if_not_P [OF age] by (simp add: deref_def)
      qed
    qed
  qed
qed

lemma child_read_cb_post:
  assumes "srv_inv s"
  shows "post (child_read_cb E input s) (\<lambda>s'. srv_inv s' \<and> full s' = full s) (\<lambda>h t. h = Aborted)"
proof -
  have "post (slog E m s) (\<lambda>s'. srv_inv s' \<and> full s' = full s) (\<lambda>h t. h = Aborted)" for m
    by (rule slog_full [OF assms]) (use assms inv_core full_core in blast)
  with assms show ?thesis by (simp add: child_read_cb_def Let_def)
qed

lemma child_error_cb_post:
  assumes s: "srv_inv s" and p: "procs s p = Some pr"
  shows "post (child_error_cb p s)
    (\<lambda>s'. srv_inv s' \<and> front s' = front s \<and> acts_grow s s' \<and> cfgs s' = cfgs s \<and>
          procs s' = (procs s)(p \<mapsto> pr\<lparr>p_child_sockbuf := False\<rparr>)) (\<lambda>h t. False)"
proof (cases "p_child_sockbuf pr")
  case True
  have "srv_inv (set_proc p (pr\<lparr>p_child_sockbuf := False\<rparr>) (emit (EvClose (p_child_sock pr)) s))"
    by (rule inv_set_proc [where pr = pr]) (use s p in simp_all)
  with True p show ?thesis
    by (simp add: child_error_cb_def deref_def)
next
  case False
  then have "(procs s)(p \<mapsto> pr\<lparr>p_child_sockbuf := False\<rparr>) = procs s"
    using p unfolding sockbuf_idem [OF False] by auto
  with False p s show ?thesis by (simp add: child_error_cb_def deref_def)
qed

end
