(* ===== verification/Uptime.thy ===== *)
theory Uptime
  imports Supervise
begin

text \<open>
  What the server is for: a group that is marked running has a process in every slot. A
  refused \<open>fork\<close> or \<open>socketpair\<close> leaves a hole, so the invariant \<open>sup_inv\<close> holds until
  the first system call on record has failed. The same invariant says that no slot is
  uninitialised, which a failed spawn in \<open>c_updt\<close> breaks. \<open>srv_ok\<close> joins it to the heap
  invariant, and \<open>dead_ok\<close> is how the server may end.
\<close>

definition slots_up :: "child_config \<Rightarrow> bool" where
  "slots_up cc \<longleftrightarrow>
     (\<forall>sl \<in> set (cc_childs cc). sl \<noteq> Uninit \<and> (cc_status cc = STATUS_RUNNING \<longrightarrow> sl \<noteq> Null))"

definition sup_inv :: "server \<Rightarrow> bool" where
  "sup_inv s \<longleftrightarrow> failed s \<or> (\<forall>cc \<in> ran (cfgs s). slots_up cc)"

definition srv_ok :: "server \<Rightarrow> bool" where
  "srv_ok s \<longleftrightarrow> srv_inv s \<and> sup_inv s"

definition dead_ok :: "halt \<Rightarrow> server \<Rightarrow> bool" where
  "dead_ok h t \<longleftrightarrow> h = Aborted \<or> (\<exists>n. h = Exited n) \<or> h = Undefined \<and> failed t"

lemma dead_ok_simps [simp]: "dead_ok Aborted t" "dead_ok (Exited n) t"
  "dead_ok Undefined t \<longleftrightarrow> failed t" "\<not> dead_ok Hang t"
  by (simp_all add: dead_ok_def)

lemma sup_invI_failed: "failed s \<Longrightarrow> sup_inv s"
  by (simp add: sup_inv_def)

lemma sup_inv_upd:
  assumes "sup_inv s" and "acts_grow s s'" and "cfgs s' = (cfgs s)(a \<mapsto> cc)" and "slots_up cc"
  shows "sup_inv s'"
proof (cases "failed s")
  case True
  then show ?thesis using acts_grow_failed [OF assms(2)] by (simp add: sup_inv_def)
next
  case False
  with assms have "\<forall>cc \<in> ran (cfgs s). slots_up cc" by (simp add: sup_inv_def)
  then have "slots_up c" if "c \<in> ran ((cfgs s)(a \<mapsto> cc))" for c
    using that assms(4) by (auto simp: ran_def split: if_splits)
  then show ?thesis by (simp add: sup_inv_def assms(3))
qed

lemma sup_inv_same:
  assumes "sup_inv s" and "acts_grow s s'" and "cfgs s' = cfgs s"
  shows "sup_inv s'"
  using assms acts_grow_failed [OF assms(2)] by (auto simp: sup_inv_def)

lemma sup_inv_full:
  assumes "full s' = full s"
  shows "sup_inv s' = sup_inv s"
  using failed_full [OF assms] core_eqD(1) [OF full_core [OF assms]] by (simp add: sup_inv_def)

lemma srv_ok_full:
  assumes "full s' = full s"
  shows "srv_ok s' = srv_ok s"
  using sup_inv_full [OF assms] inv_core [OF full_core [OF assms]] by (simp add: srv_ok_def)

lemma sup_slots: "sup_inv s \<Longrightarrow> \<not> failed s \<Longrightarrow> cfgs s a = Some cc \<Longrightarrow> slots_up cc"
  by (auto simp: sup_inv_def intro: ranI)

lemma exit_verdict_status:
  "cc_status (exit_verdict t ret cc) = cc_status cc \<or> cc_status (exit_verdict t ret cc) = STATUS_BROKEN"
  by (simp add: exit_verdict_def count_error_def Let_def)

text \<open>A slot that is refilled keeps the group up.\<close>

lemma slots_up_refill:
  assumes "slots_up cc0" and "cc_status v = STATUS_RUNNING \<longrightarrow> cc_status cc0 = STATUS_RUNNING"
    and "cc_childs v = (cc_childs cc0)[i := x]" and "x \<noteq> Uninit"
    and "x \<noteq> Null \<or> cc_status v \<noteq> STATUS_RUNNING"
  shows "slots_up v"
  unfolding slots_up_def
proof
  fix sl
  assume "sl \<in> set (cc_childs v)"
  then have "sl = x \<or> sl \<in> set (cc_childs cc0)"
    using set_update_subset_insert [of "cc_childs cc0" i x] assms(3) by auto
  then show "sl \<noteq> Uninit \<and> (cc_status v = STATUS_RUNNING \<longrightarrow> sl \<noteq> Null)"
    using assms unfolding slots_up_def by blast
qed

text \<open>A reap seen from the group of the process.\<close>

lemma reap_effect_group:
  fixes cc0 ret and s :: server and pr
  defines "v \<equiv> exit_verdict (now s) ret (cc0\<lparr>cc_childs := (cc_childs cc0)[p_instance pr := Null]\<rparr>)"
  assumes eff: "reap_effect E p pr ret (buried p pr zs s) s'"
    and a: "p_child_config pr = Some a" and cc0: "cfgs s a = Some cc0"
  obtains t ok where "cfgs t = (cfgs s)(a \<mapsto> v)"
    "if cc_status v = STATUS_RUNNING
     then spawn_effect a v (p_instance pr) t ok s' \<and> kids t = remove1 (p_pid pr) (kids s) \<and>
       (ok \<or> os_refuses E (kids t) \<and> failed s')
     else cfgs s' = cfgs t"
proof -
  let ?cc = "cc0\<lparr>cc_childs := (cc_childs cc0)[p_instance pr := Null]\<rparr>"
  have b: "cfgs (buried p pr zs s) = (cfgs s)(a \<mapsto> ?cc)" "now (buried p pr zs s) = now s"
      "kids (buried p pr zs s) = remove1 (p_pid pr) (kids s)"
    using a cc0 by (simp_all add: buried_def clear_slot_def)
  obtain cc t ok where cc: "((cfgs s)(a \<mapsto> ?cc)) a = Some cc"
    and t0: "cfgs t = ((cfgs s)(a \<mapsto> ?cc))(a \<mapsto> exit_verdict (now s) ret cc)"
    and e0: "if cc_status (exit_verdict (now s) ret cc) = STATUS_RUNNING
      then spawn_effect a (exit_verdict (now s) ret cc) (p_instance pr) t ok s' \<and>
           kids t = remove1 (p_pid pr) (kids s) \<and>
           (ok \<or> os_refuses E (remove1 (p_pid pr) (kids s)) \<and> failed s')
      else procs s' = procs t \<and> cfgs s' = cfgs t"
    using eff unfolding reap_effect_def b a option.case by blast
  then have "cc = ?cc" by simp
  with t0 e0 show thesis by (intro that [of t ok]) (auto simp: v_def split: if_splits)
qed

lemma reap_effect_sup:
  assumes s: "srv_ok s" and p: "procs s p = Some pr"
    and eff: "reap_effect E p pr ret (buried p pr zs s) s'" and grow: "acts_grow s s'"
  shows "sup_inv s'"
proof (cases "failed s")
  case True
  then show ?thesis using acts_grow_failed [OF grow] by (simp add: sup_inv_def)
next
  case False
  have sup: "sup_inv s" and inv: "srv_inv s" using s by (simp_all add: srv_ok_def)
  show ?thesis
  proof (cases "p_child_config pr")
    case None
    then have "cfgs s' = cfgs s"
      using eff by (simp add: reap_effect_def buried_def clear_slot_def)
    then show ?thesis by (rule sup_inv_same [OF sup grow])
  next
    case (Some a)
    obtain cc0 where cc0: "cfgs s a = Some cc0" by (rule inv_proc_group [OF inv p Some])
    let ?cc = "cc0\<lparr>cc_childs := (cc_childs cc0)[p_instance pr := Null]\<rparr>"
    let ?v = "exit_verdict (now s) ret ?cc"
    obtain t ok where t: "cfgs t = (cfgs s)(a \<mapsto> ?v)"
      and e: "if cc_status ?v = STATUS_RUNNING
          then spawn_effect a ?v (p_instance pr) t ok s' \<and> kids t = remove1 (p_pid pr) (kids s) \<and>
            (ok \<or> os_refuses E (kids t) \<and> failed s')
          else cfgs s' = cfgs t"
      by (rule reap_effect_group [OF eff Some cc0])
    have up: "slots_up cc0" by (rule sup_slots [OF sup False cc0])
    have st: "cc_status ?v = STATUS_RUNNING \<longrightarrow> cc_status cc0 = STATUS_RUNNING"
      using exit_verdict_status [of "now s" ret ?cc] by auto
    show ?thesis
    proof (cases "cc_status ?v = STATUS_RUNNING")
      case False
      with e t have "cfgs s' = (cfgs s)(a \<mapsto> ?v)" by simp
      moreover have "slots_up ?v"
        by (rule slots_up_refill [OF up st, where x = Null and i = "p_instance pr"]) (use False in simp_all)
      ultimately show ?thesis by (rule sup_inv_upd [OF sup grow])
    next
      case True
      show ?thesis
      proof (cases ok)
        case True
        then obtain q where q: "cfgs s' = (cfgs t)(a \<mapsto>
            ?v\<lparr>cc_childs := (cc_childs ?v)[p_instance pr := Proc q]\<rparr>)"
          using e \<open>cc_status ?v = STATUS_RUNNING\<close> by (auto simp: spawn_effect_def)
        have "slots_up (?v\<lparr>cc_childs := (cc_childs ?v)[p_instance pr := Proc q]\<rparr>)"
          by (rule slots_up_refill [OF up, where x = "Proc q" and i = "p_instance pr"])
            (use st in simp_all)
        then show ?thesis by (intro sup_inv_upd [OF sup grow]) (simp_all add: q t)
      next
        case False
        with e True show ?thesis by (simp add: sup_inv_def)
      qed
    qed
  qed
qed

section \<open>The callback for SIGCHLD\<close>

text \<open>
  A run of the callback: reap until nothing is left, or until a child turns up that is not
  in the table.
\<close>

inductive reap_chain :: "env \<Rightarrow> server \<Rightarrow> server \<Rightarrow> bool" for E where
  rc_done: "zombies s = [] \<Longrightarrow> reap_chain E s s"
| rc_stop: "zombies s = (pid, ret) # zs \<Longrightarrow> (\<And>p pr. procs s p = Some pr \<Longrightarrow> p_pid pr \<noteq> pid) \<Longrightarrow>
    reap_chain E s (s\<lparr>zombies := zs, kids := remove1 pid (kids s)\<rparr>)"
| rc_step: "zombies s = (p_pid pr, ret) # zs \<Longrightarrow> procs s p = Some pr \<Longrightarrow>
    reaped E p pr ret zs s t \<Longrightarrow> reap_chain E t s' \<Longrightarrow> reap_chain E s s'"

lemma sigchld_loop_post:
  assumes E: "fork_fresh E"
  shows "srv_ok s \<Longrightarrow> zombies s = zs \<Longrightarrow>
    post (sigchld_loop E zs s) (\<lambda>s'. srv_ok s' \<and> reap_chain E s s') (\<lambda>h t. h = Aborted)"
proof (induction zs arbitrary: s)
  case Nil
  then show ?case by (simp add: rc_done)
next
  case (Cons z zs)
  obtain pid ret where z: "z = (pid, ret)" by (cases z)
  let ?s0 = "s\<lparr>zombies := zs, kids := remove1 pid (kids s)\<rparr>"
  have inv: "srv_inv s" and sup: "sup_inv s" using Cons.prems by (simp_all add: srv_ok_def)
  have zs: "zombies s = (pid, ret) # zs" using Cons.prems z by simp
  have "pid \<in> set (kids s)" "\<forall>k \<in> set (kids s). 0 < k \<and> k < 2 ^ 31"
    using inv zs unfolding srv_inv_def kids_ok_def by auto
  then have range: "0 < pid" "pid < 2 ^ 31" by blast+
  note find = inv_find_by_pid [OF inv range]
  have same: "process_find_by_pid pid ?s0 = process_find_by_pid pid s"
    by (simp add: process_find_by_pid_def)
  show ?case
  proof (cases "process_find_by_pid pid s")
    case None
    then have none: "\<And>p pr. procs s p = Some pr \<Longrightarrow> p_pid pr \<noteq> pid" using find by auto
    have "srv_inv ?s0" by (rule inv_unknown_child [OF inv zs none])
    moreover have "sup_inv ?s0"
      by (rule sup_inv_same [OF sup]) (simp_all add: acts_grow_def acts_def)
    moreover have "reap_chain E s ?s0" by (rule rc_stop [OF zs none])
    ultimately show ?thesis using None same z by (simp add: Let_def srv_ok_def)
  next
    case (Some p)
    then obtain pr where p: "procs s p = Some pr" "p_pid pr = pid" using find by blast
    have "post (reap_one E p pid ret ?s0) (\<lambda>t. post (sigchld_loop E zs t)
        (\<lambda>s'. srv_ok s' \<and> reap_chain E s s') (\<lambda>h t. h = Aborted)) (\<lambda>h t. h = Aborted)"
    proof (rule post_mono [OF reap_one_post [OF E inv p(1), unfolded p(2), OF zs]])
      fix t
      assume t: "srv_inv t \<and> reaped E p pr ret zs s t"
      then have "zombies t = zs"
        using front_eqD(9) [of t "s\<lparr>zombies := zs\<rparr>"] by (simp add: reaped_def)
      moreover have "srv_ok t"
        using t reap_effect_sup [OF Cons.prems(1) p(1), of E ret zs t]
        by (simp add: srv_ok_def reaped_def)
      ultimately have "post (sigchld_loop E zs t) (\<lambda>s'. srv_ok s' \<and> reap_chain E t s') (\<lambda>h t. h = Aborted)"
        by (intro Cons.IH) simp_all
      then show "post (sigchld_loop E zs t) (\<lambda>s'. srv_ok s' \<and> reap_chain E s s') (\<lambda>h t. h = Aborted)"
        by (rule post_mono) (use t zs p in \<open>auto intro: rc_step\<close>)
    qed simp
    then show ?thesis using Some same z by (simp add: Let_def post_bind)
  qed
qed

lemma sigchld_cb_post:
  assumes "fork_fresh E" and "srv_ok s"
  shows "post (sigchld_cb E s) (\<lambda>s'. srv_ok s' \<and> reap_chain E s s') (\<lambda>h t. h = Aborted)"
  unfolding sigchld_cb_def by (rule sigchld_loop_post [OF assms refl])

lemma reap_chain_grow: "reap_chain E s s' \<Longrightarrow> acts_grow s s'"
  by (induction rule: reap_chain.induct)
    (auto simp: reaped_def acts_grow_def acts_def)

lemma reap_chain_front:
  "reap_chain E s s' \<Longrightarrow> \<exists>zs. front s' = front (s\<lparr>zombies := zs\<rparr>)"
proof (induction rule: reap_chain.induct)
  case (rc_done s)
  have "front s = front (s\<lparr>zombies := zombies s\<rparr>)" by simp
  then show ?case by blast
next
  case (rc_stop s pid ret zs)
  have "front (s\<lparr>zombies := zs, kids := remove1 pid (kids s)\<rparr>) = front (s\<lparr>zombies := zs\<rparr>)"
    by (simp add: front_def core_def)
  then show ?case by blast
next
  case (rc_step s pr ret zs p t s')
  then obtain zs' where "front s' = front (t\<lparr>zombies := zs'\<rparr>)" by blast
  also have "\<dots> = (front t)\<lparr>zombies := zs'\<rparr>" by (simp add: front_def core_def)
  also have "\<dots> = (front (s\<lparr>zombies := zs\<rparr>))\<lparr>zombies := zs'\<rparr>"
    using rc_step(3) by (simp add: reaped_def)
  also have "\<dots> = front (s\<lparr>zombies := zs'\<rparr>)" by (simp add: front_def core_def)
  finally show ?case by blast
qed

end
