(* ===== verification/Commands.thy ===== *)
theory Commands
  imports Uptime
begin

text \<open>
  The command handlers of cmd_server.c, except \<open>c_updt\<close> (theory Update) and \<open>c_read\<close>
  (theory ReadLog). A handler gets the connection and the payload as a C string and returns
  the C function's result, on which \<open>run_server_command\<close> decides whether to drop the client.
\<close>

section \<open>Reading a request\<close>

definition reply :: "env \<Rightarrow> addr \<Rightarrow> bool \<Rightarrow> string \<Rightarrow> bool \<Rightarrow> server \<Rightarrow> (bool \<times> server) run" where
  "reply E con code msg cr s = bindO (send_status_msg E con code msg s) (\<lambda>s. Live (cr, s))"

definition answer :: "env \<Rightarrow> addr \<Rightarrow> json \<Rightarrow> server \<Rightarrow> (bool \<times> server) run" where
  "answer E con obj s = bindO (send_message E con (to_json_string E obj) s) (\<lambda>(ok, s). Live (True, s))"

text \<open>The first checks of every handler with an argument: the payload is a JSON object.\<close>

definition with_object ::
    "env \<Rightarrow> addr \<Rightarrow> string \<Rightarrow> server \<Rightarrow> (json \<Rightarrow> (bool \<times> server) run) \<Rightarrow> (bool \<times> server) run" where
  "with_object E con buf s f =
     (case tokener_parse E buf of
        None \<Rightarrow> reply E con False ''failure'' False s
      | Some obj \<Rightarrow>
          if \<not> json_object_is_type obj json_type_object
          then reply E con False ''failure'' False s else f obj)"

text \<open>The member \<open>name\<close>; \<open>cr\<close> is what the handler returns when it is missing.\<close>

definition with_name ::
    "env \<Rightarrow> addr \<Rightarrow> bool \<Rightarrow> json \<Rightarrow> server \<Rightarrow> (string \<Rightarrow> (bool \<times> server) run) \<Rightarrow> (bool \<times> server) run" where
  "with_name E con cr obj s f =
     (case json_object_object_get obj ''name'' of
        None \<Rightarrow> reply E con False ''failure'' cr s
      | Some m \<Rightarrow>
          if \<not> json_object_is_type m json_type_string
          then reply E con False ''failure'' cr s else f (json_object_get_string m))"

section \<open>list, get, helo\<close>

primrec list_names :: "addr list \<Rightarrow> server \<Rightarrow> json list run" where
  "list_names [] s = Live []"
| "list_names (a # as) s =
     deref cfgs a s (\<lambda>i.
       case cc_name i of
         None \<Rightarrow> Dead Undefined s
       | Some n \<Rightarrow> bindO (list_names as s) (\<lambda>ps. Live (JString n # ps)))"

definition c_list :: "env \<Rightarrow> addr \<Rightarrow> string \<Rightarrow> server \<Rightarrow> (bool \<times> server) run" where
  "c_list E con buf s =
     bindO (list_names (child_config_list s) s) (\<lambda>obj. answer E con (JArray obj) s)"

definition c_getc :: "env \<Rightarrow> addr \<Rightarrow> string \<Rightarrow> server \<Rightarrow> (bool \<times> server) run" where
  "c_getc E con buf s =
     with_object E con buf s (\<lambda>obj.
     with_name E con False obj s (\<lambda>n.
       case child_config_find_by_name n s of
         None \<Rightarrow> reply E con False ''name not found'' True s
       | Some a \<Rightarrow> deref cfgs a s (\<lambda>cc. answer E con (child_config_json cc) s)))"

definition c_helo :: "env \<Rightarrow> addr \<Rightarrow> string \<Rightarrow> server \<Rightarrow> (bool \<times> server) run" where
  "c_helo E con buf s =
     answer E con (JObject [(''code'', JBool True), (''msg'', JString ''ok''),
                            (''version'', JString (uv_version E))]) s"

section \<open>dump\<close>

definition DUMP_PATH :: "int \<Rightarrow> int \<Rightarrow> string \<Rightarrow> string" where
  "DUMP_PATH cnt uid t = ''uberdump_'' @ show_int cnt @ ''_'' @ show_int uid @ ''_'' @ t"

abbreviation (input) PATH_MAX :: nat where "PATH_MAX \<equiv> 4096"

text \<open>One \<open>fprintf\<close>: the text written so far, and whether the call succeeded.\<close>

definition fprintf :: "env \<Rightarrow> string \<Rightarrow> string \<Rightarrow> server \<Rightarrow> bool \<times> string \<times> server" where
  "fprintf E fo str s =
     (if os_fprintf E (tick s) then (True, fo @ str, ticked s)
      else (False, fo, emit (EvFail ''fprintf'') (ticked s)))"

text \<open>The loop over the groups: \<open>False\<close> when a write failed.\<close>

primrec dump_groups :: "env \<Rightarrow> addr list \<Rightarrow> string \<Rightarrow> server \<Rightarrow> (bool \<times> string \<times> server) run" where
  "dump_groups E [] fo s = Live (True, fo, s)"
| "dump_groups E (a # as) fo s =
     deref cfgs a s (\<lambda>i.
       let ptr = child_config_serialize (to_json_string E) i;
           (ok, fo, s) = fprintf E fo (ptr @ '','' @ [newline]) s
       in if \<not> ok then Live (False, fo, s) else dump_groups E as fo s)"

text \<open>
  The end of the dump. After a failed last write the file is closed, the failure reported,
  and the file closed again: there is no \<open>return\<close>.
\<close>

definition dump_finish ::
    "env \<Rightarrow> addr \<Rightarrow> string \<Rightarrow> string \<Rightarrow> string \<Rightarrow> server \<Rightarrow> (bool \<times> server) run" where
  "dump_finish E con fname fname_tmp fo s =
     (let (ok, fo, s) = fprintf E fo ('']'' @ [newline]) s;
          s = s\<lparr>files := (files s)(fname_tmp \<mapsto> fo)\<rparr>
      in if \<not> ok then bindO (send_status_msg E con False ''failure'' s) (\<lambda>s. Dead Undefined s)
         else if \<not> os_link E (tick s) \<or> files s fname \<noteq> None
         then reply E con False ''failure.'' True (emit (EvFail ''link'') (ticked s))
         else let s = (ticked s)\<lparr>files := (files s)(fname \<mapsto> fo, fname_tmp := None)\<rparr>
         in reply E con True ''dump successful.'' True s)"

definition dump_name :: "env \<Rightarrow> server \<Rightarrow> string" where
  "dump_name E s =
     (let time_buf = snprintf_buf 64 (strftime_dump E (now s))
      in DUMP_PATH (to_int (dump_cnt s + 1)) (geteuid E) time_buf)"

definition c_dump :: "env \<Rightarrow> addr \<Rightarrow> string \<Rightarrow> server \<Rightarrow> (bool \<times> server) run" where
  "c_dump E con buf s =
     (let fname = dump_name E s;
          fname_tmp = ''tmp.'' @ dump_name E s;
          s = s\<lparr>dump_cnt := to_int (dump_cnt s + 1)\<rparr>
      in if length fname \<ge> PATH_MAX \<or> length fname_tmp \<ge> PATH_MAX
         then reply E con False ''failure'' True s
         else if \<not> os_open E (tick s)
         then reply E con False ''failure'' True (emit (EvFail ''fopen'') (ticked s))
         else let (ok, fo, s) = fprintf E [] (''['' @ [newline]) (ticked s)
         in bindO (dump_groups E (child_config_list s) fo s) (\<lambda>(ok, fo, s).
            if \<not> ok then reply E con False ''failure'' True (s\<lparr>files := (files s)(fname_tmp \<mapsto> fo)\<rparr>)
            else dump_finish E con fname fname_tmp fo s))"

section \<open>start\<close>

definition c_spwn_create :: "env \<Rightarrow> addr \<Rightarrow> child_config \<Rightarrow> server \<Rightarrow> (bool \<times> server) run" where
  "c_spwn_create E con cc s =
     (let cc = cc\<lparr>cc_childs := replicate (nat (cc_instances cc)) Null\<rparr>;
          a = next_addr s;
          s = set_cfg a cc (s\<lparr>next_addr := Suc a\<rparr>)
      in bindO (child_config_insert a s) (\<lambda>s.
         bindO (if \<not> auto_dump s then send_status_msg E con True ''success'' s
                else bindO (c_dump E con [] s) (\<lambda>(cr, s). Live s)) (\<lambda>s.
         bindO (slog E (''[start] creating group '' @ fmt_s (cc_name cc) @ [newline]) s) (\<lambda>s.
         bindO (send_status_update_notification E (fmt_s (cc_name cc)) STATUS_CREATE s) (\<lambda>s.
         bindO (send_status_update_notification E (fmt_s (cc_name cc)) (cc_status cc) s) (\<lambda>s.
         if cc_status cc \<noteq> STATUS_RUNNING then Live (True, s)
         else bindO (foldO (\<lambda>i s. bindO (spawn E a i s) (\<lambda>(ok, s). Live s))
                       [0 ..< nat (cc_instances cc)] s) (\<lambda>s. Live (True, s))))))))"

definition c_spwn :: "env \<Rightarrow> addr \<Rightarrow> string \<Rightarrow> server \<Rightarrow> (bool \<times> server) run" where
  "c_spwn E con buf s =
     bindO (at_state s (child_config_unserialize (tokener_parse E) buf)) (\<lambda>r.
     case r of
       None \<Rightarrow> reply E con False ''failure'' False s
     | Some cc \<Rightarrow>
         (case cc_name cc of
            None \<Rightarrow> reply E con False ''need name'' True s
          | Some n \<Rightarrow>
              if cc_command cc = None then reply E con False ''need command'' True s
              else if child_config_find_by_name n s \<noteq> None
              then reply E con False ''name exists'' True s
              else let cc = (if cc_instances cc = -1 then cc\<lparr>cc_instances := 1\<rparr> else cc)
              in if cc_instances cc < 1
                 then reply E con False ''instances > 0 required.'' True s
                 else if cc_instances cc > MAX_INSTANCES
                 then reply E con False ''too many instances.'' True s
                 else c_spwn_create E con cc s))"

section \<open>exit\<close>

definition c_exit :: "env \<Rightarrow> addr \<Rightarrow> string \<Rightarrow> server \<Rightarrow> (bool \<times> server) run" where
  "c_exit E con buf s =
     (if \<not> allow_exit s then reply E con False ''prohibited'' True s
      else bindO (if \<not> auto_dump s then send_status_msg E con True ''exiting'' s
                  else bindO (c_dump E con [] s) (\<lambda>(cr, s). Live s)) (\<lambda>s.
           bindO (slog E (''server exiting due to exit command.'' @ [newline]) s) (\<lambda>s.
           Dead (Exited 0) s)))"

section \<open>kill, pids, delete\<close>

text \<open>
  A loop over slots of a group: \<open>f\<close> is what is done with the process of a slot; the pids are
  collected for the reply.
\<close>

primrec slot_loop ::
    "(addr \<Rightarrow> process \<Rightarrow> server \<Rightarrow> server) \<Rightarrow> addr \<Rightarrow> nat list \<Rightarrow> server \<Rightarrow> (int list \<times> server) run" where
  "slot_loop f a [] s = Live ([], s)"
| "slot_loop f a (x # xs) s =
     get_child a x s (\<lambda>i.
       case i of
         None \<Rightarrow> slot_loop f a xs s
       | Some p \<Rightarrow> deref procs p s (\<lambda>pr.
           bindO (slot_loop f a xs (f p pr s)) (\<lambda>(pids, s). Live (p_pid pr # pids, s))))"

definition pids_json :: "int list \<Rightarrow> json" where
  "pids_json pids = JObject [(''code'', JBool True), (''pids'', JArray (map JInt pids))]"

definition get_int_or :: "json \<Rightarrow> string \<Rightarrow> int \<Rightarrow> int" where
  "get_int_or obj k d =
     (case json_object_object_get obj k of
        None \<Rightarrow> d
      | Some m \<Rightarrow> if json_object_is_type m json_type_int then json_object_get_int m else d)"

definition c_kill :: "env \<Rightarrow> addr \<Rightarrow> string \<Rightarrow> server \<Rightarrow> (bool \<times> server) run" where
  "c_kill E con buf s =
     with_object E con buf s (\<lambda>obj.
     with_name E con True obj s (\<lambda>n.
       case child_config_find_by_name n s of
         None \<Rightarrow> reply E con False ''name not found'' True s
       | Some a \<Rightarrow> deref cfgs a s (\<lambda>cc.
           let sig = cc_killsig cc
           in bindO (slog E (''[kill] '' @ fmt_s (cc_name cc) @ '' signal '' @ show_int sig
                       @ [newline]) s) (\<lambda>s.
              let sig = get_int_or obj ''sig'' sig;
                  idx = get_int_or obj ''index'' (-1);
                  slots = (if idx = -1 then [0 ..< nat (cc_instances cc)]
                           else if 0 \<le> idx \<and> idx < cc_instances cc then [nat idx] else [])
              in bindO (slot_loop (\<lambda>p pr s. emit (EvKill (p_pid pr) sig) s) a slots s) (\<lambda>(pids, s).
                 answer E con (pids_json pids) s)))))"

definition c_pids :: "env \<Rightarrow> addr \<Rightarrow> string \<Rightarrow> server \<Rightarrow> (bool \<times> server) run" where
  "c_pids E con buf s =
     with_object E con buf s (\<lambda>obj.
     with_name E con False obj s (\<lambda>n.
       case child_config_find_by_name n s of
         None \<Rightarrow> reply E con False ''name not found'' True s
       | Some a \<Rightarrow> deref cfgs a s (\<lambda>cc.
           bindO (slot_loop (\<lambda>p pr s. s) a [0 ..< nat (cc_instances cc)] s) (\<lambda>(pids, s).
           answer E con (pids_json pids) s))))"

definition c_dele :: "env \<Rightarrow> addr \<Rightarrow> string \<Rightarrow> server \<Rightarrow> (bool \<times> server) run" where
  "c_dele E con buf s =
     with_object E con buf s (\<lambda>obj.
     with_name E con True obj s (\<lambda>n.
       case child_config_find_by_name n s of
         None \<Rightarrow> reply E con False ''name not found'' True s
       | Some a \<Rightarrow>
           bindO (child_config_remove a s) (\<lambda>s.
           deref cfgs a s (\<lambda>cc.
           bindO (slog E (''[dele] '' @ fmt_s (cc_name cc) @ [newline]) s) (\<lambda>s.
           bindO (slot_loop (\<lambda>p pr s. set_proc p (pr\<lparr>p_child_config := None\<rparr>) s) a
                    [0 ..< nat (cc_instances cc)] s) (\<lambda>(pids, s).
           bindO (send_status_update_notification E (fmt_s (cc_name cc)) STATUS_DELETE s) (\<lambda>s.
           answer E con (pids_json pids) (child_config_free a s))))))))"

section \<open>subscribe\<close>

definition subscription_insert :: "subscription \<Rightarrow> server \<Rightarrow> server" where
  "subscription_insert u s = s\<lparr>subscription_list := u # subscription_list s\<rparr>"

definition subscription_remove_for_client :: "addr \<Rightarrow> server \<Rightarrow> server" where
  "subscription_remove_for_client c s =
     s\<lparr>subscription_list := filter (\<lambda>u. s_client u \<noteq> c) (subscription_list s)\<rparr>"

definition c_subs :: "env \<Rightarrow> addr \<Rightarrow> string \<Rightarrow> server \<Rightarrow> (bool \<times> server) run" where
  "c_subs E con buf s =
     with_object E con buf s (\<lambda>obj.
       case json_object_object_get obj ''ident'' of
         None \<Rightarrow> reply E con False ''failure'' False s
       | Some m \<Rightarrow>
           if \<not> json_object_is_type m json_type_int then reply E con False ''failure'' False s
           else deref conns con s (\<lambda>c.
             let subs = \<lparr>s_client = con, s_ident = word_of_int (json_object_get_int m),
                         s_cid = c_cid c\<rparr>
             in reply E con True ''success'' True (subscription_insert subs s)))"

end
