(* ===== verification/Handlers.thy ===== *)
theory Handlers
  imports Commands
begin

text \<open>
  The contract of a command handler, as a locale: from a good state with the client
  connected it returns a good state with the same connections, or the server ends in one of
  the ways \<open>dead_ok\<close> allows. Each handler of the theory Commands is an interpretation; the
  functional lemmas say what the handler did to the groups and processes.
\<close>

section \<open>The contract\<close>

text \<open>What a handler leaves alone: the connections, apart from the bytes queued.\<close>

definition peers :: "server \<Rightarrow> (addr \<rightharpoonup> client_con) \<times> addr list \<times> (int \<times> int) list \<times> int" where
  "peers s = ((\<lambda>a. map_option (\<lambda>c. c\<lparr>c_out := []\<rparr>) (conns s a)), client_con_list s, zombies s, now s)"

definition serves :: "server \<Rightarrow> (bool \<times> server) run \<Rightarrow> bool" where
  "serves s m \<longleftrightarrow> post m (\<lambda>(cr, s'). srv_ok s' \<and> peers s' = peers s) dead_ok"

text \<open>
  A payload with a bad argument list can end the server as well, while a configuration is
  read; the other handlers do not read one.
\<close>

locale handler =
  fixes h :: "env \<Rightarrow> addr \<Rightarrow> string \<Rightarrow> server \<Rightarrow> (bool \<times> server) run"
  assumes answers: "fork_fresh E \<Longrightarrow> srv_ok s \<Longrightarrow> conn_live con s \<Longrightarrow>
    post (h E con buf s) (\<lambda>(cr, s'). srv_ok s' \<and> peers s' = peers s)
      (\<lambda>h t. dead_ok h t \<or> h = Undefined \<and> \<not> payload_ok (tokener_parse E) buf)"
begin

lemma returns_ok:
  "fork_fresh E \<Longrightarrow> srv_ok s \<Longrightarrow> conn_live con s \<Longrightarrow> h E con buf s = Live (cr, s') \<Longrightarrow>
   srv_ok s' \<and> peers s' = peers s"
  using answers [of E s con buf] by simp

lemma undefined_only_if:
  "fork_fresh E \<Longrightarrow> srv_ok s \<Longrightarrow> conn_live con s \<Longrightarrow> h E con buf s = Dead Undefined t \<Longrightarrow>
   failed t \<or> \<not> payload_ok (tokener_parse E) buf"
  using answers [of E s con buf] by auto

end

locale safe_handler =
  fixes h :: "env \<Rightarrow> addr \<Rightarrow> string \<Rightarrow> server \<Rightarrow> (bool \<times> server) run"
  assumes serve: "fork_fresh E \<Longrightarrow> srv_ok s \<Longrightarrow> conn_live con s \<Longrightarrow> serves s (h E con buf s)"

sublocale safe_handler \<subseteq> handler
proof
  fix E s con buf
  assume "fork_fresh E" "srv_ok s" "conn_live con s"
  then have "serves s (h E con buf s)" by (rule serve)
  then show "post (h E con buf s) (\<lambda>(cr, s'). srv_ok s' \<and> peers s' = peers s)
      (\<lambda>h t. dead_ok h t \<or> h = Undefined \<and> \<not> payload_ok (tokener_parse E) buf)"
    unfolding serves_def by (rule post_mono) auto
qed

lemma peers_front:
  assumes "front s' = front s"
  shows "peers s' = peers s"
  using front_eqD(3,9,10,11) [OF assms] by (auto simp: peers_def)

lemma peers_full:
  assumes "full s' = full s"
  shows "peers s' = peers s"
  by (rule peers_front [OF front_core [OF full_core [OF assms]]])

lemma peers_conn_live:
  assumes "peers s' = peers s"
  shows "conn_live a s' = conn_live a s"
proof -
  have "map_option (\<lambda>c. c\<lparr>c_out := []\<rparr>) (conns s' a) = map_option (\<lambda>c. c\<lparr>c_out := []\<rparr>) (conns s a)"
    using assms by (auto simp: peers_def fun_eq_iff)
  then show ?thesis by (cases "conns s' a"; cases "conns s a") (auto simp: conn_live_def)
qed

lemma conn_live_full: "full s' = full s \<Longrightarrow> conn_live a s' = conn_live a s"
  by (rule core_conn_live [OF full_core])

lemma srv_okD: "srv_ok s \<Longrightarrow> srv_inv s" "srv_ok s \<Longrightarrow> sup_inv s"
  by (simp_all add: srv_ok_def)

lemma aborted_dead: "post m Q (\<lambda>h t. h = Aborted) \<Longrightarrow> post m Q dead_ok"
  by (erule post_mono) simp_all

lemma serves_Live: "srv_ok s' \<Longrightarrow> peers s' = peers s \<Longrightarrow> serves s (Live (cr, s'))"
  by (simp add: serves_def)

lemma serves_full:
  assumes "srv_ok s" and "peers s = peers b" and "full s' = full s"
  shows "serves b (Live (cr, s'))"
  using assms srv_ok_full [OF assms(3)] peers_full [OF assms(3)] by (simp add: serves_Live)

text \<open>One rule per statement a handler is made of.\<close>

lemma serves_reply:
  assumes "srv_ok s" and "conn_live con s" and "peers s = peers b"
  shows "serves b (reply E con code msg cr s)"
  unfolding serves_def reply_def post_bind
  by (rule aborted_dead, rule send_status_msg_full [OF srv_okD(1) [OF assms(1)] assms(2)])
    (rule serves_full [OF assms(1,3), unfolded serves_def])

lemma serves_answer:
  assumes "srv_ok s" and "conn_live con s" and "peers s = peers b"
  shows "serves b (answer E con obj s)"
  unfolding serves_def answer_def post_bind
  by (rule aborted_dead, rule send_message_full [OF srv_okD(1) [OF assms(1)] assms(2)])
    (simp only: prod.case, rule serves_full [OF assms(1,3), unfolded serves_def])

lemma serves_slog:
  assumes "subs_live s" and "\<And>s'. full s' = full s \<Longrightarrow> serves b (f s')"
  shows "serves b (bindO (slog E msg s) f)"
  unfolding serves_def post_bind
  by (rule aborted_dead, rule slog_live_full [OF assms(1)]) (rule assms(2) [unfolded serves_def])

lemma serves_with_object:
  assumes "srv_ok s" and "conn_live con s" and "\<And>obj. serves s (f obj)"
  shows "serves s (with_object E con buf s f)"
  using assms by (auto simp: with_object_def serves_reply split: option.splits)

lemma serves_with_name:
  assumes "srv_ok s" and "conn_live con s" and "\<And>n. is_cstr n \<Longrightarrow> serves s (f n)"
  shows "serves s (with_name E con cr obj s f)"
  using assms by (auto simp: with_name_def serves_reply split: option.splits)

lemma serves_deref:
  "store s a = Some x \<Longrightarrow> serves b (f x) \<Longrightarrow> serves b (deref store a s f)"
  by (simp add: deref_def)

section \<open>What the registry answers\<close>

text \<open>Looking up a name gives a group of this name, and finds one if there is one.\<close>

lemma find_by_name_Some:
  assumes s: "srv_inv s" and n: "is_cstr n" and f: "child_config_find_by_name n s = Some a"
  obtains cc where "cfgs s a = Some cc" "cc_name cc = Some n"
proof -
  have reg: "uvstrhash_holds (child_config_hash s) (group_keys (cfgs s) (child_config_list s))"
    "set (child_config_list s) = dom (cfgs s)"
    using s by (simp_all add: srv_inv_def registry_ok_def)
  obtain k where "(k, a) \<in> set (group_keys (cfgs s) (child_config_list s))" and m: "str_matches n k"
    using ustr.lookup_Some_in [OF reg(1)] f unfolding child_config_find_by_name_def by blast
  then have "a \<in> dom (cfgs s)" and k: "k = cc_key a (the (cfgs s a))"
    using reg(2) by (auto simp: group_keys_def)
  then obtain cc where cc: "cfgs s a = Some cc" by blast
  obtain x where x: "cc_name cc = Some x" "is_cstr x"
    using inv_sizes [OF s cc] by (auto simp: config_wf_def)
  with k m cc n have "x = n" by (simp add: cc_key_def str_matches_def strcmp_0)
  with cc x that show thesis by blast
qed

lemma find_by_name_None:
  assumes s: "srv_inv s" and n: "is_cstr n" and f: "child_config_find_by_name n s = None"
    and cc: "cfgs s a = Some cc"
  shows "cc_name cc \<noteq> Some n"
proof
  assume x: "cc_name cc = Some n"
  have reg: "uvstrhash_holds (child_config_hash s) (group_keys (cfgs s) (child_config_list s))"
    "set (child_config_list s) = dom (cfgs s)"
    using s by (simp_all add: srv_inv_def registry_ok_def)
  have "(cc_key a cc, a) \<in> set (group_keys (cfgs s) (child_config_list s))"
    using reg(2) cc by (force simp: group_keys_def)
  moreover have "str_matches n (cc_key a cc)" using x n by (simp add: cc_key_def str_matches_def strcmp_0)
  ultimately show False
    using ustr.lookup_None [OF reg(1), of n] f unfolding child_config_find_by_name_def by fastforce
qed

section \<open>list, get, helo, subscribe\<close>

lemma list_names_eval:
  assumes s: "srv_inv s"
  shows "set as \<subseteq> dom (cfgs s) \<Longrightarrow>
    list_names as s = Live (map (\<lambda>a. JString (the (cc_name (the (cfgs s a))))) as)"
proof (induction as)
  case Nil
  then show ?case by simp
next
  case (Cons a as)
  then obtain cc where cc: "cfgs s a = Some cc" by auto
  obtain x where "cc_name cc = Some x"
    using inv_sizes [OF s cc] by (auto simp: config_wf_def)
  with Cons cc show ?case by (simp add: deref_def)
qed

lemma c_list_eval:
  assumes s: "srv_inv s"
  shows "c_list E con buf s =
    answer E con (JArray (map (\<lambda>a. JString (the (cc_name (the (cfgs s a))))) (child_config_list s))) s"
  using s list_names_eval [OF s, of "child_config_list s"]
  by (simp add: c_list_def srv_inv_def registry_ok_def)

interpretation list_cmd: safe_handler c_list
proof
  fix E s con buf
  assume "srv_ok s" "conn_live con s"
  then show "serves s (c_list E con buf s)" by (simp add: c_list_eval srv_okD serves_answer)
qed

interpretation helo_cmd: safe_handler c_helo
  by unfold_locales (simp add: c_helo_def serves_answer)

interpretation getc_cmd: safe_handler c_getc
proof
  fix E s con buf
  assume s: "srv_ok s" "conn_live con s"
  show "serves s (c_getc E con buf s)"
    unfolding c_getc_def
  proof (rule serves_with_object [OF s], rule serves_with_name [OF s])
    fix obj n
    assume n: "is_cstr n"
    show "serves s (case child_config_find_by_name n s of
          None \<Rightarrow> reply E con False ''name not found'' True s
        | Some a \<Rightarrow> deref cfgs a s (\<lambda>cc. answer E con (child_config_json cc) s))"
    proof (cases "child_config_find_by_name n s")
      case None
      with s show ?thesis by (simp add: serves_reply)
    next
      case (Some a)
      obtain cc where "cfgs s a = Some cc" by (rule find_by_name_Some [OF srv_okD(1) [OF s(1)] n Some])
      with Some s show ?thesis by (simp add: deref_def serves_answer)
    qed
  qed
qed

lemma inv_subs:
  assumes "srv_ok s" and "\<forall>u \<in> set us. conn_live (s_client u) s"
  shows "srv_ok (s\<lparr>subscription_list := us\<rparr>)"
proof -
  have "sup_inv (s\<lparr>subscription_list := us\<rparr>)" using assms(1)
    by (simp add: srv_ok_def sup_inv_def failed_def acts_def)
  with assms show ?thesis
    by (auto simp: srv_ok_def srv_inv_def registry_ok_def sizes_ok_def kids_ok_def addrs_ok_def
        conns_ok_def subs_live_def conn_live_def)
qed

interpretation subs_cmd: safe_handler c_subs
proof
  fix E s con buf
  assume s: "srv_ok s" "conn_live con s"
  have ins: "serves s (reply E con True ''success'' True (subscription_insert u s))"
    if u: "s_client u = con" for u
  proof (rule serves_reply)
    have "\<forall>v \<in> set (u # subscription_list s). conn_live (s_client v) s"
      using s u by (auto simp: srv_ok_def srv_inv_def conns_ok_def subs_live_def)
    from inv_subs [OF s(1) this] show "srv_ok (subscription_insert u s)"
      by (simp add: subscription_insert_def)
    show "conn_live con (subscription_insert u s)" "peers (subscription_insert u s) = peers s"
      using s(2) by (simp_all add: subscription_insert_def conn_live_def peers_def)
  qed
  obtain c where c: "conns s con = Some c" using s(2) by (auto simp: conn_live_def)
  show "serves s (c_subs E con buf s)"
    unfolding c_subs_def
    by (rule serves_with_object [OF s])
      (use s c ins in \<open>simp add: serves_reply deref_def Let_def split: option.split\<close>)
qed

section \<open>Loops over the slots of a group\<close>

definition slot_ptrs :: "child_config \<Rightarrow> nat list \<Rightarrow> addr list" where
  "slot_ptrs cc xs =
     List.map_filter (\<lambda>x. case cc_childs cc ! x of Proc p \<Rightarrow> Some p | _ \<Rightarrow> None) xs"

definition pid_of :: "server \<Rightarrow> addr \<Rightarrow> int" where
  "pid_of s p = p_pid (the (procs s p))"

lemma slot_ptrs_simps [simp]:
  "slot_ptrs cc [] = []"
  "slot_ptrs cc (x # xs) =
     (case cc_childs cc ! x of Proc p \<Rightarrow> p # slot_ptrs cc xs | _ \<Rightarrow> slot_ptrs cc xs)"
  by (simp_all add: slot_ptrs_def map_filter_simps split: slot.splits)

lemma slot_ptrs_in: "p \<in> set (slot_ptrs cc xs) \<longleftrightarrow> (\<exists>x \<in> set xs. cc_childs cc ! x = Proc p)"
  by (induction xs) (auto split: slot.splits)

text \<open>
  The loop runs \<open>f\<close> on the processes of the slots, in order, and collects their pids; it
  reads an uninitialised slot only if there is one.
\<close>

lemma slot_loop_eval:
  assumes keep: "\<And>p pr s. procs s p = Some pr \<Longrightarrow> cfgs (f p pr s) = cfgs s \<and>
      (\<forall>q. map_option p_pid (procs (f p pr s) q) = map_option p_pid (procs s q)) \<and>
      acts_grow s (f p pr s)"
  shows "cfgs s a = Some cc \<Longrightarrow> set xs \<subseteq> {..< length (cc_childs cc)} \<Longrightarrow>
    \<forall>p \<in> set (slot_ptrs cc xs). procs s p \<noteq> None \<Longrightarrow>
    (if \<exists>x \<in> set xs. cc_childs cc ! x = Uninit
     then \<exists>t. slot_loop f a xs s = Dead Undefined t \<and> acts_grow s t
     else slot_loop f a xs s = Live (map (pid_of s) (slot_ptrs cc xs),
            fold (\<lambda>p s. f p (the (procs s p)) s) (slot_ptrs cc xs) s))"
proof (induction xs arbitrary: s)
  case Nil
  then show ?case by simp
next
  case (Cons x xs)
  have x: "x < length (cc_childs cc)" using Cons.prems by simp
  show ?case
  proof (cases "cc_childs cc ! x")
    case Uninit
    with Cons.prems x show ?thesis by (auto simp: get_child_def deref_def)
  next
    case Null
    with Cons.IH [OF Cons.prems(1)] Cons.prems x show ?thesis
      by (simp add: get_child_def deref_def [of cfgs])
  next
    case (Proc p)
    then obtain pr where pr: "procs s p = Some pr" using Cons.prems(3) by auto
    let ?s = "f p pr s"
    have same: "map_option p_pid (procs ?s q) = map_option p_pid (procs s q)" for q
      using keep [OF pr] by blast
    have live: "\<forall>p \<in> set (slot_ptrs cc xs). procs ?s p \<noteq> None"
    proof
      fix q
      assume "q \<in> set (slot_ptrs cc xs)"
      then have "procs s q \<noteq> None" using Cons.prems(3) Proc by simp
      then show "procs ?s q \<noteq> None" using same [of q] by (cases "procs ?s q") auto
    qed
    have pid: "pid_of ?s q = pid_of s q" if q: "q \<in> set (slot_ptrs cc xs)" for q
    proof -
      obtain y where y: "procs ?s q = Some y" using live q by auto
      then obtain z where "procs s q = Some z" "p_pid z = p_pid y"
        using same [of q] by (cases "procs s q") auto
      with y show ?thesis by (simp add: pid_of_def)
    qed
    have step: "slot_loop f a (x # xs) s =
        bindO (slot_loop f a xs ?s) (\<lambda>(pids, s). Live (p_pid pr # pids, s))"
      using Cons.prems x Proc pr by (simp add: get_child_def deref_def)
    have c: "cfgs ?s a = Some cc" "set xs \<subseteq> {..< length (cc_childs cc)}"
      using keep [OF pr] Cons.prems by auto
    note IH = Cons.IH [OF c live]
    show ?thesis
    proof (cases "\<exists>x \<in> set xs. cc_childs cc ! x = Uninit")
      case True
      with IH obtain t where "slot_loop f a xs ?s = Dead Undefined t" "acts_grow ?s t" by auto
      with True keep [OF pr] show ?thesis
        unfolding step by (auto intro: acts_grow_trans)
    next
      case False
      with IH have "slot_loop f a xs ?s = Live (map (pid_of ?s) (slot_ptrs cc xs),
            fold (\<lambda>p s. f p (the (procs s p)) s) (slot_ptrs cc xs) ?s)" by simp
      moreover have "map (pid_of ?s) (slot_ptrs cc xs) = map (pid_of s) (slot_ptrs cc xs)"
        using pid by simp
      ultimately show ?thesis
        using False Proc pr unfolding step by (simp add: pid_of_def)
    qed
  qed
qed

text \<open>The same on a good state: an uninitialised slot means that a system call had failed.\<close>

lemma slot_loop_ok:
  assumes keep: "\<And>p pr s. procs s p = Some pr \<Longrightarrow> cfgs (f p pr s) = cfgs s \<and>
      (\<forall>q. map_option p_pid (procs (f p pr s) q) = map_option p_pid (procs s q)) \<and>
      acts_grow s (f p pr s)"
    and b: "srv_ok b" and a: "cfgs b a = Some cc"
    and s: "cfgs s = cfgs b" "procs s = procs b" "acts_grow b s"
    and xs: "set xs \<subseteq> {..< length (cc_childs cc)}"
    and Q: "Q (map (pid_of b) (slot_ptrs cc xs), fold (\<lambda>p s. f p (the (procs s p)) s) (slot_ptrs cc xs) s)"
  shows "post (slot_loop f a xs s) Q dead_ok"
proof -
  have live: "\<forall>p \<in> set (slot_ptrs cc xs). procs s p \<noteq> None"
  proof
    fix p
    assume "p \<in> set (slot_ptrs cc xs)"
    then obtain x where "x < length (cc_childs cc)" "cc_childs cc ! x = Proc p"
      using xs by (auto simp: slot_ptrs_in)
    then show "procs s p \<noteq> None"
      using inv_slot_proc [OF srv_okD(1) [OF b] a] s(2) by (metis option.distinct(1))
  qed
  have pid: "pid_of s = pid_of b" using s(2) by (simp add: pid_of_def fun_eq_iff)
  have a': "cfgs s a = Some cc" using a s(1) by simp
  note ev = slot_loop_eval [where f = f, OF keep a' xs live]
  show ?thesis
  proof (cases "\<exists>x \<in> set xs. cc_childs cc ! x = Uninit")
    case False
    with ev Q pid show ?thesis by simp
  next
    case True
    then obtain x where "x < length (cc_childs cc)" "cc_childs cc ! x = Uninit" using xs by auto
    then have "\<not> slots_up cc" unfolding slots_up_def by (metis nth_mem)
    then have "failed b" using sup_slots [OF srv_okD(2) [OF b] _ a] by blast
    then have "failed s" using acts_grow_failed [OF s(3)] by blast
    obtain t where "slot_loop f a xs s = Dead Undefined t" "acts_grow s t"
      using True ev by auto
    with \<open>failed s\<close> show ?thesis by (simp add: acts_grow_failed)
  qed
qed

lemma slots_range: "srv_inv s \<Longrightarrow> cfgs s a = Some cc \<Longrightarrow>
  set [0 ..< nat (cc_instances cc)] \<subseteq> {..< length (cc_childs cc)}"
  using inv_sizes [of s a cc] by auto

section \<open>kill and pids\<close>

text \<open>What a group's client sees of it.\<close>

definition group_pids :: "server \<Rightarrow> child_config \<Rightarrow> nat list \<Rightarrow> int list" where
  "group_pids s cc xs = map (pid_of s) (slot_ptrs cc xs)"

lemma fold_emit:
  "core (fold (\<lambda>p. emit (g p)) ps s) = core s"
  "(\<And>p. \<not> is_log (g p)) \<Longrightarrow> acts (fold (\<lambda>p. emit (g p)) ps s) = acts s @ map g ps"
  by (induction ps arbitrary: s) simp_all

lemma fold_kill:
  "fold (\<lambda>p s. emit (EvKill (p_pid (the (procs s p))) sig) s) ps s
     = fold (\<lambda>p. emit (EvKill (pid_of s p) sig)) ps s"
  by (induction ps arbitrary: s) (simp_all add: pid_of_def)

lemma slot_loop_kill:
  assumes b: "srv_ok b" and a: "cfgs b a = Some cc" and s: "full s = full b"
    and xs: "set xs \<subseteq> {..< length (cc_childs cc)}"
    and Q: "\<And>s'. core s' = core b \<Longrightarrow>
      acts s' = acts b @ map (\<lambda>p. EvKill p sig) (group_pids b cc xs) \<Longrightarrow> Q (group_pids b cc xs, s')"
  shows "post (slot_loop (\<lambda>p pr s. emit (EvKill (p_pid pr) sig) s) a xs s) Q dead_ok"
proof (rule slot_loop_ok [OF _ b a _ _ _ xs])
  let ?t = "fold (\<lambda>p s. emit (EvKill (p_pid (the (procs s p))) sig) s) (slot_ptrs cc xs) s"
  have "procs s = procs b" using core_eqD(4) [OF full_core [OF s]] .
  then have pid: "pid_of s = pid_of b" by (simp add: pid_of_def fun_eq_iff)
  have "core ?t = core b" using full_core [OF s] by (simp add: fold_kill fold_emit)
  moreover have "acts ?t = acts b @ map (\<lambda>p. EvKill p sig) (group_pids b cc xs)"
    using full_acts [OF s] by (simp add: fold_kill fold_emit group_pids_def pid o_def)
  ultimately have "Q (group_pids b cc xs, ?t)" by (rule Q)
  then show "Q (map (pid_of b) (slot_ptrs cc xs), ?t)" by (simp add: group_pids_def)
qed (use core_eqD(1,4) [OF full_core [OF s]] acts_grow_full [OF s] in auto)

definition kill_slots :: "int \<Rightarrow> child_config \<Rightarrow> nat list" where
  "kill_slots idx cc =
     (if idx = -1 then [0 ..< nat (cc_instances cc)]
      else if 0 \<le> idx \<and> idx < cc_instances cc then [nat idx] else [])"

lemma kill_slots_range:
  "srv_inv s \<Longrightarrow> cfgs s a = Some cc \<Longrightarrow> set (kill_slots idx cc) \<subseteq> {..< length (cc_childs cc)}"
  using inv_sizes [of s a cc] by (auto simp: kill_slots_def)

text \<open>\<open>c_kill\<close> on a group that exists: the signals sent, the reply, nothing else.\<close>

lemma c_kill_group:
  assumes s: "srv_ok s" and con: "conn_live con s" and n: "is_cstr n"
    and obj: "tokener_parse E buf = Some obj" "json_object_is_type obj json_type_object"
    and name: "json_object_object_get obj ''name'' = Some m" "json_object_is_type m json_type_string"
      "json_object_get_string m = n"
    and f: "child_config_find_by_name n s = Some a" and a: "cfgs s a = Some cc"
  defines "sig \<equiv> get_int_or obj ''sig'' (cc_killsig cc)"
    and "pids \<equiv> group_pids s cc (kill_slots (get_int_or obj ''index'' (-1)) cc)"
  shows "post (c_kill E con buf s)
    (\<lambda>(cr, s'). cr \<and> core s' = core s \<and> acts s' = acts s @ map (\<lambda>p. EvKill p sig) pids) dead_ok"
proof -
  let ?Q = "\<lambda>(cr, s'). cr \<and> core s' = core s \<and> acts s' = acts s @ map (\<lambda>p. EvKill p sig) pids"
  let ?xs = "kill_slots (get_int_or obj ''index'' (-1)) cc"
  have "post (bindO (slog E msg s) (\<lambda>s.
        bindO (slot_loop (\<lambda>p pr s. emit (EvKill (p_pid pr) sig) s) a ?xs s) (\<lambda>(pids, s).
          answer E con (pids_json pids) s))) ?Q dead_ok" for msg
    unfolding post_bind
  proof (rule aborted_dead, rule slog_full [OF srv_okD(1) [OF s]])
    fix s1
    assume f1: "full s1 = full s"
    show "post (slot_loop (\<lambda>p pr s. emit (EvKill (p_pid pr) sig) s) a ?xs s1)
        (\<lambda>x. post (case x of (pids, s) \<Rightarrow> answer E con (pids_json pids) s) ?Q dead_ok) dead_ok"
    proof (rule slot_loop_kill [OF s a f1 kill_slots_range [OF srv_okD(1) [OF s] a]])
      fix s2
      assume s2: "core s2 = core s"
        "acts s2 = acts s @ map (\<lambda>p. EvKill p sig) (group_pids s cc ?xs)"
      have "srv_inv s2" using inv_core [OF s2(1)] s by (simp add: srv_ok_def)
      moreover have "conn_live con s2" using core_conn_live [OF s2(1)] con by simp
      ultimately have "post (answer E con (pids_json (group_pids s cc ?xs)) s2) ?Q dead_ok"
        unfolding answer_def post_bind
      proof (rule aborted_dead [OF send_message_full])
        fix ok s3
        assume f3: "full s3 = full s2"
        show "post (case (ok, s3) of (ok, s) \<Rightarrow> Live (True, s)) ?Q dead_ok"
          using full_core [OF f3] full_acts [OF f3] s2 by (simp add: pids_def)
      qed
      then show "post (case (group_pids s cc ?xs, s2) of (pids, s) \<Rightarrow> answer E con (pids_json pids) s)
          ?Q dead_ok" by simp
    qed
  qed
  then show ?thesis
    using obj name f a by (simp add: c_kill_def with_object_def with_name_def deref_def Let_def
        kill_slots_def sig_def)
qed

interpretation kill_cmd: safe_handler c_kill
proof
  fix E s con buf
  assume s: "srv_ok s" "conn_live con s"
  show "serves s (c_kill E con buf s)"
    unfolding c_kill_def
  proof (rule serves_with_object [OF s], rule serves_with_name [OF s])
    fix obj n
    assume n: "is_cstr n"
    show "serves s (case child_config_find_by_name n s of
        None \<Rightarrow> reply E con False ''name not found'' True s
      | Some a \<Rightarrow> deref cfgs a s (\<lambda>cc.
          let sig = cc_killsig cc
          in bindO (slog E (''[kill] '' @ fmt_s (cc_name cc) @ '' signal '' @ show_int sig
                      @ [newline]) s) (\<lambda>s.
             let sig = get_int_or obj ''sig'' sig;
                 idx = get_int_or obj ''index'' (-1);
                 slots = (if idx = -1 then [0 ..< nat (cc_instances cc)]
                          else if 0 \<le> idx \<and> idx < cc_instances cc then [nat idx] else [])
             in bindO (slot_loop (\<lambda>p pr s. emit (EvKill (p_pid pr) sig) s) a slots s) (\<lambda>(pids, s).
                answer E con (pids_json pids) s))))"
    proof (cases "child_config_find_by_name n s")
      case None
      with s show ?thesis by (simp add: serves_reply)
    next
      case (Some a)
      obtain cc where a: "cfgs s a = Some cc"
        by (rule find_by_name_Some [OF srv_okD(1) [OF s(1)] n Some])
      have "serves s (bindO (slog E msg s) (\<lambda>s.
          bindO (slot_loop (\<lambda>p pr s. emit (EvKill (p_pid pr) sig) s) a (kill_slots idx cc) s)
            (\<lambda>(pids, s). answer E con (pids_json pids) s)))" for msg sig idx
      proof (rule serves_slog [OF inv_subs_live [OF srv_okD(1) [OF s(1)]]])
        fix s1
        assume f1: "full s1 = full s"
        show "serves s (bindO (slot_loop (\<lambda>p pr s. emit (EvKill (p_pid pr) sig) s) a (kill_slots idx cc) s1)
            (\<lambda>(pids, s). answer E con (pids_json pids) s))"
          unfolding serves_def post_bind
        proof (rule slot_loop_kill [OF s(1) a f1 kill_slots_range [OF srv_okD(1) [OF s(1)] a]])
          fix s2
          assume s2: "core s2 = core s"
            "acts s2 = acts s @ map (\<lambda>p. EvKill p sig) (group_pids s cc (kill_slots idx cc))"
          have "sup_inv s2"
            by (rule sup_inv_same [OF srv_okD(2) [OF s(1)]])
              (use s2 core_eqD(1) [OF s2(1)] in \<open>auto simp: acts_grow_def\<close>)
          then have "srv_ok s2" using inv_core [OF s2(1)] s by (simp add: srv_ok_def)
          moreover have "conn_live con s2" using core_conn_live [OF s2(1)] s by simp
          moreover have "peers s2 = peers s" by (rule peers_front [OF front_core [OF s2(1)]])
          ultimately have "serves s (answer E con obj s2)" for obj by (rule serves_answer)
          then show "post (case (group_pids s cc (kill_slots idx cc), s2) of
              (pids, s) \<Rightarrow> answer E con (pids_json pids) s)
              (\<lambda>(cr, s'). srv_ok s' \<and> peers s' = peers s) dead_ok"
            by (simp add: serves_def)
        qed
      qed
      with Some a show ?thesis by (simp add: deref_def Let_def kill_slots_def)
    qed
  qed
qed

lemma fold_same: "fold (\<lambda>p s. s) ps s = s"
  by (induction ps) simp_all

text \<open>\<open>c_pids\<close> on a group that exists: the pids of its processes, in slot order, and no effect.\<close>

lemma slot_loop_pids:
  assumes b: "srv_ok b" and a: "cfgs b a = Some cc"
    and Q: "Q (group_pids b cc [0 ..< nat (cc_instances cc)], b)"
  shows "post (slot_loop (\<lambda>p pr s. s) a [0 ..< nat (cc_instances cc)] b) Q dead_ok"
  by (rule slot_loop_ok [OF _ b a refl refl _ slots_range [OF srv_okD(1) [OF b] a]])
    (use Q in \<open>simp_all add: fold_same group_pids_def\<close>)

lemma c_pids_group:
  assumes s: "srv_ok s" and con: "conn_live con s"
    and obj: "tokener_parse E buf = Some obj" "json_object_is_type obj json_type_object"
    and name: "json_object_object_get obj ''name'' = Some m" "json_object_is_type m json_type_string"
    and f: "child_config_find_by_name (json_object_get_string m) s = Some a" and a: "cfgs s a = Some cc"
    and up: "Uninit \<notin> set (cc_childs cc)"
  shows "c_pids E con buf s =
    answer E con (pids_json (group_pids s cc [0 ..< nat (cc_instances cc)])) s"
proof -
  have x: "\<not> (\<exists>x \<in> set [0 ..< nat (cc_instances cc)]. cc_childs cc ! x = Uninit)"
    using up slots_range [OF srv_okD(1) [OF s] a] by (metis lessThan_iff nth_mem subset_iff)
  have live: "\<forall>p \<in> set (slot_ptrs cc [0 ..< nat (cc_instances cc)]). procs s p \<noteq> None"
  proof
    fix p
    assume "p \<in> set (slot_ptrs cc [0 ..< nat (cc_instances cc)])"
    then obtain x where "x < length (cc_childs cc)" "cc_childs cc ! x = Proc p"
      using slots_range [OF srv_okD(1) [OF s] a] by (auto simp: slot_ptrs_in)
    then show "procs s p \<noteq> None"
      using inv_slot_proc [OF srv_okD(1) [OF s] a] by (metis option.distinct(1))
  qed
  have "slot_loop (\<lambda>p pr s. s) a [0 ..< nat (cc_instances cc)] s =
      Live (group_pids s cc [0 ..< nat (cc_instances cc)], s)"
    using slot_loop_eval [where f = "\<lambda>p pr s. s", OF _ a slots_range [OF srv_okD(1) [OF s] a] live] x
    by (simp add: fold_same group_pids_def)
  with obj name f a show ?thesis
    by (simp add: c_pids_def with_object_def with_name_def deref_def)
qed

interpretation pids_cmd: safe_handler c_pids
proof
  fix E s con buf
  assume s: "srv_ok s" "conn_live con s"
  show "serves s (c_pids E con buf s)"
    unfolding c_pids_def
  proof (rule serves_with_object [OF s], rule serves_with_name [OF s])
    fix obj n
    assume n: "is_cstr n"
    show "serves s (case child_config_find_by_name n s of
        None \<Rightarrow> reply E con False ''name not found'' True s
      | Some a \<Rightarrow> deref cfgs a s (\<lambda>cc.
          bindO (slot_loop (\<lambda>p pr s. s) a [0 ..< nat (cc_instances cc)] s) (\<lambda>(pids, s).
          answer E con (pids_json pids) s)))"
    proof (cases "child_config_find_by_name n s")
      case None
      with s show ?thesis by (simp add: serves_reply)
    next
      case (Some a)
      obtain cc where a: "cfgs s a = Some cc"
        by (rule find_by_name_Some [OF srv_okD(1) [OF s(1)] n Some])
      have "serves s (bindO (slot_loop (\<lambda>p pr s. s) a [0 ..< nat (cc_instances cc)] s) (\<lambda>(pids, s).
          answer E con (pids_json pids) s))"
        unfolding serves_def post_bind
        by (rule slot_loop_pids [OF s(1) a])
          (use serves_answer [OF s refl] in \<open>simp add: serves_def\<close>)
      with Some a show ?thesis by (simp add: deref_def)
    qed
  qed
qed

end
