(* ===== verification/Delete.thy ===== *)
theory Delete
  imports Handlers
begin

text \<open>
  \<open>c_dele\<close>: the group leaves the registry and the heap, its processes stay and no longer
  point to it. The contract of the handler, and the state it leaves (\<open>deleted\<close>).
\<close>

section \<open>delete\<close>

definition detach :: "addr set \<Rightarrow> (addr \<rightharpoonup> process) \<Rightarrow> (addr \<rightharpoonup> process)" where
  "detach P ps = (\<lambda>p. if p \<in> P then map_option (\<lambda>pr. pr\<lparr>p_child_config := None\<rparr>) (ps p) else ps p)"

lemma fold_detach:
  "\<forall>p \<in> set as. procs s p \<noteq> None \<Longrightarrow>
   fold (\<lambda>p s. set_proc p ((the (procs s p))\<lparr>p_child_config := None\<rparr>) s) as s
     = s\<lparr>procs := detach (set as) (procs s)\<rparr>"
proof (induction as arbitrary: s)
  case Nil
  then show ?case by (simp add: detach_def)
next
  case (Cons p as)
  then obtain pr where pr: "procs s p = Some pr" by auto
  let ?s = "set_proc p (pr\<lparr>p_child_config := None\<rparr>) s"
  have "\<forall>p \<in> set as. procs ?s p \<noteq> None" using Cons.prems by simp
  then have "fold (\<lambda>p s. set_proc p ((the (procs s p))\<lparr>p_child_config := None\<rparr>) s) as ?s
     = ?s\<lparr>procs := detach (set as) (procs ?s)\<rparr>" by (rule Cons.IH)
  also have "\<dots> = s\<lparr>procs := detach (set (p # as)) (procs s)\<rparr>"
    using pr by (auto simp: set_proc_def detach_def fun_eq_iff)
  finally show ?case using pr by simp
qed

text \<open>The state after the group is gone and its processes run on by themselves.\<close>

definition group_procs :: "child_config \<Rightarrow> addr set" where
  "group_procs cc = {p. Proc p \<in> set (cc_childs cc)}"

definition deleted :: "addr \<Rightarrow> child_config \<Rightarrow> server \<Rightarrow> server" where
  "deleted a cc s =
     s\<lparr>child_config_list := remove1 a (child_config_list s),
       child_config_hash := uvstrhash_remove (child_config_hash s) (cc_key a cc),
       procs := detach (group_procs cc) (procs s),
       cfgs := (cfgs s)(a := None)\<rparr>"

lemma detach_sel:
  assumes "detach P ps q = Some r"
  obtains r0 where "ps q = Some r0" "p_pid r = p_pid r0" "p_instance r = p_instance r0"
    "p_child_config r = (if q \<in> P then None else p_child_config r0)"
  using assms by (cases "ps q") (auto simp: detach_def split: if_splits)

lemma detach_pid: "map_option p_pid (detach P ps q) = map_option p_pid (ps q)"
  by (cases "ps q") (auto simp: detach_def)

lemma pid_entries_detach: "pid_entries (detach P ps) = pid_entries ps"
proof (rule set_eqI)
  fix e :: "32 word \<times> addr"
  have "(\<exists>r. detach P ps q = Some r \<and> w = word_of_int (p_pid r)) \<longleftrightarrow>
      (\<exists>r. ps q = Some r \<and> w = word_of_int (p_pid r))" for w :: "32 word" and q
    using detach_pid [of P ps q] by (cases "ps q"; cases "detach P ps q") auto
  then show "e \<in> pid_entries (detach P ps) \<longleftrightarrow> e \<in> pid_entries ps"
    by (cases e) (simp add: in_pid_entries)
qed

lemma remove_first_group_keys:
  "distinct as \<Longrightarrow>
   remove_first (\<lambda>e. same_ptr (fst e) (cc_key a cc)) (group_keys m as) = group_keys (m(a := None)) (remove1 a as)"
  by (induction as) (auto simp: group_keys_def same_ptr_def cc_key_def)

lemma dom_detach [simp]: "dom (detach P ps) = dom ps"
  by (auto simp: detach_def split: if_splits)

lemma inv_deleted:
  assumes s: "srv_inv s" and a: "cfgs s a = Some cc"
  shows "srv_inv (deleted a cc s)"
proof -
  let ?t = "deleted a cc s"
  have reg: "uvstrhash_holds (child_config_hash s) (group_keys (cfgs s) (child_config_list s))"
    "distinct (child_config_list s)" "set (child_config_list s) = dom (cfgs s)"
    using s by (simp_all add: srv_inv_def registry_ok_def)
  have "uvstrhash_holds (uvstrhash_remove (child_config_hash s) (cc_key a cc))
      (remove_first (\<lambda>e. same_ptr (fst e) (cc_key a cc)) (group_keys (cfgs s) (child_config_list s)))"
  proof (rule ustr.holds_remove [OF reg(1)])
    fix j
    assume "same_ptr j (cc_key a cc)" and "j \<in> fst ` set (group_keys (cfgs s) (child_config_list s))"
    with a show "j = cc_key a cc" by (auto simp: group_keys_def same_ptr_def cc_key_def)
  qed
  then have "registry_ok ?t"
    using reg by (auto simp: registry_ok_def deleted_def remove_first_group_keys)
  moreover have "sizes_ok ?t"
    using inv_sizes [OF s] by (simp add: sizes_ok_def deleted_def)
  moreover have "slots_ok (cfgs ?t) (procs ?t)"
  proof (rule slots_okI)
    fix b c i q
    assume c: "cfgs ?t b = Some c" "i < length (cc_childs c)" "cc_childs c ! i = Proc q"
    then have b: "b \<noteq> a" "cfgs s b = Some c" by (auto simp: deleted_def split: if_splits)
    obtain r where r: "procs s q = Some r" "p_child_config r = Some b" "p_instance r = i"
      by (rule inv_slot_proc [OF s b(2) c(2,3)])
    have "q \<notin> group_procs cc"
    proof
      assume "q \<in> group_procs cc"
      then obtain j where "j < length (cc_childs cc)" "cc_childs cc ! j = Proc q"
        by (auto simp: group_procs_def in_set_conv_nth)
      then show False using inv_slot_proc [OF s a] r b(1) by (metis option.inject)
    qed
    with r show "\<exists>r. procs ?t q = Some r \<and> p_child_config r = Some b \<and> p_instance r = i"
      by (simp add: deleted_def detach_def)
  next
    fix q r b
    assume r: "procs ?t q = Some r" "p_child_config r = Some b"
    then have "detach (group_procs cc) (procs s) q = Some r" by (simp add: deleted_def)
    then obtain r0 where r0: "procs s q = Some r0" "p_instance r = p_instance r0"
      "q \<notin> group_procs cc" "p_child_config r0 = Some b"
      using r(2) by (elim detach_sel) (auto split: if_splits)
    obtain c where c: "cfgs s b = Some c" "p_instance r0 < length (cc_childs c)"
      "cc_childs c ! p_instance r0 = Proc q"
      by (rule inv_proc_group [OF s r0(1,4)])
    have "b \<noteq> a"
    proof
      assume "b = a"
      with c a have "Proc q \<in> set (cc_childs cc)" by (metis nth_mem option.inject)
      with r0(3) show False by (simp add: group_procs_def)
    qed
    with c r0 show "\<exists>c. cfgs ?t b = Some c \<and> p_instance r < length (cc_childs c) \<and>
        cc_childs c ! p_instance r = Proc q"
      by (simp add: deleted_def)
  qed
  moreover have "table_ok (process_hash ?t) (procs ?t)"
    using s by (simp add: srv_inv_def table_ok_def deleted_def pid_entries_detach)
  moreover have "kids_ok ?t"
  proof -
    have "p_pid r \<in> set (kids s)" if "detach (group_procs cc) (procs s) q = Some r" for q r
      using that by (rule detach_sel) (use inv_pids [OF s] in auto)
    then show ?thesis using s by (simp add: srv_inv_def kids_ok_def deleted_def)
  qed
  moreover have "addrs_ok ?t" using s by (simp add: srv_inv_def addrs_ok_def deleted_def)
  ultimately show ?thesis
    using s by (simp add: srv_inv_def deleted_def conns_ok_def subs_live_def conn_live_def)
qed

lemma srv_ok_deleted:
  assumes s: "srv_ok s" and a: "cfgs s a = Some cc"
  shows "srv_ok (deleted a cc s)"
proof -
  have "ran ((cfgs s)(a := None)) \<subseteq> ran (cfgs s)" by (auto simp: ran_def)
  then have "sup_inv (deleted a cc s)"
    using s by (auto simp: srv_ok_def sup_inv_def failed_def acts_def deleted_def)
  then show ?thesis using inv_deleted [OF srv_okD(1) [OF s] a] by (simp add: srv_ok_def)
qed

lemma slot_ptrs_all:
  assumes "srv_inv s" and "cfgs s a = Some cc"
  shows "set (slot_ptrs cc [0 ..< nat (cc_instances cc)]) = group_procs cc"
proof -
  have "nat (cc_instances cc) = length (cc_childs cc)" using inv_sizes [OF assms] by simp
  then show ?thesis by (fastforce simp: slot_ptrs_in group_procs_def in_set_conv_nth [of "Proc p" for p])
qed

text \<open>What \<open>c_dele\<close> does to a group that exists, before the reply goes out.\<close>

lemma c_dele_group:
  assumes s: "srv_ok s" and a: "cfgs s a = Some cc"
    and Q: "\<And>s'. full s' = full (deleted a cc s) \<Longrightarrow>
      post (answer E con (pids_json (group_pids s cc [0 ..< nat (cc_instances cc)])) s') Q dead_ok"
  shows "post (bindO (child_config_remove a s) (\<lambda>s.
           deref cfgs a s (\<lambda>cc.
           bindO (slog E (''[dele] '' @ fmt_s (cc_name cc) @ [newline]) s) (\<lambda>s.
           bindO (slot_loop (\<lambda>p pr s. set_proc p (pr\<lparr>p_child_config := None\<rparr>) s) a
                    [0 ..< nat (cc_instances cc)] s) (\<lambda>(pids, s).
           bindO (send_status_update_notification E (fmt_s (cc_name cc)) STATUS_DELETE s) (\<lambda>s.
           answer E con (pids_json pids) (child_config_free a s)))))))
    Q dead_ok"
proof -
  let ?s1 = "s\<lparr>child_config_list := remove1 a (child_config_list s),
      child_config_hash := uvstrhash_remove (child_config_hash s) (cc_key a cc)\<rparr>"
  let ?xs = "[0 ..< nat (cc_instances cc)]"
  have live: "subs_live ?s1"
    using inv_subs_live [OF srv_okD(1) [OF s]] by (simp add: subs_live_def conn_live_def)
  have rest: "post (slot_loop (\<lambda>p pr s. set_proc p (pr\<lparr>p_child_config := None\<rparr>) s) a ?xs s2)
      (\<lambda>x. post (case x of (pids, s) \<Rightarrow>
         bindO (send_status_update_notification E (fmt_s (cc_name cc)) STATUS_DELETE s) (\<lambda>s.
           answer E con (pids_json pids) (child_config_free a s))) Q dead_ok) dead_ok"
    if f2: "full s2 = full ?s1" for s2
  proof (rule slot_loop_ok [OF _ s a _ _ _ slots_range [OF srv_okD(1) [OF s] a]])
    have cfgs2: "cfgs s2 = cfgs s" and procs2: "procs s2 = procs s"
      using core_eqD(1,4) [OF full_core [OF f2]] by simp_all
    show "cfgs s2 = cfgs s" "procs s2 = procs s" by (fact cfgs2 procs2)+
    show "acts_grow s s2" using full_acts [OF f2] by (simp add: acts_grow_def acts_def)
    show "cfgs (set_proc p (pr\<lparr>p_child_config := None\<rparr>) u) = cfgs u \<and>
        (\<forall>q. map_option p_pid (procs (set_proc p (pr\<lparr>p_child_config := None\<rparr>) u) q) =
             map_option p_pid (procs u q)) \<and>
        acts_grow u (set_proc p (pr\<lparr>p_child_config := None\<rparr>) u)"
      if "procs u p = Some pr" for p pr u
      using that by simp
    have live2: "\<forall>p \<in> set (slot_ptrs cc ?xs). procs s2 p \<noteq> None"
    proof
      fix p
      assume "p \<in> set (slot_ptrs cc ?xs)"
      then obtain x where "x < length (cc_childs cc)" "cc_childs cc ! x = Proc p"
        using slots_range [OF srv_okD(1) [OF s] a] by (auto simp: slot_ptrs_in)
      then show "procs s2 p \<noteq> None"
        unfolding procs2 using inv_slot_proc [OF srv_okD(1) [OF s] a] by (metis option.distinct(1))
    qed
    let ?s3 = "s2\<lparr>procs := detach (group_procs cc) (procs s)\<rparr>"
    have fold: "fold (\<lambda>p s. set_proc p ((the (procs s p))\<lparr>p_child_config := None\<rparr>) s) (slot_ptrs cc ?xs) s2
        = ?s3"
      using fold_detach [OF live2] slot_ptrs_all [OF srv_okD(1) [OF s] a] procs2 by simp
    have live3: "subs_live ?s3"
      using subs_live_core [OF full_core [OF f2]] live by (simp add: subs_live_def conn_live_def)
    have "post (send_status_update_notification E (fmt_s (cc_name cc)) STATUS_DELETE ?s3)
        (\<lambda>s. post (answer E con (pids_json (group_pids s0 cc ?xs)) (child_config_free a s)) Q dead_ok) dead_ok"
      if s0: "s0 = s" for s0
    proof (rule send_status_update_notification_step [OF refl])
      fix s4
      assume f4: "full s4 = full ?s3"
      have "full (child_config_free a s4) = (full s4)\<lparr>cfgs := (cfgs s4)(a := None)\<rparr>"
        by (simp add: full_def core_def acts_def child_config_free_def)
      also have "\<dots> = (full ?s3)\<lparr>cfgs := (cfgs s)(a := None)\<rparr>"
        using f4 core_eqD(1) [OF full_core [OF f4]] cfgs2 by simp
      also have "\<dots> = (full s2)\<lparr>procs := detach (group_procs cc) (procs s), cfgs := (cfgs s)(a := None)\<rparr>"
        by (simp add: full_def core_def acts_def)
      also have "\<dots> = full (deleted a cc s)"
        unfolding f2 by (simp add: full_def core_def acts_def deleted_def)
      finally show "post (answer E con (pids_json (group_pids s0 cc ?xs)) (child_config_free a s4)) Q dead_ok"
        unfolding s0 by (rule Q)
    next
      fix h t
      assume "out_dead True ?s3 h t"
      with live3 show "dead_ok h t" by (auto simp: out_dead_def)
    qed
    from this [OF refl] show "post (case (map (pid_of s) (slot_ptrs cc ?xs),
          fold (\<lambda>p s. set_proc p ((the (procs s p))\<lparr>p_child_config := None\<rparr>) s) (slot_ptrs cc ?xs) s2) of
        (pids, s) \<Rightarrow>
         bindO (send_status_update_notification E (fmt_s (cc_name cc)) STATUS_DELETE s) (\<lambda>s.
           answer E con (pids_json pids) (child_config_free a s))) Q dead_ok"
      unfolding fold by (simp add: post_bind group_pids_def)
  qed
  have "post (bindO (slog E (''[dele] '' @ fmt_s (cc_name cc) @ [newline]) ?s1) (\<lambda>s.
           bindO (slot_loop (\<lambda>p pr s. set_proc p (pr\<lparr>p_child_config := None\<rparr>) s) a ?xs s) (\<lambda>(pids, s).
           bindO (send_status_update_notification E (fmt_s (cc_name cc)) STATUS_DELETE s) (\<lambda>s.
           answer E con (pids_json pids) (child_config_free a s))))) Q dead_ok"
    unfolding post_bind
    by (rule aborted_dead, rule slog_live_full [OF live]) (rule rest [unfolded post_bind])
  with a show ?thesis by (simp add: child_config_remove_def deref_def)
qed

interpretation dele_cmd: safe_handler c_dele
proof
  fix E s con buf
  assume s: "srv_ok s" "conn_live con s"
  show "serves s (c_dele E con buf s)"
    unfolding c_dele_def
  proof (rule serves_with_object [OF s], rule serves_with_name [OF s])
    fix obj n
    assume n: "is_cstr n"
    show "serves s (case child_config_find_by_name n s of
         None \<Rightarrow> reply E con False ''name not found'' True s
       | Some a \<Rightarrow>
           bindO (child_config_remove a s) (\<lambda>s.
           deref cfgs a s (\<lambda>cc.
           bindO (slog E (''[dele] '' @ fmt_s (cc_name cc) @ [newline]) s) (\<lambda>s.
           bindO (slot_loop (\<lambda>p pr s. set_proc p (pr\<lparr>p_child_config := None\<rparr>) s) a
                    [0 ..< nat (cc_instances cc)] s) (\<lambda>(pids, s).
           bindO (send_status_update_notification E (fmt_s (cc_name cc)) STATUS_DELETE s) (\<lambda>s.
           answer E con (pids_json pids) (child_config_free a s)))))))"
    proof (cases "child_config_find_by_name n s")
      case None
      with s show ?thesis by (simp add: serves_reply)
    next
      case (Some a)
      obtain cc where a: "cfgs s a = Some cc"
        by (rule find_by_name_Some [OF srv_okD(1) [OF s(1)] n Some])
      have ok: "srv_ok (deleted a cc s)" by (rule srv_ok_deleted [OF s(1) a])
      have "peers (deleted a cc s) = peers s" "conn_live con (deleted a cc s)"
        using s(2) by (simp_all add: peers_def deleted_def conn_live_def)
      then have "serves s (answer E con obj s')" if f: "full s' = full (deleted a cc s)" for obj s'
        using ok srv_ok_full [OF f] peers_full [OF f] conn_live_full [OF f]
        by (simp add: serves_answer)
      then show ?thesis
        unfolding Some option.case serves_def
        by (intro c_dele_group [OF s(1) a]) (simp add: serves_def)
    qed
  qed
qed

end
