(* ===== verification/Fill.thy ===== *)
theory Fill
  imports Handlers
begin

text \<open>
  Loops that start a process in one slot after the other: \<open>c_spwn\<close>, both loops of
  \<open>c_updt\<close>, and \<open>load_dump\<close>. One rule covers them: every turn changes only the slot it is
  about, and what it leaves there satisfies \<open>P\<close>, or, where \<open>F\<close> allows it, a system call
  failed.
\<close>

lemma spawn_slot:
  assumes E: "fork_fresh E" and s: "srv_inv s" and a: "cfgs s a = Some c" and i: "slot_free c i"
  shows "post (spawn E a i s)
    (\<lambda>(ok, s'). srv_inv s' \<and> front s' = front s \<and> acts_grow s s' \<and>
       (\<exists>sl. cfgs s' = (cfgs s)(a \<mapsto> c\<lparr>cc_childs := (cc_childs c)[i := sl]\<rparr>) \<and>
             (failed s' \<or> (\<exists>p. sl = Proc p)))) (\<lambda>h t. h = Aborted)"
proof (rule post_mono [OF spawn_post [OF E s a i]])
  fix x
  assume x: "case x of (ok, s') \<Rightarrow> srv_inv s' \<and> front s' = front s \<and> spawn_effect a c i s ok s' \<and>
    (ok \<or> os_refuses E (kids s) \<and> failed s') \<and> acts_grow s s'"
  obtain ok s' where x': "x = (ok, s')" by (cases x)
  have "\<exists>sl. cfgs s' = (cfgs s)(a \<mapsto> c\<lparr>cc_childs := (cc_childs c)[i := sl]\<rparr>) \<and>
      (failed s' \<or> (\<exists>p. sl = Proc p))"
  proof (cases ok)
    case True
    with x x' show ?thesis by (auto simp: spawn_effect_def)
  next
    case False
    with x x' a have "cfgs s' = (cfgs s)(a \<mapsto> c\<lparr>cc_childs := (cc_childs c)[i := cc_childs c ! i]\<rparr>)"
      by (auto simp: spawn_effect_def)
    moreover have "failed s'" using False x x' by simp
    ultimately show ?thesis by (intro exI [of _ "cc_childs c ! i"]) blast
  qed
  with x x' show "case x of (ok, s') \<Rightarrow> srv_inv s' \<and> front s' = front s \<and> acts_grow s s' \<and>
       (\<exists>sl. cfgs s' = (cfgs s)(a \<mapsto> c\<lparr>cc_childs := (cc_childs c)[i := sl]\<rparr>) \<and>
             (failed s' \<or> (\<exists>p. sl = Proc p)))" by simp
qed simp

definition fills ::
    "bool \<Rightarrow> (slot \<Rightarrow> bool) \<Rightarrow> addr \<Rightarrow> child_config \<Rightarrow> nat \<Rightarrow> nat \<Rightarrow> server \<Rightarrow> server \<Rightarrow> bool" where
  "fills F P a cc k n s s' \<longleftrightarrow>
     srv_inv s' \<and> front s' = front s \<and> acts_grow s s' \<and>
     (\<exists>chs. cfgs s' = (cfgs s)(a \<mapsto> cc\<lparr>cc_childs := chs\<rparr>) \<and> length chs = length (cc_childs cc) \<and>
        (\<forall>j. j < k \<or> n \<le> j \<longrightarrow> chs ! j = cc_childs cc ! j) \<and>
        (F \<and> failed s' \<or> (\<forall>j. k \<le> j \<and> j < n \<longrightarrow> P (chs ! j))))"

lemma fill_loop:
  assumes step: "\<And>i t c. srv_inv t \<Longrightarrow> acts_grow s t \<Longrightarrow> cfgs t a = Some c \<Longrightarrow>
      c = cc\<lparr>cc_childs := cc_childs c\<rparr> \<Longrightarrow> k \<le> i \<Longrightarrow> i < n \<Longrightarrow> i < length (cc_childs c) \<Longrightarrow>
      cc_childs c ! i = cc_childs cc ! i \<Longrightarrow>
      post (body i t) (\<lambda>t'. srv_inv t' \<and> front t' = front t \<and> acts_grow t t' \<and>
        (\<exists>sl. cfgs t' = (cfgs t)(a \<mapsto> c\<lparr>cc_childs := (cc_childs c)[i := sl]\<rparr>) \<and>
              (F \<and> failed t' \<or> P sl))) dead_ok"
    and s: "srv_inv s" "cfgs s a = Some cc" and n: "n \<le> length (cc_childs cc)"
  shows "post (foldO body [k ..< n] s) (fills F P a cc k n s) dead_ok"
proof (cases "k \<le> n")
  case False
  with s show ?thesis
    by (auto simp: fills_def intro!: exI [of _ "cc_childs cc"])
next
  case True
  let ?I = "\<lambda>ys. fills F P a cc k (k + length ys) s"
  have "post (foldO body [k ..< n] s) (?I [k ..< n]) dead_ok"
  proof (rule foldO_prefix_inv)
    show "?I [] s" using s by (auto simp: fills_def intro!: exI [of _ "cc_childs cc"])
  next
    fix ys x zs t
    assume split: "[k ..< n] = ys @ x # zs" and I: "?I ys t"
    have "length ys < length [k ..< n]" unfolding split by simp
    then have l: "k + length ys < n" by simp
    have "x = [k ..< n] ! length ys" unfolding split by simp
    with l have x: "x = k + length ys" by simp
    obtain chs where t: "srv_inv t" "front t = front s" "acts_grow s t"
      and chs: "cfgs t = (cfgs s)(a \<mapsto> cc\<lparr>cc_childs := chs\<rparr>)" "length chs = length (cc_childs cc)"
        "\<forall>j. j < k \<or> x \<le> j \<longrightarrow> chs ! j = cc_childs cc ! j"
        "F \<and> failed t \<or> (\<forall>j. k \<le> j \<and> j < x \<longrightarrow> P (chs ! j))"
      using I unfolding fills_def x by blast
    have xl: "x < length chs" using l n chs(2) x by simp
    have "post (body x t) (\<lambda>t'. srv_inv t' \<and> front t' = front t \<and> acts_grow t t' \<and>
        (\<exists>sl. cfgs t' = (cfgs t)(a \<mapsto> cc\<lparr>cc_childs := chs[x := sl]\<rparr>) \<and> (F \<and> failed t' \<or> P sl))) dead_ok"
      using step [OF t(1,3), of "cc\<lparr>cc_childs := chs\<rparr>" x] chs xl l x by simp
    then show "post (body x t) (?I (ys @ [x])) dead_ok"
    proof (rule post_mono)
      fix t'
      assume "srv_inv t' \<and> front t' = front t \<and> acts_grow t t' \<and>
        (\<exists>sl. cfgs t' = (cfgs t)(a \<mapsto> cc\<lparr>cc_childs := chs[x := sl]\<rparr>) \<and> (F \<and> failed t' \<or> P sl))"
      then obtain sl where t': "srv_inv t'" "front t' = front t" "acts_grow t t'"
        "cfgs t' = (cfgs t)(a \<mapsto> cc\<lparr>cc_childs := chs[x := sl]\<rparr>)" "F \<and> failed t' \<or> P sl" by blast
      have "F \<and> failed t' \<or> (\<forall>j. k \<le> j \<and> j < Suc x \<longrightarrow> P (chs[x := sl] ! j))"
        using chs(4) t'(5) acts_grow_failed [OF t'(3)] xl by (auto simp: less_Suc_eq nth_list_update)
      moreover have "\<forall>j. j < k \<or> Suc x \<le> j \<longrightarrow> chs[x := sl] ! j = cc_childs cc ! j"
        using chs(3) x by (simp add: nth_list_update)
      moreover have "acts_grow s t'" by (rule acts_grow_trans [OF t(3) t'(3)])
      ultimately have "fills F P a cc k (Suc x) s t'"
        unfolding fills_def using t t' chs(1,2) by (intro conjI exI [of _ "chs[x := sl]"]) simp_all
      then show "?I (ys @ [x]) t'" by (simp add: x)
    qed simp
  qed
  with True show ?thesis by simp
qed

text \<open>The plain loop: start a process in every slot.\<close>

abbreviation is_proc :: "slot \<Rightarrow> bool" where "is_proc sl \<equiv> (\<exists>p. sl = Proc p)"

lemma spawn_loop:
  assumes E: "fork_fresh E" and s: "srv_inv s" "cfgs s a = Some cc"
    and free: "\<forall>sl \<in> set (cc_childs cc). \<not> is_proc sl"
  shows "post (foldO (\<lambda>i s. bindO (spawn E a i s) (\<lambda>(ok, s). Live s)) [0 ..< length (cc_childs cc)] s)
    (fills True is_proc a cc 0 (length (cc_childs cc)) s) dead_ok"
proof (rule fill_loop [where F = True, OF _ s order_refl])
  fix i t c
  assume t: "srv_inv t" "cfgs t a = Some c" "i < length (cc_childs c)"
    "cc_childs c ! i = cc_childs cc ! i" "i < length (cc_childs cc)"
  then have "slot_free c i" using free unfolding slot_free_def by (metis nth_mem)
  from aborted_dead [OF spawn_slot [OF E t(1,2) this]]
  show "post (bindO (spawn E a i t) (\<lambda>(ok, s). Live s)) (\<lambda>t'. srv_inv t' \<and> front t' = front t \<and>
      acts_grow t t' \<and> (\<exists>sl. cfgs t' = (cfgs t)(a \<mapsto> c\<lparr>cc_childs := (cc_childs c)[i := sl]\<rparr>) \<and>
        (True \<and> failed t' \<or> is_proc sl))) dead_ok"
    unfolding post_bind by (rule post_mono) (simp_all split: prod.splits)
qed

lemma fills_sup:
  assumes "fills True is_proc a cc 0 (length (cc_childs cc)) s s'"
    and "\<And>b c. b \<noteq> a \<Longrightarrow> cfgs s b = Some c \<Longrightarrow> \<not> failed s \<Longrightarrow> slots_up c"
  shows "sup_inv s'"
proof (cases "failed s'")
  case True
  then show ?thesis by (simp add: sup_inv_def)
next
  case False
  then have "\<not> failed s" using assms(1) acts_grow_failed unfolding fills_def by blast
  obtain chs where chs: "cfgs s' = (cfgs s)(a \<mapsto> cc\<lparr>cc_childs := chs\<rparr>)"
    "length chs = length (cc_childs cc)" "\<forall>j < length chs. is_proc (chs ! j)"
    using assms(1) False by (auto simp: fills_def)
  have "slots_up c" if "cfgs s' b = Some c" for b c
  proof (cases "b = a")
    case True
    with that chs have c: "c = cc\<lparr>cc_childs := chs\<rparr>" by simp
    moreover have "is_proc sl" if "sl \<in> set chs" for sl
      using that chs(3) by (metis in_set_conv_nth)
    ultimately show ?thesis by (force simp: slots_up_def)
  next
    case b: False
    with that chs(1) have "cfgs s b = Some c" by simp
    then show ?thesis using assms(2) b \<open>\<not> failed s\<close> by blast
  qed
  then show ?thesis by (auto simp: sup_inv_def ran_def)
qed

end
