(* ===== verification/Start.thy ===== *)
theory Start
  imports Fill
begin

text \<open>
  \<open>c_dump\<close>, \<open>c_exit\<close> and \<open>c_spwn\<close>: a dump leaves the groups alone and, if no call fails,
  puts the text of every group into a new file; a start is rejected without a trace or
  creates the group and fills its slots.
\<close>

section \<open>dump\<close>

definition dump_frame :: "server \<Rightarrow> server \<Rightarrow> bool" where
  "dump_frame s s' \<longleftrightarrow>
     (\<exists>n f. core s' = (core s)\<lparr>dump_cnt := n, files := f\<rparr>) \<and> acts_grow s s'"

lemma core_dump [simp]: "core (s\<lparr>dump_cnt := n\<rparr>) = (core s)\<lparr>dump_cnt := n\<rparr>"
  "core (s\<lparr>files := f\<rparr>) = (core s)\<lparr>files := f\<rparr>"
  by (simp_all add: core_def)

lemma dump_frame_eqD:
  assumes "dump_frame s s'"
  shows "cfgs s' = cfgs s" "procs s' = procs s" "child_config_list s' = child_config_list s"
    "child_config_hash s' = child_config_hash s" "process_hash s' = process_hash s"
    "kids s' = kids s" "next_addr s' = next_addr s" "zombies s' = zombies s" "now s' = now s"
    "client_con_list s' = client_con_list s" "subscription_list s' = subscription_list s"
    "auto_dump s' = auto_dump s" "acts_grow s s'"
    "map_option (\<lambda>c. c\<lparr>c_out := []\<rparr>) (conns s' a) = map_option (\<lambda>c. c\<lparr>c_out := []\<rparr>) (conns s a)"
proof -
  obtain n f where e: "core s' = (core s)\<lparr>dump_cnt := n, files := f\<rparr>"
    using assms by (auto simp: dump_frame_def)
  show "acts_grow s s'" using assms by (simp add: dump_frame_def)
  show "cfgs s' = cfgs s" using arg_cong [OF e, of cfgs] by (simp add: core_def)
  show "procs s' = procs s" using arg_cong [OF e, of procs] by (simp add: core_def)
  show "child_config_list s' = child_config_list s"
    using arg_cong [OF e, of child_config_list] by (simp add: core_def)
  show "child_config_hash s' = child_config_hash s"
    using arg_cong [OF e, of child_config_hash] by (simp add: core_def)
  show "process_hash s' = process_hash s" using arg_cong [OF e, of process_hash] by (simp add: core_def)
  show "kids s' = kids s" using arg_cong [OF e, of kids] by (simp add: core_def)
  show "next_addr s' = next_addr s" using arg_cong [OF e, of next_addr] by (simp add: core_def)
  show "zombies s' = zombies s" using arg_cong [OF e, of zombies] by (simp add: core_def)
  show "now s' = now s" using arg_cong [OF e, of now] by (simp add: core_def)
  show "client_con_list s' = client_con_list s"
    using arg_cong [OF e, of client_con_list] by (simp add: core_def)
  show "subscription_list s' = subscription_list s"
    using arg_cong [OF e, of subscription_list] by (simp add: core_def)
  show "auto_dump s' = auto_dump s" using arg_cong [OF e, of auto_dump] by (simp add: core_def)
  show "map_option (\<lambda>c. c\<lparr>c_out := []\<rparr>) (conns s' a) = map_option (\<lambda>c. c\<lparr>c_out := []\<rparr>) (conns s a)"
    using fun_cong [OF arg_cong [OF e, of conns], of a] by (simp add: core_def)
qed

lemma dump_frame_peers:
  assumes "dump_frame s s'"
  shows "peers s' = peers s"
  using dump_frame_eqD(8,9,10,14) [OF assms] by (auto simp: peers_def)

lemma dump_frame_inv:
  assumes f: "dump_frame s s'" and s: "srv_inv s"
  shows "srv_inv s'"
proof -
  have "subs_live s'"
    using s dump_frame_eqD(11) [OF f] peers_conn_live [OF dump_frame_peers [OF f]]
    by (simp add: srv_inv_def conns_ok_def subs_live_def)
  moreover have "dom (conns s') = dom (conns s)"
    using peers_conn_live [OF dump_frame_peers [OF f]] by (auto simp: conn_live_def dom_def)
  ultimately show ?thesis
    using s dump_frame_eqD [OF f]
    by (simp add: srv_inv_def registry_ok_def sizes_ok_def kids_ok_def addrs_ok_def conns_ok_def)
qed

lemma dump_frame_ok:
  assumes f: "dump_frame s s'" and s: "srv_ok s"
  shows "srv_ok s'"
  using dump_frame_inv [OF f srv_okD(1) [OF s]]
    sup_inv_same [OF srv_okD(2) [OF s] dump_frame_eqD(13,1) [OF f]]
  by (simp add: srv_ok_def)

text \<open>The text of a dump.\<close>

definition dump_lines :: "env \<Rightarrow> server \<Rightarrow> addr list \<Rightarrow> string" where
  "dump_lines E s as =
     concat (map (\<lambda>a. child_config_serialize (to_json_string E) (the (cfgs s a)) @ '','' @ [newline]) as)"

definition dump_text :: "env \<Rightarrow> server \<Rightarrow> string" where
  "dump_text E s = ''['' @ [newline] @ dump_lines E s (child_config_list s) @ '']'' @ [newline]"

lemma fprintf_eval:
  assumes "fprintf E fo str s = (ok, fo', s')"
  shows "core s' = core s" "acts_grow s s'" "ok \<longrightarrow> fo' = fo @ str \<and> s' = ticked s" "ok \<or> failed s'"
    "ok = os_fprintf E (tick s)"
  using assms by (auto simp: fprintf_def split: if_splits)

lemma dump_groups_eval:
  "set as \<subseteq> dom (cfgs s) \<Longrightarrow>
   \<exists>ok fo' s'. dump_groups E as fo s = Live (ok, fo', s') \<and> core s' = core s \<and> acts_grow s s' \<and>
     (ok \<longrightarrow> fo' = fo @ dump_lines E s as) \<and> (ok \<or> failed s') \<and>
     ((\<forall>n. os_fprintf E n) \<longrightarrow> ok \<and> acts s' = acts s)"
proof (induction as arbitrary: fo s)
  case Nil
  have "dump_groups E [] fo s = Live (True, fo, s)" by simp
  then show ?case by (intro exI [of _ True] exI [of _ fo] exI [of _ s]) (simp add: dump_lines_def)
next
  case (Cons a as)
  then obtain cc where a: "cfgs s a = Some cc" by auto
  let ?ptr = "child_config_serialize (to_json_string E) cc @ '','' @ [newline]"
  obtain ok fo1 s1 where f: "fprintf E fo ?ptr s = (ok, fo1, s1)" by (cases "fprintf E fo ?ptr s") auto
  note fp = fprintf_eval [OF f]
  show ?case
  proof (cases ok)
    case False
    with a f fp show ?thesis by (auto simp: deref_def Let_def)
  next
    case True
    have "cfgs s1 = cfgs s" using core_eqD(1) [OF fp(1)] .
    then have "dump_lines E s1 = dump_lines E s" by (simp add: dump_lines_def fun_eq_iff)
    moreover have "set as \<subseteq> dom (cfgs s1)" using Cons.prems \<open>cfgs s1 = cfgs s\<close> by simp
    ultimately obtain ok' fo' s' where IH: "dump_groups E as fo1 s1 = Live (ok', fo', s')"
      "core s' = core s1" "acts_grow s1 s'" "ok' \<longrightarrow> fo' = fo1 @ dump_lines E s as" "ok' \<or> failed s'"
      "(\<forall>n. os_fprintf E n) \<longrightarrow> ok' \<and> acts s' = acts s1"
      using Cons.IH by metis
    have "fo1 = fo @ ?ptr" "acts s1 = acts s" using fp True by simp_all
    moreover have "dump_lines E s (a # as) = ?ptr @ dump_lines E s as"
      using a by (simp add: dump_lines_def)
    moreover have "dump_groups E (a # as) fo s = dump_groups E as fo1 s1"
      using a f True by (simp add: deref_def Let_def)
    ultimately show ?thesis
      using IH fp acts_grow_trans [OF fp(2) IH(3)] by auto
  qed
qed

lemma registry_dom: "srv_inv s \<Longrightarrow> set (child_config_list s) = dom (cfgs s)"
  by (simp add: srv_inv_def registry_ok_def)

lemma dump_frame_core:
  "core s' = (core s)\<lparr>dump_cnt := n, files := f\<rparr> \<Longrightarrow> acts_grow s s' \<Longrightarrow> dump_frame s s'"
  by (auto simp: dump_frame_def)

lemma dump_frame_full:
  assumes "dump_frame s t" and "full t' = full t"
  shows "dump_frame s t'"
proof -
  obtain n f where "core t = (core s)\<lparr>dump_cnt := n, files := f\<rparr>" "acts_grow s t"
    using assms(1) by (auto simp: dump_frame_def)
  then show ?thesis
    using full_core [OF assms(2)] acts_grow_eq [OF full_acts [OF assms(2)]]
    by (intro dump_frame_core [where n = n and f = f]) simp_all
qed

lemma reply_dump:
  assumes s: "srv_inv s" and con: "conn_live con s" and t: "dump_frame s t"
  shows "post (reply E con code msg True t) (\<lambda>(cr, s'). cr \<and> dump_frame s s') dead_ok"
  unfolding reply_def post_bind
proof (rule aborted_dead, rule send_status_msg_full)
  show "srv_inv t" by (rule dump_frame_inv [OF t s])
  show "conn_live con t" using peers_conn_live [OF dump_frame_peers [OF t]] con by simp
  show "post (Live (True, t')) (\<lambda>(cr, s'). cr \<and> dump_frame s s') dead_ok" if "full t' = full t" for t'
    using dump_frame_full [OF t that] by simp
qed

text \<open>
  \<open>c_dump\<close> keeps everything but the files and the counter. If every call succeeds and the
  name is free, the new file has the text of the dump and the temporary file is gone.
\<close>

lemma dump_frame_files:
  assumes "dump_frame s t"
  shows "dump_frame s (t\<lparr>files := f\<rparr>)"
proof -
  obtain n g where "core t = (core s)\<lparr>dump_cnt := n, files := g\<rparr>" "acts_grow s t"
    using assms by (auto simp: dump_frame_def)
  then show ?thesis
    by (intro dump_frame_core [where n = n and f = f]) (simp_all add: acts_grow_def acts_def)
qed

lemma dump_frame_cnt: "dump_frame s (s\<lparr>dump_cnt := n\<rparr>)"
  unfolding dump_frame_def
  by (intro conjI exI [of _ n] exI [of _ "files s"]) (simp_all add: acts_grow_def acts_def core_def)

lemma dump_frame_emit: "dump_frame s t \<Longrightarrow> dump_frame s (emit e t)"
  by (auto simp: dump_frame_def)

lemma dump_frame_ticked: "dump_frame s t \<Longrightarrow> dump_frame s (ticked t)"
  by (auto simp: dump_frame_def)

lemma dump_frame_step: "dump_frame s t \<Longrightarrow> core t' = core t \<Longrightarrow> acts_grow t t' \<Longrightarrow> dump_frame s t'"
  using acts_grow_trans by (auto simp: dump_frame_def)

lemmas dump_frame_intros = dump_frame_files dump_frame_cnt dump_frame_emit dump_frame_ticked

lemma dump_finish_post:
  assumes s: "srv_inv s" and con: "conn_live con s" and t: "dump_frame s t"
  shows "post (dump_finish E con fname tmp fo t) (\<lambda>(cr, s'). cr \<and> dump_frame s s') dead_ok"
proof -
  obtain ok fo1 t1 where f: "fprintf E fo ('']'' @ [newline]) t = (ok, fo1, t1)"
    by (cases "fprintf E fo ('']'' @ [newline]) t") auto
  note fp = fprintf_eval [OF f]
  have t1: "dump_frame s t1" by (rule dump_frame_step [OF t fp(1,2)])
  let ?t2 = "t1\<lparr>files := (files t1)(tmp \<mapsto> fo1)\<rparr>"
  have t2: "dump_frame s ?t2" by (rule dump_frame_files [OF t1])
  show ?thesis
  proof (cases ok)
    case False
    have "post (send_status_msg E con False ''failure'' ?t2) (\<lambda>u. dead_ok Undefined u) dead_ok"
    proof (rule aborted_dead, rule send_status_msg_full)
      show "srv_inv ?t2" by (rule dump_frame_inv [OF t2 s])
      show "conn_live con ?t2" using peers_conn_live [OF dump_frame_peers [OF t2]] con by simp
      show "dead_ok Undefined u" if "full u = full ?t2" for u
        using failed_full [OF that] fp(4) False by (simp add: failed_def acts_def)
    qed
    with False f show ?thesis by (simp add: dump_finish_def Let_def post_bind)
  next
    case True
    with f show ?thesis
      by (simp add: dump_finish_def Let_def reply_dump [OF s con] dump_frame_intros t1)
  qed
qed

lemma c_dump_post:
  assumes s: "srv_inv s" and con: "conn_live con s"
  shows "post (c_dump E con buf s) (\<lambda>(cr, s'). cr \<and> dump_frame s s') dead_ok"
proof (cases "PATH_MAX \<le> length (dump_name E s) \<or> PATH_MAX \<le> length (''tmp.'' @ dump_name E s) \<or>
    \<not> os_open E (tick s)")
  case True
  then show ?thesis
    by (auto simp: c_dump_def Let_def intro!: reply_dump [OF s con] dump_frame_intros)
next
  case False
  let ?s0 = "s\<lparr>dump_cnt := to_int (dump_cnt s + 1)\<rparr>"
  obtain ok fo1 t1 where f: "fprintf E [] (''['' @ [newline]) (ticked ?s0) = (ok, fo1, t1)"
    by (cases "fprintf E [] (''['' @ [newline]) (ticked ?s0)") auto
  note fp = fprintf_eval [OF f]
  have t1: "dump_frame s t1"
    by (rule dump_frame_step [OF dump_frame_ticked [OF dump_frame_cnt] fp(1,2)])
  have "set (child_config_list t1) \<subseteq> dom (cfgs t1)"
    using registry_dom [OF dump_frame_inv [OF t1 s]] by simp
  then obtain ok' fo' t2 where g: "dump_groups E (child_config_list t1) fo1 t1 = Live (ok', fo', t2)"
    "core t2 = core t1" "acts_grow t1 t2"
    using dump_groups_eval by metis
  have t2: "dump_frame s t2" by (rule dump_frame_step [OF t1 g(2,3)])
  have "c_dump E con buf s =
      (if \<not> ok' then reply E con False ''failure'' True
                   (t2\<lparr>files := (files t2)(''tmp.'' @ dump_name E s \<mapsto> fo')\<rparr>)
       else dump_finish E con (dump_name E s) (''tmp.'' @ dump_name E s) fo' t2)"
    using False f g(1) by (simp add: c_dump_def Let_def)
  then show ?thesis
    using reply_dump [OF s con dump_frame_files [OF t2]] dump_finish_post [OF s con t2] by simp
qed

interpretation dump_cmd: safe_handler c_dump
proof
  fix E s con buf
  assume s: "srv_ok s" "conn_live con s"
  show "serves s (c_dump E con buf s)"
    unfolding serves_def
    by (rule post_mono [OF c_dump_post [OF srv_okD(1) [OF s(1)] s(2)]])
      (use dump_frame_ok s(1) dump_frame_peers in auto)
qed

section \<open>exit\<close>

lemma c_exit_ends:
  assumes s: "srv_ok s" "conn_live con s" and x: "allow_exit s"
  shows "post (c_exit E con buf s) Q dead_ok"
proof -
  have bye: "post (bindO (slog E m t) (\<lambda>s. Dead (Exited 0) s)) Q dead_ok"
    if "srv_inv t" for t m and Q :: "bool \<times> server \<Rightarrow> bool"
    unfolding post_bind by (rule aborted_dead, rule slog_full [OF that]) simp
  have "post (send_status_msg E con True ''exiting'' s)
      (\<lambda>s. post (bindO (slog E m s) (\<lambda>s. Dead (Exited 0) s)) Q dead_ok) dead_ok"
    for m and Q :: "bool \<times> server \<Rightarrow> bool"
    by (rule aborted_dead, rule send_status_msg_full [OF srv_okD(1) [OF s(1)] s(2)], rule bye)
      (use inv_core full_core srv_okD(1) [OF s(1)] in blast)
  moreover have "post (c_dump E con [] s)
      (\<lambda>x. post (case x of (cr, s) \<Rightarrow> bindO (slog E m s) (\<lambda>s. Dead (Exited 0) s)) Q dead_ok) dead_ok"
    for m and Q :: "bool \<times> server \<Rightarrow> bool"
    by (rule post_mono [OF c_dump_post [OF srv_okD(1) [OF s(1)] s(2)]])
      (use bye dump_frame_inv srv_okD(1) [OF s(1)] in auto)
  ultimately show ?thesis
    using x by (simp add: c_exit_def post_bind case_prod_unfold)
qed

interpretation exit_cmd: safe_handler c_exit
proof
  fix E s con buf
  assume s: "srv_ok s" "conn_live con s"
  show "serves s (c_exit E con buf s)"
  proof (cases "allow_exit s")
    case False
    with s show ?thesis by (simp add: c_exit_def serves_reply)
  next
    case True
    with c_exit_ends [OF s] show ?thesis by (simp add: serves_def)
  qed
qed

section \<open>start\<close>

text \<open>The group as \<open>c_spwn\<close> creates it.\<close>

definition created :: "child_config \<Rightarrow> server \<Rightarrow> server" where
  "created cc s =
     s\<lparr>next_addr := Suc (next_addr s),
       cfgs := (cfgs s)(next_addr s \<mapsto> cc),
       child_config_list := next_addr s # child_config_list s,
       child_config_hash := uvstrhash_insert (child_config_hash s) (cc_key (next_addr s) cc) (next_addr s)\<rparr>"

lemma next_addr_fresh:
  assumes "srv_inv s"
  shows "cfgs s (next_addr s) = None" "procs s (next_addr s) = None" "conns s (next_addr s) = None"
  using assms unfolding srv_inv_def addrs_ok_def by (metis domIff less_irrefl)+

lemma group_keys_other: "a \<notin> set as \<Longrightarrow> group_keys (m(a \<mapsto> cc)) as = group_keys m as"
  by (auto simp: group_keys_def)

lemma inv_created:
  assumes s: "srv_inv s" and wf: "config_wf cc" "0 \<le> cc_instances cc"
    and childs: "cc_childs cc = replicate (nat (cc_instances cc)) Null"
  shows "srv_inv (created cc s)"
proof -
  let ?a = "next_addr s" and ?t = "created cc s"
  note fresh = next_addr_fresh [OF s]
  have reg: "uvstrhash_holds (child_config_hash s) (group_keys (cfgs s) (child_config_list s))"
    "distinct (child_config_list s)" "set (child_config_list s) = dom (cfgs s)"
    using s by (simp_all add: srv_inv_def registry_ok_def)
  have a: "?a \<notin> set (child_config_list s)" using reg(3) fresh(1) by auto
  have "group_keys (cfgs ?t) (child_config_list ?t) =
      (cc_key ?a cc, ?a) # group_keys (cfgs s) (child_config_list s)"
    using group_keys_other [OF a] by (simp add: created_def group_keys_def)
  then have "registry_ok ?t"
    using ustr.holds_insert [OF reg(1)] reg a by (simp add: registry_ok_def created_def)
  moreover have "sizes_ok ?t"
    using inv_sizes [OF s] wf childs by (simp add: sizes_ok_def created_def)
  moreover have "slots_ok (cfgs ?t) (procs ?t)"
  proof (rule slots_okI)
    fix b c i p
    assume c: "cfgs ?t b = Some c" "i < length (cc_childs c)" "cc_childs c ! i = Proc p"
    then have "cfgs s b = Some c" using childs by (auto simp: created_def split: if_splits)
    with c obtain r where "procs s p = Some r" "p_child_config r = Some b" "p_instance r = i"
      using inv_slot_proc [OF s] by metis
    then show "\<exists>pr. procs ?t p = Some pr \<and> p_child_config pr = Some b \<and> p_instance pr = i"
      by (simp add: created_def)
  next
    fix p r b
    assume r: "procs ?t p = Some r" "p_child_config r = Some b"
    then have r': "procs s p = Some r" by (simp add: created_def)
    obtain c where "cfgs s b = Some c" "p_instance r < length (cc_childs c)"
      "cc_childs c ! p_instance r = Proc p"
      by (rule inv_proc_group [OF s r' r(2)])
    moreover then have "b \<noteq> ?a" using fresh(1) by auto
    ultimately show "\<exists>c. cfgs ?t b = Some c \<and> p_instance r < length (cc_childs c) \<and>
        cc_childs c ! p_instance r = Proc p"
      by (simp add: created_def)
  qed
  moreover have "addrs_ok ?t"
    using s by (auto simp: srv_inv_def addrs_ok_def created_def less_Suc_eq)
  ultimately show ?thesis
    using s by (simp add: srv_inv_def created_def kids_ok_def conns_ok_def subs_live_def conn_live_def)
qed

text \<open>What a start leaves: the group, under the next address, with its slots filled if it runs.\<close>

definition started :: "child_config \<Rightarrow> server \<Rightarrow> server \<Rightarrow> bool" where
  "started cc s s' \<longleftrightarrow>
     child_config_list s' = next_addr s # child_config_list s \<and>
     (\<exists>chs. cfgs s' = (cfgs s)(next_addr s \<mapsto> cc\<lparr>cc_childs := chs\<rparr>) \<and>
        length chs = nat (cc_instances cc) \<and>
        (if cc_status cc = STATUS_RUNNING then failed s' \<or> (\<forall>sl \<in> set chs. is_proc sl)
         else chs = replicate (nat (cc_instances cc)) Null))"

lemma dump_frame_full_step: "dump_frame s t \<Longrightarrow> full t' = full t \<Longrightarrow> dump_frame s t'"
  by (rule dump_frame_full)

lemma dump_frame_refl [simp]: "dump_frame s s"
  unfolding dump_frame_def
  by (intro conjI exI [of _ "dump_cnt s"] exI [of _ "files s"]) (simp_all add: core_def)

text \<open>
  Filling the slots of a group that was just created, after any output: shared by the start
  command and the loading of a dump.
\<close>

definition run_group :: "env \<Rightarrow> addr \<Rightarrow> child_config \<Rightarrow> server \<Rightarrow> server run" where
  "run_group E a cc t =
     (if cc_status cc \<noteq> STATUS_RUNNING then Live t
      else foldO (\<lambda>i s. bindO (spawn E a i s) (\<lambda>(ok, s). Live s)) [0 ..< nat (cc_instances cc)] t)"

lemma created_others_up:
  assumes s: "srv_ok s" and t: "cfgs t = (cfgs s)(a \<mapsto> c)" "acts_grow s t" "\<not> failed t"
    and b: "b \<noteq> a" "cfgs t b = Some x"
  shows "slots_up x"
proof -
  have "\<not> failed s" using acts_grow_failed [OF t(2)] t(3) by blast
  from sup_slots [OF srv_okD(2) [OF s] this] show ?thesis using t(1) b by simp
qed

lemma run_group_post:
  assumes E: "fork_fresh E" and s: "srv_ok s" and cc: "config_wf cc" "0 \<le> cc_instances cc"
    and t: "dump_frame (created (cc\<lparr>cc_childs := replicate (nat (cc_instances cc)) Null\<rparr>) s) t"
  shows "post (run_group E (next_addr s) cc t)
    (\<lambda>s'. srv_ok s' \<and> peers s' = peers s \<and> started cc s s') dead_ok"
proof -
  let ?a = "next_addr s" and ?n = "nat (cc_instances cc)"
  let ?cc = "cc\<lparr>cc_childs := replicate ?n Null\<rparr>"
  let ?t = "created ?cc s"
  have wf: "config_wf ?cc" using cc(1) by (simp add: config_wf_def)
  have it: "srv_inv ?t" by (rule inv_created [OF srv_okD(1) [OF s] wf]) (use cc in simp_all)
  note d = dump_frame_eqD [OF t]
  have c: "cfgs t = (cfgs s)(?a \<mapsto> ?cc)" "child_config_list t = ?a # child_config_list s"
    using d(1,3) by (simp_all add: created_def)
  have i: "srv_inv t" by (rule dump_frame_inv [OF t it])
  have pe: "peers t = peers s" using dump_frame_peers [OF t] by (simp add: created_def peers_def)
  have "acts_grow s t" using d(13) by (simp add: acts_grow_def acts_def created_def)
  note up = created_others_up [OF s c(1) this]
  show ?thesis
  proof (cases "cc_status cc = STATUS_RUNNING")
    case False
    have "slots_up ?cc" using False by (simp add: slots_up_def)
    then have "sup_inv t" using up c(1) unfolding sup_inv_def ran_def by (auto split: if_splits)
    then have "srv_ok t" using i by (simp add: srv_ok_def)
    moreover have "started cc s t" using c False by (simp add: started_def)
    ultimately show ?thesis using False pe by (simp add: run_group_def)
  next
    case True
    have "post (run_group E ?a cc t) (fills True is_proc ?a ?cc 0 ?n t) dead_ok"
      using spawn_loop [OF E i, of ?a ?cc] c(1) True by (simp add: run_group_def)
    then show ?thesis
    proof (rule post_mono)
      fix s'
      assume f: "fills True is_proc ?a ?cc 0 ?n t s'"
      have "sup_inv s'" by (rule fills_sup [of ?a ?cc t s']) (use f up in auto)
      moreover have "srv_inv s'" "front s' = front t" using f by (simp_all add: fills_def)
      moreover obtain chs where chs: "cfgs s' = (cfgs t)(?a \<mapsto> ?cc\<lparr>cc_childs := chs\<rparr>)" "length chs = ?n"
        "failed s' \<or> (\<forall>j < ?n. is_proc (chs ! j))"
        using f by (auto simp: fills_def)
      moreover have "failed s' \<or> (\<forall>sl \<in> set chs. is_proc sl)"
        using chs(2,3) by (metis in_set_conv_nth)
      ultimately show "srv_ok s' \<and> peers s' = peers s \<and> started cc s s'"
        using c True pe peers_front [of s' t] front_eqD(1) [of s' t]
        by (auto simp: srv_ok_def started_def)
    qed simp
  qed
qed

lemma c_spwn_create_post:
  assumes E: "fork_fresh E" and s: "srv_ok s" and con: "conn_live con s"
    and cc: "config_wf cc" "0 \<le> cc_instances cc"
  shows "post (c_spwn_create E con cc s)
    (\<lambda>(cr, s'). cr \<and> srv_ok s' \<and> peers s' = peers s \<and> started cc s s') dead_ok"
proof -
  let ?a = "next_addr s" and ?n = "nat (cc_instances cc)"
  let ?cc = "cc\<lparr>cc_childs := replicate ?n Null\<rparr>"
  let ?t = "created ?cc s"
  let ?Q = "\<lambda>(cr, s'). cr \<and> srv_ok s' \<and> peers s' = peers s \<and> started cc s s'"
  define fin where "fin t = bindO (run_group E ?a cc t) (\<lambda>s. Live (True, s))" for t
  have wf: "config_wf ?cc" using cc(1) by (simp add: config_wf_def)
  have it: "srv_inv ?t" by (rule inv_created [OF srv_okD(1) [OF s] wf]) (use cc in simp_all)
  have ct: "conn_live con ?t" using con by (simp add: created_def conn_live_def)
  have fin: "post (fin t) ?Q dead_ok" if t: "dump_frame ?t t" for t
    unfolding post_bind fin_def by (rule post_mono [OF run_group_post [OF E s cc t]]) simp_all
  have fin_eq: "fin = (\<lambda>t. if cc_status cc \<noteq> STATUS_RUNNING then Live (True, t)
      else bindO (foldO (\<lambda>i s. bindO (spawn E ?a i s) (\<lambda>(ok, s). Live s)) [0 ..< ?n] t)
             (\<lambda>s. Live (True, s)))"
    by (simp add: fin_def run_group_def fun_eq_iff)
  have log: "post (bindO (slog E m t) (\<lambda>s.
      bindO (send_status_update_notification E nm st1 s) (\<lambda>s.
      bindO (send_status_update_notification E nm st2 s) fin))) ?Q dead_ok"
    if t: "dump_frame ?t t" for t m nm st1 st2
    unfolding post_bind
  proof (rule aborted_dead, rule slog_full)
    show "srv_inv t" by (rule dump_frame_inv [OF t it])
    fix t1 assume "full t1 = full t"
    then have t1: "dump_frame ?t t1" by (rule dump_frame_full [OF t])
    show "post (send_status_update_notification E nm st1 t1)
        (\<lambda>x. post (send_status_update_notification E nm st2 x) (\<lambda>x. post (fin x) ?Q dead_ok) dead_ok)
        dead_ok"
    proof (rule aborted_dead, rule send_status_update_notification_full)
      show "srv_inv t1" by (rule dump_frame_inv [OF t1 it])
      fix t2 assume "full t2 = full t1"
      then have t2: "dump_frame ?t t2" by (rule dump_frame_full [OF t1])
      show "post (send_status_update_notification E nm st2 t2) (\<lambda>x. post (fin x) ?Q dead_ok) dead_ok"
        by (rule aborted_dead, rule send_status_update_notification_full,
            rule dump_frame_inv [OF t2 it], rule fin, rule dump_frame_full [OF t2])
    qed
  qed
  have "post (if \<not> auto_dump ?t then send_status_msg E con True ''success'' ?t
        else bindO (c_dump E con [] ?t) (\<lambda>(cr, s). Live s)) (dump_frame ?t) dead_ok"
  proof (cases "auto_dump ?t")
    case True
    then show ?thesis
      using post_mono [OF c_dump_post [OF it ct, of E "[]"], of "\<lambda>x. post (case x of (cr, s) \<Rightarrow> Live s) (dump_frame ?t) dead_ok" dead_ok]
      by (auto simp: post_bind)
  next
    case False
    have "post (send_status_msg E con True ''success'' ?t) (dump_frame ?t) dead_ok"
      by (rule aborted_dead, rule send_status_msg_full [OF it ct])
        (rule dump_frame_full [OF dump_frame_refl])
    with False show ?thesis by simp
  qed
  then have all: "post (bindO (if \<not> auto_dump ?t then send_status_msg E con True ''success'' ?t
        else bindO (c_dump E con [] ?t) (\<lambda>(cr, s). Live s)) (\<lambda>s.
      bindO (slog E m s) (\<lambda>s.
      bindO (send_status_update_notification E nm st1 s) (\<lambda>s.
      bindO (send_status_update_notification E nm st2 s) fin)))) ?Q dead_ok" for m nm st1 st2
    unfolding post_bind [of "if _ then _ else _"] by (rule post_mono) (use log in auto)
  have ins: "bindO (child_config_insert ?a (set_cfg ?a ?cc (s\<lparr>next_addr := Suc ?a\<rparr>))) f = f ?t"
    for f :: "server \<Rightarrow> (bool \<times> server) run"
    by (simp add: child_config_insert_def deref_def set_cfg_def created_def)
  have "c_spwn_create E con cc s =
      bindO (if \<not> auto_dump ?t then send_status_msg E con True ''success'' ?t
        else bindO (c_dump E con [] ?t) (\<lambda>(cr, s). Live s)) (\<lambda>s.
      bindO (slog E (''[start] creating group '' @ fmt_s (cc_name cc) @ [newline]) s) (\<lambda>s.
      bindO (send_status_update_notification E (fmt_s (cc_name cc)) STATUS_CREATE s) (\<lambda>s.
      bindO (send_status_update_notification E (fmt_s (cc_name cc)) (cc_status cc) s) fin)))"
    unfolding fin_eq by (simp add: c_spwn_create_def Let_def ins cong: if_cong)
  then show ?thesis using all by (simp only:)
qed

text \<open>
  What \<open>c_spwn\<close> accepts: a configuration with a name that is not taken, a command, and
  between 1 and \<open>MAX_INSTANCES\<close> instances, one if none are given.
\<close>

definition start_defaults :: "child_config \<Rightarrow> child_config" where
  "start_defaults cc = (if cc_instances cc = -1 then cc\<lparr>cc_instances := 1\<rparr> else cc)"

definition start_accepts :: "server \<Rightarrow> child_config \<Rightarrow> bool" where
  "start_accepts s cc \<longleftrightarrow>
     (\<exists>n. cc_name cc = Some n \<and> (\<forall>a c. cfgs s a = Some c \<longrightarrow> cc_name c \<noteq> Some n)) \<and>
     cc_command cc \<noteq> None \<and>
     1 \<le> cc_instances (start_defaults cc) \<and> cc_instances (start_defaults cc) \<le> MAX_INSTANCES"

lemma wf_start_defaults: "config_wf cc \<Longrightarrow> config_wf (start_defaults cc)"
  by (simp add: start_defaults_def config_wf_def)

lemma name_free:
  assumes s: "srv_inv s" and n: "is_cstr n"
  shows "child_config_find_by_name n s = None \<longleftrightarrow> (\<forall>a c. cfgs s a = Some c \<longrightarrow> cc_name c \<noteq> Some n)"
proof (cases "child_config_find_by_name n s")
  case None
  then show ?thesis using find_by_name_None [OF s n None] by blast
next
  case (Some a)
  then show ?thesis using find_by_name_Some [OF s n Some] by (metis option.distinct(1))
qed

lemma c_spwn_accepts:
  assumes s: "srv_inv s" and u: "child_config_unserialize (tokener_parse E) buf = Live (Some cc)"
  shows "c_spwn E con buf s = c_spwn_create E con (start_defaults cc) s \<and> start_accepts s cc \<or>
    (\<exists>msg. c_spwn E con buf s = reply E con False msg True s) \<and> \<not> start_accepts s cc"
proof -
  have "config_wf cc" using unserialize_wf [OF u] by simp
  then obtain n where n: "cc_name cc = Some n" "is_cstr n" by (auto simp: config_wf_def)
  then show ?thesis
    using u name_free [OF s n(2)]
    by (auto simp: c_spwn_def start_accepts_def start_defaults_def Let_def)
qed

interpretation spwn_cmd: handler c_spwn
proof
  fix E s con buf
  assume E: "fork_fresh E" and s: "srv_ok s" "conn_live con s"
  let ?Q = "\<lambda>(cr, s'). srv_ok s' \<and> peers s' = peers s"
  let ?D = "\<lambda>h t. dead_ok h t \<or> h = Undefined \<and> \<not> payload_ok (tokener_parse E) buf"
  have rep: "post (reply E con False msg cr s) ?Q ?D" for msg cr
    by (rule post_mono [OF serves_reply [OF s refl, unfolded serves_def]]) auto
  show "post (c_spwn E con buf s) ?Q ?D"
  proof (cases "child_config_unserialize (tokener_parse E) buf")
    case (Dead h u)
    then have "h = Undefined \<and> \<not> payload_ok (tokener_parse E) buf"
      using unserialize_post [of "tokener_parse E" buf] by simp
    with Dead show ?thesis by (simp add: c_spwn_def)
  next
    case (Live r)
    show ?thesis
    proof (cases r)
      case None
      with Live rep show ?thesis by (simp add: c_spwn_def)
    next
      case (Some cc)
      with Live have u: "child_config_unserialize (tokener_parse E) buf = Live (Some cc)" by simp
      have wf: "config_wf (start_defaults cc)" using unserialize_wf [OF u] by (simp add: wf_start_defaults)
      consider (ok) "c_spwn E con buf s = c_spwn_create E con (start_defaults cc) s" "start_accepts s cc"
        | (no) msg where "c_spwn E con buf s = reply E con False msg True s"
        using c_spwn_accepts [OF srv_okD(1) [OF s(1)] u] by blast
      then show ?thesis
      proof cases
        case ok
        then have "0 \<le> cc_instances (start_defaults cc)" by (simp add: start_accepts_def)
        then show ?thesis
          unfolding ok(1) by (intro post_mono [OF c_spwn_create_post [OF E s wf]]) auto
      next
        case no
        with rep show ?thesis by simp
      qed
    qed
  qed
qed

end
