(* ===== verification/Update.thy ===== *)
theory Update
  imports Start
begin

text \<open>
  \<open>c_updt\<close>, the update command: checks that reject the request before anything changes, then
  one step per member of the request, each with its log line and its own effect on the
  group. \<open>merge\<close> is the specification: the group's settings afterwards.
\<close>

section \<open>The handler\<close>

text \<open>The five \<open>if\<close> blocks for a string member; \<open>get\<close> and \<open>put\<close> are the member.\<close>

definition quoted :: "string \<Rightarrow> string" where
  "quoted x = [CHR 0x22] @ x @ [CHR 0x22]"

definition updt_str ::
    "env \<Rightarrow> addr \<Rightarrow> string \<Rightarrow> (child_config \<Rightarrow> string option) \<Rightarrow>
     (string option \<Rightarrow> child_config \<Rightarrow> child_config) \<Rightarrow> child_config \<Rightarrow> server \<Rightarrow> (bool \<times> server) run" where
  "updt_str E a what get put cc s =
     deref cfgs a s (\<lambda>up.
       case get cc of
         None \<Rightarrow> Live (False, s)
       | Some x \<Rightarrow>
           if xstrcmp (Some x) (get up) = 0 then Live (False, s)
           else bindO (slog E (''[update] '' @ fmt_s (cc_name up) @ '' '' @ what @ '' ''
                         @ quoted (fmt_s (get up)) @ '' -> '' @ quoted x @ [newline]) s) (\<lambda>s.
                Live (True, set_cfg a (put (Some x) up) s)))"

definition updt_msg :: "child_config \<Rightarrow> string \<Rightarrow> int \<Rightarrow> int \<Rightarrow> string" where
  "updt_msg up what old new =
     ''[update] '' @ fmt_s (cc_name up) @ '' '' @ what @ '' '' @ show_int old @ '' -> ''
       @ show_int new @ [newline]"

definition updt_killsig :: "env \<Rightarrow> addr \<Rightarrow> child_config \<Rightarrow> server \<Rightarrow> (bool \<times> server) run" where
  "updt_killsig E a cc s =
     deref cfgs a s (\<lambda>up.
       if cc_killsig cc \<noteq> -1 \<and> cc_killsig cc \<noteq> cc_killsig up
       then bindO (slog E (updt_msg up ''killsig'' (cc_killsig up) (cc_killsig cc)) s) (\<lambda>s.
            Live (True, set_cfg a (up\<lparr>cc_killsig := cc_killsig cc\<rparr>) s))
       else Live (False, s))"

text \<open>
  More instances: \<open>xrealloc\<close> leaves the new slots uninitialised, and the loop fills them with
  a process or, if the group does not run, with the null pointer.
\<close>

definition updt_grow_slot :: "env \<Rightarrow> addr \<Rightarrow> nat \<Rightarrow> server \<Rightarrow> server run" where
  "updt_grow_slot E a i s =
     deref cfgs a s (\<lambda>up.
       if cc_status up = STATUS_RUNNING
       then bindO (spawn E a i s) (\<lambda>(ok, s). Live s)
       else set_child a i Null s)"

definition updt_grow :: "env \<Rightarrow> addr \<Rightarrow> int \<Rightarrow> server \<Rightarrow> server run" where
  "updt_grow E a n s =
     deref cfgs a s (\<lambda>up.
       let old = cc_instances up;
           s = set_cfg a (up\<lparr>cc_instances := n,
                             cc_childs := cc_childs up @ replicate (nat n - nat old) Uninit\<rparr>) s
       in foldO (updt_grow_slot E a) [nat old ..< nat n] s)"

text \<open>Fewer instances: the processes of the slots that go are let go.\<close>

definition updt_shrink_slot :: "addr \<Rightarrow> nat \<Rightarrow> server \<Rightarrow> server run" where
  "updt_shrink_slot a i s =
     get_child a i s (\<lambda>r.
       bindO (case r of
                None \<Rightarrow> Live s
              | Some p \<Rightarrow> deref procs p s (\<lambda>pr. Live (set_proc p (pr\<lparr>p_child_config := None\<rparr>) s)))
         (\<lambda>s. set_child a i Null s))"

definition updt_shrink :: "addr \<Rightarrow> int \<Rightarrow> server \<Rightarrow> server run" where
  "updt_shrink a n s =
     deref cfgs a s (\<lambda>up.
     bindO (foldO (updt_shrink_slot a) [nat n ..< nat (cc_instances up)] s) (\<lambda>s.
     deref cfgs a s (\<lambda>up.
       Live (set_cfg a (up\<lparr>cc_instances := n, cc_childs := take (nat n) (cc_childs up)\<rparr>) s))))"

definition updt_instances :: "env \<Rightarrow> addr \<Rightarrow> child_config \<Rightarrow> server \<Rightarrow> (bool \<times> server) run" where
  "updt_instances E a cc s =
     deref cfgs a s (\<lambda>up.
       if cc_instances cc \<noteq> -1 \<and> cc_instances cc \<noteq> cc_instances up
       then bindO (slog E (updt_msg up ''instances'' (cc_instances up) (cc_instances cc)) s) (\<lambda>s.
            bindO (if cc_instances cc > cc_instances up then updt_grow E a (cc_instances cc) s
                   else updt_shrink a (cc_instances cc) s) (\<lambda>s.
            Live (True, s)))
       else Live (False, s))"

definition updt_start_slot :: "env \<Rightarrow> addr \<Rightarrow> nat \<Rightarrow> server \<Rightarrow> server run" where
  "updt_start_slot E a i s =
     process_find_instance a i s (\<lambda>r.
       case r of
         None \<Rightarrow> bindO (spawn E a i s) (\<lambda>(ok, s). Live s)
       | Some p \<Rightarrow> Live s)"

definition updt_status :: "env \<Rightarrow> addr \<Rightarrow> child_config \<Rightarrow> server \<Rightarrow> (bool \<times> server) run" where
  "updt_status E a cc s =
     deref cfgs a s (\<lambda>up.
       if cc_status cc \<noteq> -1 \<and> cc_status cc \<noteq> cc_status up
       then bindO (slog E (updt_msg up ''status'' (cc_status up) (cc_status cc)) s) (\<lambda>s.
            let s = set_cfg a (up\<lparr>cc_error := 0\<rparr>) s
            in bindO (if cc_status up \<noteq> STATUS_RUNNING \<and> cc_status cc = STATUS_RUNNING
                      then foldO (updt_start_slot E a) [0 ..< nat (cc_instances up)] s
                      else Live s) (\<lambda>s.
               deref cfgs a s (\<lambda>up.
               bindO (send_status_update_notification E (fmt_s (cc_name up)) (cc_status cc)
                        (set_cfg a (up\<lparr>cc_status := cc_status cc\<rparr>) s)) (\<lambda>s.
               Live (True, s)))))
       else Live (False, s))"

definition updt_age :: "env \<Rightarrow> addr \<Rightarrow> child_config \<Rightarrow> server \<Rightarrow> (bool \<times> server) run" where
  "updt_age E a cc s =
     deref cfgs a s (\<lambda>up.
       if cc_age cc > 0 \<and> cc_age cc \<noteq> cc_age up
       then bindO (slog E (updt_msg up ''age'' (cc_age up) (cc_age cc)) s) (\<lambda>s.
            Live (True, set_cfg a (up\<lparr>cc_age := cc_age cc\<rparr>) s))
       else Live (False, s))"

text \<open>The steps in the order of the code; \<open>changed\<close> is their disjunction.\<close>

definition updt_steps :: "env \<Rightarrow> addr \<Rightarrow> child_config \<Rightarrow> (server \<Rightarrow> (bool \<times> server) run) list" where
  "updt_steps E a cc =
     [updt_str E a ''dir'' cc_dir (\<lambda>v up. up\<lparr>cc_dir := v\<rparr>) cc,
      updt_str E a ''heartbeat'' cc_heartbeat (\<lambda>v up. up\<lparr>cc_heartbeat := v\<rparr>) cc,
      updt_str E a ''fatal_cb'' cc_fatal_cb (\<lambda>v up. up\<lparr>cc_fatal_cb := v\<rparr>) cc,
      updt_str E a ''stdout'' cc_stdout (\<lambda>v up. up\<lparr>cc_stdout := v\<rparr>) cc,
      updt_str E a ''stderr'' cc_stderr (\<lambda>v up. up\<lparr>cc_stderr := v\<rparr>) cc,
      updt_killsig E a cc,
      updt_instances E a cc,
      updt_status E a cc,
      updt_age E a cc]"

definition run_steps :: "(server \<Rightarrow> (bool \<times> server) run) list \<Rightarrow> server \<Rightarrow> (bool \<times> server) run" where
  "run_steps fs s =
     foldO (\<lambda>f (changed, s). bindO (f s) (\<lambda>(c, s). Live (changed \<or> c, s))) fs (False, s)"

definition c_updt_apply :: "env \<Rightarrow> addr \<Rightarrow> addr \<Rightarrow> child_config \<Rightarrow> server \<Rightarrow> (bool \<times> server) run" where
  "c_updt_apply E con a cc s =
     bindO (run_steps (updt_steps E a cc) s) (\<lambda>(changed, s).
     deref cfgs a s (\<lambda>up.
     bindO (if changed then send_group_cfg_update_notification E up s else Live s) (\<lambda>s.
     if \<not> auto_dump s then reply E con True ''success'' True s
     else bindO (c_dump E con [] s) (\<lambda>(cr, s). Live (True, s)))))"

definition c_updt :: "env \<Rightarrow> addr \<Rightarrow> string \<Rightarrow> server \<Rightarrow> (bool \<times> server) run" where
  "c_updt E con buf s =
     bindO (at_state s (child_config_unserialize (tokener_parse E) buf)) (\<lambda>r.
     case r of
       None \<Rightarrow> bindO (slog E (''[update] parse error'' @ [newline]) s) (\<lambda>s.
               reply E con False ''failure'' False s)
     | Some cc \<Rightarrow>
         (case cc_name cc of
            None \<Rightarrow> reply E con False ''need name'' False s
          | Some n \<Rightarrow>
              (case child_config_find_by_name n s of
                 None \<Rightarrow> reply E con False ''not found'' False s
               | Some a \<Rightarrow>
                   if cc_uid cc \<noteq> -1 then reply E con True ''cannot update uid'' True s
                   else if cc_gid cc \<noteq> -1 then reply E con True ''cannot update gid'' True s
                   else if cc_command cc \<noteq> None
                   then reply E con False ''command cannot be updated'' True s
                   else if cc_instances cc \<noteq> -1 \<and> cc_instances cc < 1
                   then reply E con False ''instances > 0 required.'' True s
                   else if cc_instances cc > MAX_INSTANCES
                   then reply E con False ''too many instances.'' True s
                   else c_updt_apply E con a cc s)))"

section \<open>The specification\<close>

definition newer :: "'a option \<Rightarrow> 'a option \<Rightarrow> 'a option" where
  "newer x y = (case x of None \<Rightarrow> y | Some v \<Rightarrow> Some v)"

definition given :: "int \<Rightarrow> int \<Rightarrow> int" where
  "given x y = (if x = -1 then y else x)"

definition merge :: "child_config \<Rightarrow> child_config \<Rightarrow> child_config" where
  "merge cc up =
     up\<lparr>cc_dir := newer (cc_dir cc) (cc_dir up),
        cc_heartbeat := newer (cc_heartbeat cc) (cc_heartbeat up),
        cc_fatal_cb := newer (cc_fatal_cb cc) (cc_fatal_cb up),
        cc_stdout := newer (cc_stdout cc) (cc_stdout up),
        cc_stderr := newer (cc_stderr cc) (cc_stderr up),
        cc_killsig := given (cc_killsig cc) (cc_killsig up),
        cc_instances := given (cc_instances cc) (cc_instances up),
        cc_error := (if given (cc_status cc) (cc_status up) = cc_status up then cc_error up else 0),
        cc_status := given (cc_status cc) (cc_status up),
        cc_age := (if cc_age cc > 0 then cc_age cc else cc_age up)\<rparr>"

text \<open>
  \<open>updated a cc b s\<close>: from the good state \<open>b\<close> the handler got to the good state \<open>s\<close>, in which
  the settings of the group are \<open>cc\<close>, and the other groups and the clients are as they were.
\<close>

definition updated :: "addr \<Rightarrow> child_config \<Rightarrow> server \<Rightarrow> server \<Rightarrow> bool" where
  "updated a cc b s \<longleftrightarrow>
     srv_ok s \<and> front s = front b \<and> acts_grow b s \<and>
     (\<exists>chs. cfgs s = (cfgs b)(a \<mapsto> cc\<lparr>cc_childs := chs\<rparr>))"

lemma updated_refl:
  assumes "srv_ok b" and "cfgs b a = Some cc"
  shows "updated a cc b b"
proof -
  have "cfgs b = (cfgs b)(a \<mapsto> cc\<lparr>cc_childs := cc_childs cc\<rparr>)" using assms(2) by auto
  with assms(1) show ?thesis unfolding updated_def by (metis acts_grow_refl)
qed

lemma updatedE:
  assumes "updated a cc b s"
  obtains up where "cfgs s a = Some up" "cfgs s = (cfgs b)(a \<mapsto> up)"
    "up = cc\<lparr>cc_childs := cc_childs up\<rparr>"
    "srv_ok s" "front s = front b" "acts_grow b s"
  using assms by (auto simp: updated_def)

lemma updatedI:
  assumes "srv_ok s" "front s = front b" "acts_grow b s"
    "cfgs s = (cfgs b)(a \<mapsto> up)" "up = cc\<lparr>cc_childs := cc_childs up\<rparr>"
  shows "updated a cc b s"
  unfolding updated_def using assms by metis

lemma updated_full:
  assumes u: "updated a c b s" and f: "full s' = full s"
  shows "updated a c b s'"
  using u srv_ok_full [OF f] front_core [OF full_core [OF f]] acts_grow_eq [OF full_acts [OF f]]
    core_eqD(1) [OF full_core [OF f]]
  by (simp add: updated_def)

lemma updated_set:
  assumes u: "updated a c b s" and up: "cfgs s a = Some up"
    and same: "cc_name up' = cc_name up" "cc_childs up' = cc_childs up"
      "cc_instances up' = cc_instances up" and wf: "config_wf up'"
    and ups: "slots_up up \<Longrightarrow> slots_up up'" and c': "up' = c'\<lparr>cc_childs := cc_childs up'\<rparr>"
  shows "updated a c' b (set_cfg a up' s)"
proof -
  have s: "srv_ok s" "front s = front b" "acts_grow b s" and m: "cfgs s = (cfgs b)(a \<mapsto> up)"
    using u up by (auto elim: updatedE)
  have "srv_inv (set_cfg a up' s)" by (rule inv_set_cfg [OF srv_okD(1) [OF s(1)] up same wf])
  moreover have "sup_inv (set_cfg a up' s)"
  proof (cases "failed s")
    case True
    then show ?thesis by (simp add: sup_inv_def failed_def)
  next
    case False
    then have "slots_up up'" using ups sup_slots [OF srv_okD(2) [OF s(1)] _ up] by simp
    then show ?thesis by (intro sup_inv_upd [OF srv_okD(2) [OF s(1)], where a = a and cc = up']) simp_all
  qed
  ultimately show ?thesis
    using s m c' by (intro updatedI [where up = up']) (simp_all add: srv_ok_def)
qed

lemma updated_wf:
  assumes "updated a c b s" and "cfgs s a = Some up"
  shows "config_wf up"
  using assms inv_sizes [of s a up] by (simp add: updated_def srv_ok_def)

lemma slog_updated:
  assumes "updated a c b s" and "\<And>s'. updated a c b s' \<Longrightarrow> cfgs s' = cfgs s \<Longrightarrow> post (f s') Q dead_ok"
  shows "post (bindO (slog E m s) f) Q dead_ok"
  unfolding post_bind
proof (rule aborted_dead, rule slog_full)
  show "srv_inv s" using assms(1) by (simp add: updated_def srv_ok_def)
  show "post (f s') Q dead_ok" if "full s' = full s" for s'
    using assms(2) [OF updated_full [OF assms(1) that]] core_eqD(1) [OF full_core [OF that]] by simp
qed

section \<open>The simple steps\<close>

lemma updt_str_post:
  assumes u: "updated a c b s" and wf: "pred_option is_cstr (get cc)"
    and get: "\<And>v chs. get (v\<lparr>cc_childs := chs\<rparr>) = get v"
      "\<And>v. config_wf v \<Longrightarrow> pred_option is_cstr (get v)"
    and put: "\<And>x v chs. put x (v\<lparr>cc_childs := chs\<rparr>) = (put x v)\<lparr>cc_childs := chs\<rparr>"
      "\<And>v. put (get v) v = v"
      "\<And>x v. cc_name (put x v) = cc_name v" "\<And>x v. cc_childs (put x v) = cc_childs v"
      "\<And>x v. cc_instances (put x v) = cc_instances v" "\<And>x v. cc_status (put x v) = cc_status v"
      "\<And>x v. is_cstr x \<Longrightarrow> config_wf v \<Longrightarrow> config_wf (put (Some x) v)"
  shows "post (updt_str E a what get put cc s)
    (\<lambda>(ch, s'). updated a (put (newer (get cc) (get c)) c) b s') dead_ok"
proof -
  obtain up where up: "cfgs s a = Some up" "up = c\<lparr>cc_childs := cc_childs up\<rparr>"
    using u by (rule updatedE)
  have gu: "get up = get c" by (subst up(2)) (rule get(1))
  show ?thesis
  proof (cases "get cc")
    case None
    with up u show ?thesis by (simp add: updt_str_def deref_def newer_def put)
  next
    case (Some x)
    have x: "is_cstr x" using wf Some by simp
    show ?thesis
    proof (cases "xstrcmp (Some x) (get up) = 0")
      case True
      then have "get c = Some x"
        using xstrcmp_0 [of "Some x" "get up"] x get(2) [OF updated_wf [OF u up(1)]] gu by simp
      with True Some up u put(2) [of c] show ?thesis by (simp add: updt_str_def deref_def newer_def)
    next
      case False
      have "post (bindO (slog E m s) (\<lambda>s. Live (True, set_cfg a (put (Some x) up) s)))
          (\<lambda>(ch, s'). updated a (put (Some x) c) b s') dead_ok" for m
      proof (rule slog_updated [OF u])
        fix s'
        assume u': "updated a c b s'" and c': "cfgs s' = cfgs s"
        have e: "put (Some x) up = (put (Some x) c)\<lparr>cc_childs := cc_childs (put (Some x) up)\<rparr>"
          by (subst (1) up(2)) (simp add: put)
        have "updated a (put (Some x) c) b (set_cfg a (put (Some x) up) s')"
          by (rule updated_set [OF u' _ put(3-5) put(7) [OF x updated_wf [OF u up(1)]] _ e])
            (use c' up in \<open>simp_all add: slots_up_def put\<close>)
        then show "post (Live (True, set_cfg a (put (Some x) up) s'))
          (\<lambda>(ch, s'). updated a (put (Some x) c) b s') dead_ok" by simp
      qed
      with False Some up show ?thesis by (simp add: updt_str_def deref_def newer_def)
    qed
  qed
qed

lemma updt_killsig_post:
  assumes u: "updated a c b s" and wf: "config_wf cc"
  shows "post (updt_killsig E a cc s)
    (\<lambda>(ch, s'). updated a (c\<lparr>cc_killsig := given (cc_killsig cc) (cc_killsig c)\<rparr>) b s') dead_ok"
proof -
  obtain up where up: "cfgs s a = Some up" "up = c\<lparr>cc_childs := cc_childs up\<rparr>"
    using u by (rule updatedE)
  have g: "cc_killsig up = cc_killsig c" by (subst up(2)) simp
  have "post (bindO (slog E m s) (\<lambda>s. Live (True, set_cfg a (up\<lparr>cc_killsig := cc_killsig cc\<rparr>) s)))
      (\<lambda>(ch, s'). updated a (c\<lparr>cc_killsig := cc_killsig cc\<rparr>) b s') dead_ok" for m
  proof (rule slog_updated [OF u])
    fix s'
    assume u': "updated a c b s'" and c': "cfgs s' = cfgs s"
    have "updated a (c\<lparr>cc_killsig := cc_killsig cc\<rparr>) b (set_cfg a (up\<lparr>cc_killsig := cc_killsig cc\<rparr>) s')"
      by (rule updated_set [OF u'])
        (use c' up(1) updated_wf [OF u up(1)] wf in \<open>simp_all add: slots_up_def config_wf_def\<close>,
         subst up(2), simp)
    then show "post (Live (True, set_cfg a (up\<lparr>cc_killsig := cc_killsig cc\<rparr>) s'))
      (\<lambda>(ch, s'). updated a (c\<lparr>cc_killsig := cc_killsig cc\<rparr>) b s') dead_ok" by simp
  qed
  moreover have "given (cc_killsig cc) (cc_killsig c) = cc_killsig c"
    if "\<not> (cc_killsig cc \<noteq> -1 \<and> cc_killsig cc \<noteq> cc_killsig up)"
    using that g by (auto simp: given_def)
  ultimately show ?thesis
    using up(1) u by (cases "cc_killsig cc \<noteq> -1 \<and> cc_killsig cc \<noteq> cc_killsig up")
      (simp_all add: updt_killsig_def deref_def given_def del: de_Morgan_conj)
qed

lemma updt_age_post:
  assumes u: "updated a c b s" and wf: "config_wf cc"
  shows "post (updt_age E a cc s)
    (\<lambda>(ch, s'). updated a (c\<lparr>cc_age := if cc_age cc > 0 then cc_age cc else cc_age c\<rparr>) b s') dead_ok"
proof -
  obtain up where up: "cfgs s a = Some up" "up = c\<lparr>cc_childs := cc_childs up\<rparr>"
    using u by (rule updatedE)
  have g: "cc_age up = cc_age c" by (subst up(2)) simp
  have "post (bindO (slog E m s) (\<lambda>s. Live (True, set_cfg a (up\<lparr>cc_age := cc_age cc\<rparr>) s)))
      (\<lambda>(ch, s'). updated a (c\<lparr>cc_age := cc_age cc\<rparr>) b s') dead_ok" for m
  proof (rule slog_updated [OF u])
    fix s'
    assume u': "updated a c b s'" and c': "cfgs s' = cfgs s"
    have "updated a (c\<lparr>cc_age := cc_age cc\<rparr>) b (set_cfg a (up\<lparr>cc_age := cc_age cc\<rparr>) s')"
      by (rule updated_set [OF u'])
        (use c' up(1) updated_wf [OF u up(1)] wf in \<open>simp_all add: slots_up_def config_wf_def\<close>,
         subst up(2), simp)
    then show "post (Live (True, set_cfg a (up\<lparr>cc_age := cc_age cc\<rparr>) s'))
      (\<lambda>(ch, s'). updated a (c\<lparr>cc_age := cc_age cc\<rparr>) b s') dead_ok" by simp
  qed
  with up(1) g u show ?thesis by (auto simp: updt_age_def deref_def)
qed

section \<open>Growing and shrinking\<close>

lemma inv_resize:
  assumes s: "srv_inv s" and a: "cfgs s a = Some up" and n: "0 \<le> n" "is_int n"
    and len: "length chs = nat n"
    and procs: "\<And>i p. i < length chs \<Longrightarrow> chs ! i = Proc p \<Longrightarrow>
      i < length (cc_childs up) \<and> cc_childs up ! i = Proc p"
    and kept: "\<And>i p. i < length (cc_childs up) \<Longrightarrow> cc_childs up ! i = Proc p \<Longrightarrow>
      i < length chs \<and> chs ! i = Proc p"
  shows "srv_inv (set_cfg a (up\<lparr>cc_instances := n, cc_childs := chs\<rparr>) s)"
proof -
  let ?up = "up\<lparr>cc_instances := n, cc_childs := chs\<rparr>"
  let ?t = "set_cfg a ?up s"
  have "slots_ok ((cfgs s)(a \<mapsto> ?up)) (procs s)"
  proof (rule slots_okI)
    fix b c i p
    assume c: "((cfgs s)(a \<mapsto> ?up)) b = Some c" "i < length (cc_childs c)" "cc_childs c ! i = Proc p"
    obtain c0 where "cfgs s b = Some c0" "i < length (cc_childs c0)" "cc_childs c0 ! i = Proc p"
      using c a procs by (auto split: if_splits)
    then show "\<exists>pr. procs s p = Some pr \<and> p_child_config pr = Some b \<and> p_instance pr = i"
      using inv_slot_proc [OF s] by metis
  next
    fix p pr b
    assume "procs s p = Some pr" "p_child_config pr = Some b"
    then obtain c0 where "cfgs s b = Some c0" "p_instance pr < length (cc_childs c0)"
      "cc_childs c0 ! p_instance pr = Proc p"
      using inv_proc_group [OF s] by metis
    then show "\<exists>c. ((cfgs s)(a \<mapsto> ?up)) b = Some c \<and> p_instance pr < length (cc_childs c) \<and>
        cc_childs c ! p_instance pr = Proc p"
      using a kept by (cases "b = a") auto
  qed
  moreover have "registry_ok ?t"
    using s a group_keys_upd [OF a, of ?up] by (auto simp: srv_inv_def registry_ok_def set_cfg_def)
  moreover have "config_wf ?up" using inv_sizes [OF s a] n(2) by (simp add: config_wf_def)
  then have "sizes_ok ?t"
    using s n(1) len by (auto simp: srv_inv_def sizes_ok_def set_cfg_def)
  moreover have "addrs_ok ?t"
    using s a by (auto simp: srv_inv_def addrs_ok_def set_cfg_def)
  ultimately show ?thesis
    using s by (simp add: srv_inv_def set_cfg_def kids_ok_def conns_ok_def subs_live_def conn_live_def)
qed

lemma instances_len: "updated a c b s \<Longrightarrow> cfgs s a = Some up \<Longrightarrow>
  0 \<le> cc_instances up \<and> length (cc_childs up) = nat (cc_instances up)"
  using inv_sizes [of s a up] by (simp add: updated_def srv_ok_def)

text \<open>From the result of a loop back to \<open>updated\<close>.\<close>

lemma fills_updated:
  assumes u: "updated a c b s" and f: "fills True P a up k n s1 s'"
    and s1: "cfgs s1 = (cfgs s)(a \<mapsto> up)" "front s1 = front s" "acts_grow s s1"
    and c': "up = c'\<lparr>cc_childs := cc_childs up\<rparr>"
    and ups: "\<And>chs. \<not> failed s' \<Longrightarrow> length chs = length (cc_childs up) \<Longrightarrow>
      \<forall>j. j < k \<or> n \<le> j \<longrightarrow> chs ! j = cc_childs up ! j \<Longrightarrow> \<forall>j. k \<le> j \<and> j < n \<longrightarrow> P (chs ! j) \<Longrightarrow>
      slots_up (up\<lparr>cc_childs := chs\<rparr>)"
  shows "updated a c' b s'"
proof -
  obtain chs where s': "srv_inv s'" "front s' = front s1" "acts_grow s1 s'"
    and chs: "cfgs s' = (cfgs s1)(a \<mapsto> up\<lparr>cc_childs := chs\<rparr>)" "length chs = length (cc_childs up)"
      "\<forall>j. j < k \<or> n \<le> j \<longrightarrow> chs ! j = cc_childs up ! j"
      "failed s' \<or> (\<forall>j. k \<le> j \<and> j < n \<longrightarrow> P (chs ! j))"
    using f by (auto simp: fills_def)
  have s: "srv_ok s" "front s = front b" "acts_grow b s" "\<exists>x. cfgs s = (cfgs b)(a \<mapsto> x)"
    using u by (auto simp: updated_def)
  have g: "acts_grow s s'" by (rule acts_grow_trans [OF s1(3) s'(3)])
  have m: "cfgs s' = (cfgs s)(a \<mapsto> up\<lparr>cc_childs := chs\<rparr>)" using chs(1) s1(1) by simp
  have "sup_inv s'"
  proof (cases "failed s'")
    case True
    then show ?thesis by (simp add: sup_inv_def)
  next
    case False
    with chs have "slots_up (up\<lparr>cc_childs := chs\<rparr>)" by (intro ups) auto
    then show ?thesis by (rule sup_inv_upd [OF srv_okD(2) [OF s(1)] g m])
  qed
  moreover have "acts_grow b s'" by (rule acts_grow_trans [OF s(3) g])
  moreover have "cfgs s' = (cfgs b)(a \<mapsto> up\<lparr>cc_childs := chs\<rparr>)" using m s(4) by auto
  moreover have "up\<lparr>cc_childs := chs\<rparr> = c'\<lparr>cc_childs := chs\<rparr>" by (subst c') simp
  ultimately show ?thesis
    using s' s1(2) s(2) unfolding updated_def by (intro conjI exI [of _ chs]) (simp_all add: srv_ok_def)
qed

lemma updt_grow_post:
  assumes E: "fork_fresh E" and u: "updated a c b s" and up: "cfgs s a = Some up" "up = c\<lparr>cc_childs := cc_childs up\<rparr>"
    and n: "cc_instances up < n" "is_int n"
  shows "post (updt_grow E a n s) (updated a (c\<lparr>cc_instances := n\<rparr>) b) dead_ok"
proof -
  let ?k = "length (cc_childs up)"
  let ?chs = "cc_childs up @ replicate (nat n - ?k) Uninit"
  let ?up = "up\<lparr>cc_instances := n, cc_childs := ?chs\<rparr>"
  let ?s1 = "set_cfg a ?up s"
  let ?P = "\<lambda>sl. if cc_status up = STATUS_RUNNING then is_proc sl else sl = Null"
  have l: "0 \<le> cc_instances up" "?k = nat (cc_instances up)" using instances_len [OF u up(1)] by auto
  have inv: "srv_inv s" using u by (simp add: updated_def srv_ok_def)
  have "srv_inv (set_cfg a (up\<lparr>cc_instances := n, cc_childs := ?chs\<rparr>) s)"
    by (rule inv_resize [OF inv up(1)]) (use n l in \<open>auto simp: nth_append split: if_splits\<close>)
  then have i1: "srv_inv ?s1" .
  have "post (foldO (updt_grow_slot E a) [?k ..< nat n] ?s1) (fills True ?P a ?up ?k (nat n) ?s1) dead_ok"
  proof (rule fill_loop [where F = True, OF _ i1])
    fix i t x
    assume t: "srv_inv t" "cfgs t a = Some x" "x = ?up\<lparr>cc_childs := cc_childs x\<rparr>" "?k \<le> i" "i < nat n"
      "i < length (cc_childs x)" "cc_childs x ! i = cc_childs ?up ! i"
    have st: "cc_status x = cc_status up" by (subst t(3)) simp
    have un: "cc_childs x ! i = Uninit" using t by (simp add: nth_append)
    then have free: "slot_free x i" using t by (simp add: slot_free_def)
    let ?R = "\<lambda>t'. srv_inv t' \<and> front t' = front t \<and> acts_grow t t' \<and>
        (\<exists>sl. cfgs t' = (cfgs t)(a \<mapsto> x\<lparr>cc_childs := (cc_childs x)[i := sl]\<rparr>) \<and> (True \<and> failed t' \<or> ?P sl))"
    show "post (updt_grow_slot E a i t) ?R dead_ok"
    proof (cases "cc_status up = STATUS_RUNNING")
      case True
      have "post (bindO (spawn E a i t) (\<lambda>(ok, s). Live s)) ?R dead_ok"
        unfolding post_bind
        by (rule post_mono [OF aborted_dead [OF spawn_slot [OF E t(1,2) free]]])
          (use True in \<open>simp_all split: prod.splits\<close>)
      with True st t(2) show ?thesis by (simp add: updt_grow_slot_def deref_def)
    next
      case False
      let ?x = "x\<lparr>cc_childs := (cc_childs x)[i := Null]\<rparr>"
      have x0: "0 \<le> cc_instances x" "length (cc_childs x) = nat (cc_instances x)" "is_int (cc_instances x)"
        using inv_sizes [OF t(1,2)] by (simp_all add: config_wf_def)
      have "srv_inv (set_cfg a (x\<lparr>cc_instances := cc_instances x, cc_childs := (cc_childs x)[i := Null]\<rparr>) t)"
        by (rule inv_resize [OF t(1,2) x0(1,3)])
          (use x0 un t(6) in \<open>auto simp: nth_list_update split: if_splits\<close>)
      then have "srv_inv (set_cfg a ?x t)" by simp
      then have "?R (set_cfg a ?x t)" using False by auto
      with False st t(2,6) show ?thesis by (simp add: updt_grow_slot_def deref_def set_child_def)
    qed
  qed (use n l in simp_all)
  then have "post (foldO (updt_grow_slot E a) [?k ..< nat n] ?s1) (updated a (c\<lparr>cc_instances := n\<rparr>) b) dead_ok"
  proof (rule post_mono)
    fix s'
    assume f: "fills True ?P a ?up ?k (nat n) ?s1 s'"
    show "updated a (c\<lparr>cc_instances := n\<rparr>) b s'"
    proof (rule fills_updated [OF u f])
      show "?up = c\<lparr>cc_instances := n, cc_childs := cc_childs ?up\<rparr>" by (subst up(2)) simp
      fix chs
      assume ok: "\<not> failed s'" and chs: "length chs = length (cc_childs ?up)"
        "\<forall>j. j < ?k \<or> nat n \<le> j \<longrightarrow> chs ! j = cc_childs ?up ! j" "\<forall>j. ?k \<le> j \<and> j < nat n \<longrightarrow> ?P (chs ! j)"
      have "\<not> failed s" using ok f acts_grow_failed [of ?s1 s'] by (auto simp: fills_def failed_def)
      then have up': "slots_up up" using u up(1) sup_slots by (auto simp: updated_def srv_ok_def)
      have "sl \<noteq> Uninit \<and> (cc_status up = STATUS_RUNNING \<longrightarrow> sl \<noteq> Null)" if "sl \<in> set chs" for sl
      proof -
        obtain j where j: "j < length chs" "chs ! j = sl" using \<open>sl \<in> set chs\<close> by (auto simp: in_set_conv_nth)
        show ?thesis
        proof (cases "j < ?k")
          case True
          then have "sl \<in> set (cc_childs up)" using j chs(2) by (auto simp: nth_append)
          with up' show ?thesis by (simp add: slots_up_def)
        next
          case False
          then have "?P sl" using j chs(1,3) l n by auto
          then show ?thesis by (auto split: if_splits)
        qed
      qed
      then show "slots_up (?up\<lparr>cc_childs := chs\<rparr>)" by (simp add: slots_up_def)
    qed simp_all
  qed
  moreover have "updt_grow E a n s = foldO (updt_grow_slot E a) [?k ..< nat n] ?s1"
    using up(1) l by (simp add: updt_grow_def deref_def Let_def)
  ultimately show ?thesis by simp
qed

text \<open>A process is let go: it loses its group, and its slot is cleared.\<close>

lemma inv_release:
  assumes s: "srv_inv s" and a: "cfgs s a = Some x" and i: "i < length (cc_childs x)"
    and p: "cc_childs x ! i = Proc p" and pr: "procs s p = Some pr"
  shows "srv_inv (set_cfg a (x\<lparr>cc_childs := (cc_childs x)[i := Null]\<rparr>)
    (set_proc p (pr\<lparr>p_child_config := None\<rparr>) s))"
proof -
  let ?x = "x\<lparr>cc_childs := (cc_childs x)[i := Null]\<rparr>"
  let ?pr = "pr\<lparr>p_child_config := None\<rparr>"
  let ?t = "set_cfg a ?x (set_proc p ?pr s)"
  have own: "p_child_config pr = Some a" "p_instance pr = i"
    using inv_slot_proc [OF s a i p] pr by auto
  have "slots_ok ((cfgs s)(a \<mapsto> ?x)) ((procs s)(p \<mapsto> ?pr))"
  proof (rule slots_okI)
    fix b c j q
    assume c: "((cfgs s)(a \<mapsto> ?x)) b = Some c" "j < length (cc_childs c)" "cc_childs c ! j = Proc q"
    obtain c0 where c0: "cfgs s b = Some c0" "j < length (cc_childs c0)" "cc_childs c0 ! j = Proc q"
      "\<not> (b = a \<and> j = i)"
      using c a i by (cases "b = a"; cases "j = i") auto
    obtain r where r: "procs s q = Some r" "p_child_config r = Some b" "p_instance r = j"
      by (rule inv_slot_proc [OF s c0(1-3)])
    have "q \<noteq> p" using r c0(4) pr own by auto
    with r show "\<exists>r. ((procs s)(p \<mapsto> ?pr)) q = Some r \<and> p_child_config r = Some b \<and> p_instance r = j"
      by simp
  next
    fix q r b
    assume r: "((procs s)(p \<mapsto> ?pr)) q = Some r" "p_child_config r = Some b"
    then have q: "q \<noteq> p" "procs s q = Some r" by (auto split: if_splits)
    obtain c where c: "cfgs s b = Some c" "p_instance r < length (cc_childs c)"
      "cc_childs c ! p_instance r = Proc q"
      by (rule inv_proc_group [OF s q(2) r(2)])
    show "\<exists>c. ((cfgs s)(a \<mapsto> ?x)) b = Some c \<and> p_instance r < length (cc_childs c) \<and>
        cc_childs c ! p_instance r = Proc q"
    proof (cases "b = a")
      case True
      with c a p q(1) have "p_instance r \<noteq> i" by auto
      with True c a show ?thesis by simp
    qed (use c in simp)
  qed
  moreover have "pid_entries ((procs s)(p \<mapsto> ?pr)) = pid_entries (procs s)"
  proof (rule set_eqI)
    fix e
    show "e \<in> pid_entries ((procs s)(p \<mapsto> ?pr)) \<longleftrightarrow> e \<in> pid_entries (procs s)"
      using pr by (cases e) (auto simp: in_pid_entries)
  qed
  then have "table_ok (process_hash s) ((procs s)(p \<mapsto> ?pr))"
    using s by (simp add: srv_inv_def table_ok_def)
  moreover have "registry_ok ?t"
    using s a group_keys_upd [OF a, of ?x] by (auto simp: srv_inv_def registry_ok_def set_cfg_def set_proc_def)
  moreover have "sizes_ok ?t"
    using s inv_sizes [OF s a] by (auto simp: srv_inv_def sizes_ok_def set_cfg_def set_proc_def config_wf_def)
  moreover have "kids_ok ?t"
    using s pr by (auto simp: srv_inv_def kids_ok_def set_cfg_def set_proc_def)
  moreover have "addrs_ok ?t"
    using s a pr by (auto simp: srv_inv_def addrs_ok_def set_cfg_def set_proc_def)
  ultimately show ?thesis
    using s by (simp add: srv_inv_def set_cfg_def set_proc_def conns_ok_def subs_live_def conn_live_def)
qed

lemma inv_clear_null:
  assumes s: "srv_inv s" and a: "cfgs s a = Some x" and i: "slot_free x i"
  shows "srv_inv (set_cfg a (x\<lparr>cc_childs := (cc_childs x)[i := Null]\<rparr>) s)"
proof -
  have x: "0 \<le> cc_instances x" "length (cc_childs x) = nat (cc_instances x)" "is_int (cc_instances x)"
    using inv_sizes [OF s a] by (simp_all add: config_wf_def)
  have "srv_inv (set_cfg a (x\<lparr>cc_instances := cc_instances x, cc_childs := (cc_childs x)[i := Null]\<rparr>) s)"
    by (rule inv_resize [OF s a x(1,3)])
      (use x i in \<open>auto simp: slot_free_def nth_list_update split: if_splits\<close>)
  then show ?thesis by simp
qed

lemma updt_shrink_post:
  assumes u: "updated a c b s" and up: "cfgs s a = Some up" "up = c\<lparr>cc_childs := cc_childs up\<rparr>"
    and n: "0 \<le> n" "n < cc_instances up"
  shows "post (updt_shrink a n s) (updated a (c\<lparr>cc_instances := n\<rparr>) b) dead_ok"
proof -
  let ?k = "length (cc_childs up)"
  have l: "0 \<le> cc_instances up" "?k = nat (cc_instances up)" using instances_len [OF u up(1)] by auto
  have ok: "srv_ok s" and inv: "srv_inv s" using u by (simp_all add: updated_def srv_ok_def)
  have in_n: "is_int n"
    using updated_wf [OF u up(1)] n by (auto simp: config_wf_def is_int_def)
  have "post (foldO (updt_shrink_slot a) [nat n ..< ?k] s) (fills False (\<lambda>sl. sl = Null) a up (nat n) ?k s) dead_ok"
  proof (rule fill_loop [where F = False, OF _ inv up(1)])
    fix i t x
    assume t: "srv_inv t" "acts_grow s t" "cfgs t a = Some x" "x = up\<lparr>cc_childs := cc_childs x\<rparr>" "i < ?k"
      "i < length (cc_childs x)" "cc_childs x ! i = cc_childs up ! i"
    let ?R = "\<lambda>t'. srv_inv t' \<and> front t' = front t \<and> acts_grow t t' \<and>
        (\<exists>sl. cfgs t' = (cfgs t)(a \<mapsto> x\<lparr>cc_childs := (cc_childs x)[i := sl]\<rparr>) \<and> (False \<and> failed t' \<or> sl = Null))"
    show "post (updt_shrink_slot a i t) ?R dead_ok"
    proof (cases "cc_childs x ! i")
      case Uninit
      then have "Uninit \<in> set (cc_childs up)" using t(5,7) by (metis nth_mem)
      then have "\<not> slots_up up" by (auto simp: slots_up_def)
      then have "failed s" using sup_slots [OF srv_okD(2) [OF ok] _ up(1)] by blast
      then have "failed t" by (rule acts_grow_failed [OF t(2)])
      with Uninit t show ?thesis by (simp add: updt_shrink_slot_def get_child_def deref_def)
    next
      case Null
      then have "slot_free x i" using t(6) by (simp add: slot_free_def)
      from inv_clear_null [OF t(1,3) this]
      have "?R (set_cfg a (x\<lparr>cc_childs := (cc_childs x)[i := Null]\<rparr>) t)" by auto
      with Null t(3,6) show ?thesis
        by (simp add: updt_shrink_slot_def get_child_def deref_def set_child_def)
    next
      case (Proc p)
      obtain pr where pr: "procs t p = Some pr" by (rule inv_slot_proc [OF t(1,3,6) Proc])
      from inv_release [OF t(1,3,6) Proc pr]
      have "?R (set_cfg a (x\<lparr>cc_childs := (cc_childs x)[i := Null]\<rparr>)
          (set_proc p (pr\<lparr>p_child_config := None\<rparr>) t))" by auto
      with Proc t(3,6) pr show ?thesis
        by (simp add: updt_shrink_slot_def get_child_def deref_def set_child_def)
    qed
  qed simp
  then have "post (foldO (updt_shrink_slot a) [nat n ..< ?k] s)
      (\<lambda>s'. post (deref cfgs a s' (\<lambda>up.
          Live (set_cfg a (up\<lparr>cc_instances := n, cc_childs := take (nat n) (cc_childs up)\<rparr>) s')))
        (updated a (c\<lparr>cc_instances := n\<rparr>) b) dead_ok) dead_ok"
  proof (rule post_mono)
    fix s'
    assume f: "fills False (\<lambda>sl. sl = Null) a up (nat n) ?k s s'"
    then obtain chs where s': "srv_inv s'" "front s' = front s" "acts_grow s s'"
      and chs: "cfgs s' = (cfgs s)(a \<mapsto> up\<lparr>cc_childs := chs\<rparr>)" "length chs = ?k"
        "\<forall>j. j < nat n \<or> ?k \<le> j \<longrightarrow> chs ! j = cc_childs up ! j"
        "\<forall>j. nat n \<le> j \<and> j < ?k \<longrightarrow> chs ! j = Null"
      by (auto simp: fills_def)
    let ?x = "up\<lparr>cc_instances := n, cc_childs := take (nat n) chs\<rparr>"
    let ?t = "set_cfg a ?x s'"
    have a': "cfgs s' a = Some (up\<lparr>cc_childs := chs\<rparr>)" using chs(1) by simp
    have "srv_inv (set_cfg a ((up\<lparr>cc_childs := chs\<rparr>)\<lparr>cc_instances := n, cc_childs := take (nat n) chs\<rparr>) s')"
    proof (rule inv_resize [OF s'(1) a' n(1) in_n])
      show "length (take (nat n) chs) = nat n" using chs(2) l n by simp
      show "i < length (take (nat n) chs) \<and> take (nat n) chs ! i = Proc p"
        if "i < length (cc_childs (up\<lparr>cc_childs := chs\<rparr>))" "cc_childs (up\<lparr>cc_childs := chs\<rparr>) ! i = Proc p" for i p
      proof -
        have "\<not> nat n \<le> i" using that chs(2,4) by auto
        with that show ?thesis by simp
      qed
    qed simp
    moreover have "(up\<lparr>cc_childs := chs\<rparr>)\<lparr>cc_instances := n, cc_childs := take (nat n) chs\<rparr> = ?x"
      by (cases up) simp
    ultimately have "srv_inv ?t" by simp
    moreover have "sup_inv ?t"
    proof (cases "failed s")
      case True
      then have "failed ?t" using acts_grow_failed [OF s'(3)] by (simp add: failed_def)
      then show ?thesis by (simp add: sup_inv_def)
    next
      case False
      then have "slots_up up" by (rule sup_slots [OF srv_okD(2) [OF ok] _ up(1)])
      moreover have "sl \<in> set (cc_childs up)" if "sl \<in> set (take (nat n) chs)" for sl
        using that chs(2,3) by (auto simp: in_set_conv_nth)
      ultimately have "slots_up ?x" by (auto simp: slots_up_def)
      moreover have "cfgs ?t = (cfgs s)(a \<mapsto> ?x)" using chs(1) by simp
      moreover have "acts_grow s ?t" using s'(3) by simp
      ultimately show ?thesis using sup_inv_upd [OF srv_okD(2) [OF ok]] by blast
    qed
    moreover have "acts_grow b ?t" "front ?t = front b" "cfgs ?t = (cfgs b)(a \<mapsto> ?x)"
      using u s' chs(1) acts_grow_trans by (auto simp: updated_def)
    moreover have "?x = (c\<lparr>cc_instances := n\<rparr>)\<lparr>cc_childs := cc_childs ?x\<rparr>" by (subst up(2)) simp
    ultimately have "updated a (c\<lparr>cc_instances := n\<rparr>) b ?t"
      by (intro updatedI) (simp_all only: srv_ok_def simp_thms)
    moreover have "set_cfg a ((up\<lparr>cc_childs := chs\<rparr>)\<lparr>cc_instances := n, cc_childs := take (nat n) chs\<rparr>) s' = ?t"
      by (cases up) simp
    ultimately show "post (deref cfgs a s' (\<lambda>up.
          Live (set_cfg a (up\<lparr>cc_instances := n, cc_childs := take (nat n) (cc_childs up)\<rparr>) s')))
        (updated a (c\<lparr>cc_instances := n\<rparr>) b) dead_ok"
      using a' by (simp add: deref_def)
  qed simp
  with up(1) l show ?thesis by (simp add: updt_shrink_def deref_def post_bind)
qed

lemma updt_instances_post:
  assumes E: "fork_fresh E" and u: "updated a c b s" and wf: "config_wf cc"
    and n: "cc_instances cc = -1 \<or> 1 \<le> cc_instances cc"
  shows "post (updt_instances E a cc s)
    (\<lambda>(ch, s'). updated a (c\<lparr>cc_instances := given (cc_instances cc) (cc_instances c)\<rparr>) b s') dead_ok"
proof -
  obtain up where up: "cfgs s a = Some up" "up = c\<lparr>cc_childs := cc_childs up\<rparr>"
    using u by (rule updatedE)
  have g: "cc_instances up = cc_instances c" by (subst up(2)) simp
  have int: "is_int (cc_instances cc)" using wf by (simp add: config_wf_def)
  show ?thesis
  proof (cases "cc_instances cc \<noteq> -1 \<and> cc_instances cc \<noteq> cc_instances up")
    case True
    have "post (bindO (slog E m s) (\<lambda>s.
            bindO (if cc_instances cc > cc_instances up then updt_grow E a (cc_instances cc) s
                   else updt_shrink a (cc_instances cc) s) (\<lambda>s. Live (True, s))))
        (\<lambda>(ch, s'). updated a (c\<lparr>cc_instances := cc_instances cc\<rparr>) b s') dead_ok" for m
    proof (rule slog_updated [OF u])
      fix s'
      assume u': "updated a c b s'" and c': "cfgs s' = cfgs s"
      have up': "cfgs s' a = Some up" using c' up(1) by simp
      have "post (if cc_instances cc > cc_instances up then updt_grow E a (cc_instances cc) s'
             else updt_shrink a (cc_instances cc) s')
          (updated a (c\<lparr>cc_instances := cc_instances cc\<rparr>) b) dead_ok"
        using updt_grow_post [OF E u' up' up(2) _ int] updt_shrink_post [OF u' up' up(2)] True n
        by auto
      then show "post (bindO (if cc_instances cc > cc_instances up then updt_grow E a (cc_instances cc) s'
             else updt_shrink a (cc_instances cc) s') (\<lambda>s. Live (True, s)))
          (\<lambda>(ch, s'). updated a (c\<lparr>cc_instances := cc_instances cc\<rparr>) b s') dead_ok"
        by (simp add: post_bind)
    qed
    with True up(1) show ?thesis by (simp add: updt_instances_def deref_def given_def)
  next
    case False
    then have "given (cc_instances cc) (cc_instances c) = cc_instances c"
      using g by (auto simp: given_def)
    with False up(1) u show ?thesis by (auto simp: updt_instances_def deref_def)
  qed
qed

section \<open>The status\<close>

text \<open>Starting what is missing: every slot ends up with a process, or a call had failed.\<close>

lemma updt_start_loop:
  assumes E: "fork_fresh E" and ok: "srv_ok s0" and s: "srv_inv s" "cfgs s a = Some x"
    and x: "cfgs s0 a = Some x0" "cc_childs x = cc_childs x0" and g: "acts_grow s0 s"
  shows "post (foldO (updt_start_slot E a) [0 ..< length (cc_childs x)] s)
    (fills True is_proc a x 0 (length (cc_childs x)) s) dead_ok"
proof (rule fill_loop [where F = True, OF _ s order_refl])
  fix i t y
  assume t: "srv_inv t" "acts_grow s t" "cfgs t a = Some y" "i < length (cc_childs y)"
    "cc_childs y ! i = cc_childs x ! i" "i < length (cc_childs x)"
  let ?R = "\<lambda>t'. srv_inv t' \<and> front t' = front t \<and> acts_grow t t' \<and>
      (\<exists>sl. cfgs t' = (cfgs t)(a \<mapsto> y\<lparr>cc_childs := (cc_childs y)[i := sl]\<rparr>) \<and>
            (True \<and> failed t' \<or> is_proc sl))"
  show "post (updt_start_slot E a i t) ?R dead_ok"
  proof (cases "cc_childs y ! i")
    case Uninit
    then have "Uninit \<in> set (cc_childs x0)" using t(5,6) x(2) by (metis nth_mem)
    then have "\<not> slots_up x0" by (auto simp: slots_up_def)
    then have "failed s0" using sup_slots [OF srv_okD(2) [OF ok] _ x(1)] by blast
    then have "failed t" using acts_grow_failed [OF g] acts_grow_failed [OF t(2)] by blast
    with Uninit t(3,4) show ?thesis
      by (simp add: updt_start_slot_def process_find_instance_def get_child_def deref_def)
  next
    case Null
    then have free: "slot_free y i" using t(4) by (simp add: slot_free_def)
    have "post (bindO (spawn E a i t) (\<lambda>(ok, s). Live s)) ?R dead_ok"
      unfolding post_bind
      by (rule post_mono [OF aborted_dead [OF spawn_slot [OF E t(1,3) free]]])
        (simp_all split: prod.splits)
    with Null t(3,4) show ?thesis
      by (simp add: updt_start_slot_def process_find_instance_def get_child_def deref_def)
  next
    case (Proc p)
    then have "y\<lparr>cc_childs := (cc_childs y)[i := Proc p]\<rparr> = y"
      by (metis child_config.surjective child_config.update_convs(18) list_update_id)
    then have "cfgs t = (cfgs t)(a \<mapsto> y\<lparr>cc_childs := (cc_childs y)[i := Proc p]\<rparr>)"
      using t(3) by auto
    then have "\<exists>sl. cfgs t = (cfgs t)(a \<mapsto> y\<lparr>cc_childs := (cc_childs y)[i := sl]\<rparr>) \<and>
        (True \<and> failed t \<or> is_proc sl)"
      by (intro exI [of _ "Proc p"] conjI) (assumption, simp)
    with t(1) have "?R t" by (intro conjI) (assumption | rule refl acts_grow_refl)+
    with Proc t(3,4) show ?thesis
      by (simp add: updt_start_slot_def process_find_instance_def get_child_def deref_def)
  qed
qed

text \<open>The last statements of the status step: the status is set, and sent.\<close>

lemma updt_status_finish:
  assumes s': "srv_inv s'" "front s' = front b" "acts_grow b s'"
      "cfgs s' = (cfgs b)(a \<mapsto> e\<lparr>cc_childs := chs\<rparr>)"
      "failed s' \<or> (\<forall>d z. d \<noteq> a \<longrightarrow> cfgs b d = Some z \<longrightarrow> slots_up z) \<and>
         (\<forall>sl \<in> set chs. sl \<noteq> Uninit \<and> (cc_status cc = STATUS_RUNNING \<longrightarrow> sl \<noteq> Null))"
    and wfx: "config_wf (e\<lparr>cc_childs := chs\<rparr>)"
    and y: "e\<lparr>cc_childs := chs, cc_status := cc_status cc\<rparr> = c\<lparr>cc_childs := chs\<rparr>"
    and wf: "config_wf cc"
  shows "post (deref cfgs a s' (\<lambda>up.
         bindO (send_status_update_notification E (fmt_s (cc_name up)) (cc_status cc)
                  (set_cfg a (up\<lparr>cc_status := cc_status cc\<rparr>) s')) (\<lambda>s. Live (True, s))))
    (\<lambda>(ch, s'). updated a c b s') dead_ok"
proof -
  let ?x = "e\<lparr>cc_childs := chs\<rparr>"
  let ?y = "?x\<lparr>cc_status := cc_status cc\<rparr>"
  have a': "cfgs s' a = Some ?x" using s'(4) by simp
  have "config_wf ?y" using wfx wf by (simp add: config_wf_def)
  then have i: "srv_inv (set_cfg a ?y s')" by (intro inv_set_cfg [OF s'(1) a']) simp_all
  have "slots_up z" if "((cfgs s')(a \<mapsto> ?y)) d = Some z" "\<not> failed s'" for d z
  proof (cases "d = a")
    case True
    with that have "z = ?y" by simp
    with that(2) s'(5) show ?thesis by (simp add: slots_up_def)
  next
    case False
    then have "cfgs b d = Some z" using that(1) s'(4) by simp
    with False that(2) s'(5) show ?thesis by blast
  qed
  then have "failed s' \<or> (\<forall>z \<in> ran ((cfgs s')(a \<mapsto> ?y)). slots_up z)" unfolding ran_def by blast
  then have "sup_inv (set_cfg a ?y s')" by (simp add: sup_inv_def failed_def)
  then have ok: "srv_ok (set_cfg a ?y s')" using i by (simp add: srv_ok_def)
  have "cfgs (set_cfg a ?y s') = (cfgs b)(a \<mapsto> c\<lparr>cc_childs := chs\<rparr>)" using s'(4) y by simp
  then have upd: "updated a c b (set_cfg a ?y s')"
    unfolding updated_def using ok s'(2,3) by (intro conjI exI [of _ chs]) simp_all
  have "post (send_status_update_notification E n st (set_cfg a ?y s'))
      (\<lambda>s. post (Live (True, s)) (\<lambda>(ch, s'). updated a c b s') dead_ok) dead_ok" for n st
    by (rule aborted_dead, rule send_status_update_notification_full [OF i])
      (use updated_full [OF upd] in simp)
  with a' show ?thesis by (simp add: deref_def post_bind)
qed

lemma updt_status_post:
  assumes E: "fork_fresh E" and u: "updated a c b s" and wf: "config_wf cc"
  shows "post (updt_status E a cc s)
    (\<lambda>(ch, s'). updated a
       (c\<lparr>cc_error := (if given (cc_status cc) (cc_status c) = cc_status c then cc_error c else 0),
          cc_status := given (cc_status cc) (cc_status c)\<rparr>) b s') dead_ok"
proof -
  obtain up where up: "cfgs s a = Some up" "up = c\<lparr>cc_childs := cc_childs up\<rparr>"
    using u by (rule updatedE)
  have g: "cc_status up = cc_status c" by (subst up(2)) simp
  let ?c = "c\<lparr>cc_error := 0, cc_status := cc_status cc\<rparr>"
  let ?e = "up\<lparr>cc_error := 0\<rparr>"
  let ?fin = "\<lambda>s. deref cfgs a s (\<lambda>up.
         bindO (send_status_update_notification E (fmt_s (cc_name up)) (cc_status cc)
                  (set_cfg a (up\<lparr>cc_status := cc_status cc\<rparr>) s)) (\<lambda>s. Live (True, s)))"
  have l: "0 \<le> cc_instances up" "length (cc_childs up) = nat (cc_instances up)"
    using instances_len [OF u up(1)] by auto
  have wfu: "config_wf up" by (rule updated_wf [OF u up(1)])
  show ?thesis
  proof (cases "cc_status cc \<noteq> -1 \<and> cc_status cc \<noteq> cc_status up")
    case False
    then have "given (cc_status cc) (cc_status c) = cc_status c" using g by (auto simp: given_def)
    with False up(1) u show ?thesis by (auto simp: updt_status_def deref_def)
  next
    case True
    have fin: "post (?fin s') (\<lambda>(ch, s'). updated a ?c b s') dead_ok"
      if s': "srv_inv s'" "front s' = front b" "acts_grow b s'"
        "cfgs s' = (cfgs b)(a \<mapsto> ?e\<lparr>cc_childs := chs\<rparr>)"
        "failed s' \<or> (\<forall>d z. d \<noteq> a \<longrightarrow> cfgs b d = Some z \<longrightarrow> slots_up z) \<and>
           (\<forall>sl \<in> set chs. sl \<noteq> Uninit \<and> (cc_status cc = STATUS_RUNNING \<longrightarrow> sl \<noteq> Null))" for s' chs
    proof (rule updt_status_finish [OF s' _ _ wf])
      show "config_wf (?e\<lparr>cc_childs := chs\<rparr>)" using wfu by (simp add: config_wf_def)
      show "?e\<lparr>cc_childs := chs, cc_status := cc_status cc\<rparr> = ?c\<lparr>cc_childs := chs\<rparr>"
        by (subst up(2)) simp
    qed
    have "post (bindO (slog E m s) (\<lambda>s.
            bindO (if cc_status up \<noteq> STATUS_RUNNING \<and> cc_status cc = STATUS_RUNNING
                   then foldO (updt_start_slot E a) [0 ..< nat (cc_instances up)] (set_cfg a ?e s)
                   else Live (set_cfg a ?e s)) ?fin))
        (\<lambda>(ch, s'). updated a ?c b s') dead_ok" for m
    proof (rule slog_updated [OF u])
      fix s1
      assume u1: "updated a c b s1" and c1: "cfgs s1 = cfgs s"
      let ?s2 = "set_cfg a ?e s1"
      have up1: "cfgs s1 a = Some up" using c1 up(1) by simp
      have wfe: "config_wf ?e" using wfu by (simp add: config_wf_def)
      have ok1: "srv_ok s1" "front s1 = front b" "acts_grow b s1" using u1 by (simp_all add: updated_def)
      have i2: "srv_inv ?s2" by (rule inv_set_cfg [OF srv_okD(1) [OF ok1(1)] up1]) (use wfe in simp_all)
      have m1: "cfgs s1 = (cfgs b)(a \<mapsto> up)" using u1 up1 by (auto elim: updatedE)
      have b2: "acts_grow b ?s2" "front ?s2 = front b" "cfgs ?s2 = (cfgs b)(a \<mapsto> ?e)"
        using ok1 m1 by simp_all
      have others: "slots_up z" if "\<not> failed s1" "d \<noteq> a" "cfgs b d = Some z" for d z
        by (rule sup_slots [OF srv_okD(2) [OF ok1(1)] that(1), where a = d]) (use that(2,3) m1 in simp)
      have self: "slots_up up" if "\<not> failed s1"
        by (rule sup_slots [OF srv_okD(2) [OF ok1(1)] that up1])
      show "post (bindO (if cc_status up \<noteq> STATUS_RUNNING \<and> cc_status cc = STATUS_RUNNING
                   then foldO (updt_start_slot E a) [0 ..< nat (cc_instances up)] ?s2
                   else Live ?s2) ?fin) (\<lambda>(ch, s'). updated a ?c b s') dead_ok"
      proof (cases "cc_status cc = STATUS_RUNNING")
        case False
        have e: "?e\<lparr>cc_childs := cc_childs up\<rparr> = ?e" by (cases up) simp
        have "post (?fin ?s2) (\<lambda>(ch, s'). updated a ?c b s') dead_ok"
        proof (rule fin [OF i2 b2(2,1)])
          show "cfgs ?s2 = (cfgs b)(a \<mapsto> ?e\<lparr>cc_childs := cc_childs up\<rparr>)" unfolding e by (rule b2(3))
          have "failed ?s2 = failed s1" by (simp add: failed_def)
          then show "failed ?s2 \<or> (\<forall>d z. d \<noteq> a \<longrightarrow> cfgs b d = Some z \<longrightarrow> slots_up z) \<and>
            (\<forall>sl \<in> set (cc_childs up). sl \<noteq> Uninit \<and> (cc_status cc = STATUS_RUNNING \<longrightarrow> sl \<noteq> Null))"
            using others self False by (auto simp: slots_up_def)
        qed
        with False show ?thesis by simp
      next
        case run: True
        have len: "length (cc_childs ?e) = nat (cc_instances up)" using l(2) by simp
        have "post (foldO (updt_start_slot E a) [0 ..< length (cc_childs ?e)] ?s2)
            (fills True is_proc a ?e 0 (length (cc_childs ?e)) ?s2) dead_ok"
          by (rule updt_start_loop [OF E ok1(1) i2 _ up1]) simp_all
        then have "post (foldO (updt_start_slot E a) [0 ..< nat (cc_instances up)] ?s2)
            (\<lambda>s'. post (?fin s') (\<lambda>(ch, s'). updated a ?c b s') dead_ok) dead_ok"
          unfolding len
        proof (rule post_mono)
          fix s'
          assume "fills True is_proc a ?e 0 (nat (cc_instances up)) ?s2 s'"
          then obtain chs where f: "srv_inv s'" "front s' = front ?s2" "acts_grow ?s2 s'"
            "cfgs s' = (cfgs ?s2)(a \<mapsto> ?e\<lparr>cc_childs := chs\<rparr>)"
            "failed s' \<or> (\<forall>j < length chs. is_proc (chs ! j))"
            unfolding fills_def len by auto
          have g: "acts_grow b s'" by (rule acts_grow_trans [OF b2(1) f(3)])
          have "failed s1 \<Longrightarrow> failed s'" using acts_grow_failed [OF f(3)] by (simp add: failed_def)
          moreover have "failed s' \<or> (\<forall>sl \<in> set chs. is_proc sl)"
            using f(5) by (metis in_set_conv_nth)
          ultimately have "failed s' \<or> (\<forall>d z. d \<noteq> a \<longrightarrow> cfgs b d = Some z \<longrightarrow> slots_up z) \<and>
            (\<forall>sl \<in> set chs. sl \<noteq> Uninit \<and> (cc_status cc = STATUS_RUNNING \<longrightarrow> sl \<noteq> Null))"
            using others by blast
          then show "post (?fin s') (\<lambda>(ch, s'). updated a ?c b s') dead_ok"
            by (intro fin [where chs = chs, OF f(1) _ g]) (use f b2 m1 in simp_all)
        qed simp_all
        with run True show ?thesis by (simp add: post_bind)
      qed
    qed
    with True up(1) g show ?thesis by (simp add: updt_status_def deref_def Let_def given_def)
  qed
qed

section \<open>The whole update\<close>

text \<open>The specification, one step at a time.\<close>

definition merge_steps :: "child_config \<Rightarrow> (child_config \<Rightarrow> child_config) list" where
  "merge_steps cc =
     [\<lambda>c. c\<lparr>cc_dir := newer (cc_dir cc) (cc_dir c)\<rparr>,
      \<lambda>c. c\<lparr>cc_heartbeat := newer (cc_heartbeat cc) (cc_heartbeat c)\<rparr>,
      \<lambda>c. c\<lparr>cc_fatal_cb := newer (cc_fatal_cb cc) (cc_fatal_cb c)\<rparr>,
      \<lambda>c. c\<lparr>cc_stdout := newer (cc_stdout cc) (cc_stdout c)\<rparr>,
      \<lambda>c. c\<lparr>cc_stderr := newer (cc_stderr cc) (cc_stderr c)\<rparr>,
      \<lambda>c. c\<lparr>cc_killsig := given (cc_killsig cc) (cc_killsig c)\<rparr>,
      \<lambda>c. c\<lparr>cc_instances := given (cc_instances cc) (cc_instances c)\<rparr>,
      \<lambda>c. c\<lparr>cc_error := (if given (cc_status cc) (cc_status c) = cc_status c then cc_error c else 0),
             cc_status := given (cc_status cc) (cc_status c)\<rparr>,
      \<lambda>c. c\<lparr>cc_age := if cc_age cc > 0 then cc_age cc else cc_age c\<rparr>]"

lemma merge_steps_eq: "fold (\<lambda>f. f) (merge_steps cc) up = merge cc up"
  by (simp add: merge_steps_def merge_def)

lemma run_steps_post:
  assumes "list_all2 (\<lambda>f g. \<forall>c s. updated a c b s \<longrightarrow>
      post (f s) (\<lambda>(ch, s'). updated a (g c) b s') dead_ok) fs gs"
    and "updated a c b s"
  shows "post (foldO (\<lambda>f (changed, s). bindO (f s) (\<lambda>(ch, s). Live (changed \<or> ch, s))) fs (chg, s))
    (\<lambda>(ch, s'). updated a (fold (\<lambda>f. f) gs c) b s') dead_ok"
  using assms
proof (induction fs gs arbitrary: c s chg rule: list_all2_induct)
  case Nil
  then show ?case by simp
next
  case (Cons f fs g gs)
  then have "post (f s) (\<lambda>(ch, s'). updated a (g c) b s') dead_ok" by blast
  then have "post (f s) (\<lambda>x. post (case x of (ch, s') \<Rightarrow>
      foldO (\<lambda>f (changed, s). bindO (f s) (\<lambda>(ch, s). Live (changed \<or> ch, s))) fs (chg \<or> ch, s'))
    (\<lambda>(ch, s'). updated a (fold (\<lambda>f. f) gs (g c)) b s') dead_ok) dead_ok"
    by (rule post_mono) (use Cons.IH in auto)
  then show ?case by (simp add: post_bind case_prod_unfold)
qed

lemma updt_dir_post:
  assumes "updated a c b s" and "pred_option is_cstr (cc_dir cc)"
  shows "post (updt_str E a ''dir'' cc_dir (\<lambda>v up. up\<lparr>cc_dir := v\<rparr>) cc s)
    (\<lambda>(ch, s'). updated a (c\<lparr>cc_dir := newer (cc_dir cc) (cc_dir c)\<rparr>) b s') dead_ok"
  using assms
  by (rule updt_str_post) (simp_all add: config_wf_def)

lemma updt_heartbeat_post:
  assumes "updated a c b s" and "pred_option is_cstr (cc_heartbeat cc)"
  shows "post (updt_str E a ''heartbeat'' cc_heartbeat (\<lambda>v up. up\<lparr>cc_heartbeat := v\<rparr>) cc s)
    (\<lambda>(ch, s'). updated a (c\<lparr>cc_heartbeat := newer (cc_heartbeat cc) (cc_heartbeat c)\<rparr>) b s') dead_ok"
  using assms
  by (rule updt_str_post) (simp_all add: config_wf_def)

lemma updt_fatal_cb_post:
  assumes "updated a c b s" and "pred_option is_cstr (cc_fatal_cb cc)"
  shows "post (updt_str E a ''fatal_cb'' cc_fatal_cb (\<lambda>v up. up\<lparr>cc_fatal_cb := v\<rparr>) cc s)
    (\<lambda>(ch, s'). updated a (c\<lparr>cc_fatal_cb := newer (cc_fatal_cb cc) (cc_fatal_cb c)\<rparr>) b s') dead_ok"
  using assms
  by (rule updt_str_post) (simp_all add: config_wf_def)

lemma updt_stdout_post:
  assumes "updated a c b s" and "pred_option is_cstr (cc_stdout cc)"
  shows "post (updt_str E a ''stdout'' cc_stdout (\<lambda>v up. up\<lparr>cc_stdout := v\<rparr>) cc s)
    (\<lambda>(ch, s'). updated a (c\<lparr>cc_stdout := newer (cc_stdout cc) (cc_stdout c)\<rparr>) b s') dead_ok"
  using assms
  by (rule updt_str_post) (simp_all add: config_wf_def)

lemma updt_stderr_post:
  assumes "updated a c b s" and "pred_option is_cstr (cc_stderr cc)"
  shows "post (updt_str E a ''stderr'' cc_stderr (\<lambda>v up. up\<lparr>cc_stderr := v\<rparr>) cc s)
    (\<lambda>(ch, s'). updated a (c\<lparr>cc_stderr := newer (cc_stderr cc) (cc_stderr c)\<rparr>) b s') dead_ok"
  using assms
  by (rule updt_str_post) (simp_all add: config_wf_def)

lemmas updt_str_posts = updt_dir_post updt_heartbeat_post updt_fatal_cb_post updt_stdout_post updt_stderr_post

lemma updt_steps_post:
  assumes E: "fork_fresh E" and wf: "config_wf cc" and n: "cc_instances cc = -1 \<or> 1 \<le> cc_instances cc"
  shows "list_all2 (\<lambda>f g. \<forall>c s. updated a c b s \<longrightarrow>
      post (f s) (\<lambda>(ch, s'). updated a (g c) b s') dead_ok) (updt_steps E a cc) (merge_steps cc)"
proof -
  have str: "pred_option is_cstr (cc_dir cc)" "pred_option is_cstr (cc_heartbeat cc)"
    "pred_option is_cstr (cc_fatal_cb cc)" "pred_option is_cstr (cc_stdout cc)"
    "pred_option is_cstr (cc_stderr cc)"
    using wf by (simp_all add: config_wf_def)
  show ?thesis
    unfolding updt_steps_def merge_steps_def
    by (intro list_all2_Cons [THEN iffD2] conjI allI impI list_all2_Nil [THEN iffD2] refl
        updt_str_posts updt_killsig_post updt_instances_post updt_status_post updt_age_post E wf n str)
qed

lemma c_updt_apply_post:
  assumes E: "fork_fresh E" and b: "srv_ok b" and con: "conn_live con b" and up: "cfgs b a = Some up"
    and wf: "config_wf cc" and n: "cc_instances cc = -1 \<or> 1 \<le> cc_instances cc"
  shows "post (c_updt_apply E con a cc b)
    (\<lambda>(cr, s'). cr \<and> srv_ok s' \<and> peers s' = peers b \<and>
       child_config_list s' = child_config_list b \<and>
       (\<exists>chs. cfgs s' = (cfgs b)(a \<mapsto> (merge cc up)\<lparr>cc_childs := chs\<rparr>))) dead_ok"
    (is "post _ ?Q _")
proof -
  have steps: "post (run_steps (updt_steps E a cc) b)
      (\<lambda>(ch, s'). updated a (merge cc up) b s') dead_ok"
    unfolding run_steps_def merge_steps_eq [symmetric]
    by (rule run_steps_post [OF updt_steps_post [OF E wf n] updated_refl [OF b up]])
  have fin: "post (if \<not> auto_dump s then reply E con True ''success'' True s
      else bindO (c_dump E con [] s) (\<lambda>(cr, s). Live (True, s))) ?Q dead_ok"
    if s: "updated a (merge cc up) b s" for s
  proof -
    have ok: "srv_ok s" "front s = front b" using s by (simp_all add: updated_def)
    have live: "conn_live con s" using front_conn_live [OF ok(2)] con by simp
    have Q: "?Q (True, t)" if t: "dump_frame s t" for t
      using dump_frame_ok [OF t ok(1)] dump_frame_peers [OF t] dump_frame_eqD(1,3) [OF t]
        peers_front [OF ok(2)] front_eqD(1) [OF ok(2)] s
      by (simp add: updated_def)
    show ?thesis
    proof (cases "auto_dump s")
      case True
      have "post (c_dump E con [] s) (\<lambda>x. post (case x of (cr, s) \<Rightarrow> Live (True, s)) ?Q dead_ok) dead_ok"
        by (rule post_mono [OF c_dump_post [OF srv_okD(1) [OF ok(1)] live]]) (use Q in auto)
      with True show ?thesis by (simp add: post_bind)
    next
      case False
      have "post (reply E con True ''success'' True s) (\<lambda>(cr, s'). cr \<and> dump_frame s s') dead_ok"
        by (rule reply_dump [OF srv_okD(1) [OF ok(1)] live dump_frame_refl])
      then have "post (reply E con True ''success'' True s) ?Q dead_ok"
        by (rule post_mono) (use Q in auto)
      with False show ?thesis by simp
    qed
  qed
  have "post (deref cfgs a s (\<lambda>up.
      bindO (if ch then send_group_cfg_update_notification E up s else Live s) (\<lambda>s.
      if \<not> auto_dump s then reply E con True ''success'' True s
      else bindO (c_dump E con [] s) (\<lambda>(cr, s). Live (True, s))))) ?Q dead_ok"
    if s: "updated a (merge cc up) b s" for ch s
  proof -
    obtain x where x: "cfgs s a = Some x" using s by (rule updatedE)
    have i: "srv_inv s" using s by (simp add: updated_def srv_ok_def)
    have "post (send_group_cfg_update_notification E x s)
        (\<lambda>s. post (if \<not> auto_dump s then reply E con True ''success'' True s
          else bindO (c_dump E con [] s) (\<lambda>(cr, s). Live (True, s))) ?Q dead_ok) dead_ok"
      by (rule aborted_dead, rule send_group_cfg_update_notification_full [OF i], rule fin,
          rule updated_full [OF s])
    with x fin [OF s] show ?thesis
      unfolding deref_def x option.case post_bind [of "if ch then _ else _"] by (cases ch) simp_all
  qed
  then show ?thesis
    unfolding c_updt_apply_def post_bind [of "run_steps _ _"]
    by (intro post_mono [OF steps]) auto
qed

text \<open>What the update accepts.\<close>

definition update_accepts :: "child_config \<Rightarrow> bool" where
  "update_accepts cc \<longleftrightarrow>
     cc_uid cc = -1 \<and> cc_gid cc = -1 \<and> cc_command cc = None \<and>
     (cc_instances cc = -1 \<or> 1 \<le> cc_instances cc \<and> cc_instances cc \<le> MAX_INSTANCES)"

lemma c_updt_eval:
  assumes u: "child_config_unserialize (tokener_parse E) buf = Live (Some cc)" and n: "cc_name cc = Some n"
  shows "(case child_config_find_by_name n s of
      None \<Rightarrow> c_updt E con buf s = reply E con False ''not found'' False s
    | Some a \<Rightarrow> if update_accepts cc then c_updt E con buf s = c_updt_apply E con a cc s
                else \<exists>code msg. c_updt E con buf s = reply E con code msg True s)"
  using u n by (auto simp: c_updt_def update_accepts_def split: option.split)

interpretation updt_cmd: handler c_updt
proof
  fix E s con buf
  assume E: "fork_fresh E" and s: "srv_ok s" "conn_live con s"
  let ?Q = "\<lambda>(cr, s'). srv_ok s' \<and> peers s' = peers s"
  let ?D = "\<lambda>h t. dead_ok h t \<or> h = Undefined \<and> \<not> payload_ok (tokener_parse E) buf"
  have safe: "post m ?Q ?D" if "serves s m" for m
    using that unfolding serves_def by (rule post_mono) auto
  have rep: "post (reply E con code msg cr s) ?Q ?D" for code msg cr
    by (rule safe [OF serves_reply [OF s refl]])
  show "post (c_updt E con buf s) ?Q ?D"
  proof (cases "child_config_unserialize (tokener_parse E) buf")
    case (Dead h u)
    then have "h = Undefined \<and> \<not> payload_ok (tokener_parse E) buf"
      using unserialize_post [of "tokener_parse E" buf] by simp
    with Dead show ?thesis by (simp add: c_updt_def)
  next
    case (Live r)
    show ?thesis
    proof (cases r)
      case None
      have "serves s (bindO (slog E m s) (\<lambda>s. reply E con False ''failure'' False s))" for m
        by (rule serves_slog [OF inv_subs_live [OF srv_okD(1) [OF s(1)]]])
          (use s srv_ok_full conn_live_full peers_full in \<open>blast intro: serves_reply\<close>)
      from safe [OF this] None Live show ?thesis by (simp add: c_updt_def)
    next
      case (Some cc)
      with Live have u: "child_config_unserialize (tokener_parse E) buf = Live (Some cc)" by simp
      have wf: "config_wf cc" using unserialize_wf [OF u] by simp
      then obtain n where n: "cc_name cc = Some n" "is_cstr n" by (auto simp: config_wf_def)
      note ev = c_updt_eval [OF u n(1), where s = s and con = con]
      show ?thesis
      proof (cases "child_config_find_by_name n s")
        case None
        with ev rep show ?thesis by simp
      next
        case (Some a)
        show ?thesis
        proof (cases "update_accepts cc")
          case True
          obtain up where up: "cfgs s a = Some up"
            by (rule find_by_name_Some [OF srv_okD(1) [OF s(1)] n(2) Some])
          have "cc_instances cc = -1 \<or> 1 \<le> cc_instances cc" using True by (auto simp: update_accepts_def)
          from c_updt_apply_post [OF E s up wf this]
          have "post (c_updt_apply E con a cc s) ?Q ?D" by (rule post_mono) auto
          with ev Some True show ?thesis by simp
        next
          case False
          with ev Some rep show ?thesis by auto
        qed
      qed
    qed
  qed
qed

end
