(* ===== verification/ReadLog.thy ===== *)
theory ReadLog
  imports Handlers
begin

text \<open>
  The command \<open>READ\<close> (\<open>c_read\<close> of cmd_server.c): a part of the file the standard output or
  error of a process goes to. The file is what \<open>open\<close> finds under the name at that moment
  (\<open>os_logfile\<close>); \<open>lseek\<close> and \<open>read\<close> are those of a regular file.
\<close>

section \<open>The request\<close>

definition with_int ::
    "env \<Rightarrow> addr \<Rightarrow> json \<Rightarrow> string \<Rightarrow> server \<Rightarrow> (int \<Rightarrow> (bool \<times> server) run) \<Rightarrow> (bool \<times> server) run" where
  "with_int E con obj k s f =
     (case json_object_object_get obj k of
        None \<Rightarrow> reply E con False ''failure'' False s
      | Some m \<Rightarrow>
          if \<not> json_object_is_type m json_type_int
          then reply E con False ''failure'' False s else f (json_object_get_int m))"

definition with_double ::
    "env \<Rightarrow> addr \<Rightarrow> json \<Rightarrow> string \<Rightarrow> server \<Rightarrow> (rat \<Rightarrow> (bool \<times> server) run) \<Rightarrow> (bool \<times> server) run" where
  "with_double E con obj k s f =
     (case json_object_object_get obj k of
        None \<Rightarrow> reply E con False ''failure'' False s
      | Some m \<Rightarrow>
          if \<not> json_object_is_type m json_type_double
          then reply E con False ''failure'' False s else f (json_object_get_double m))"

text \<open>
  \<open>(off_t) doff\<close> truncates towards zero. A value that does not fit becomes the least
  \<open>off_t\<close>, as the conversion instruction of the hosts in question does it.
\<close>

definition double_to_off :: "rat \<Rightarrow> int" where
  "double_to_off d =
     (let t = (if d < 0 then \<lceil>d\<rceil> else \<lfloor>d\<rfloor>)
      in if LONG_MIN \<le> t \<and> t \<le> LONG_MAX then t else LONG_MIN)"

text \<open>The offset \<open>lseek\<close> returns, and where the file is read from.\<close>

definition seek :: "int \<Rightarrow> int \<Rightarrow> int \<Rightarrow> int \<times> int" where
  "seek fsize off bytes =
     (if off < 0 then if bytes \<le> fsize then (fsize - bytes, fsize - bytes) else (-1, fsize)
      else (off, off))"

definition c_read_reply ::
    "env \<Rightarrow> addr \<Rightarrow> string \<Rightarrow> int \<Rightarrow> int \<Rightarrow> server \<Rightarrow> (bool \<times> server) run" where
  "c_read_reply E con content off bytes s =
     (let fsize = int (length content); (off, pos) = seek fsize off bytes
      in if \<not> os_read E (tick s) then reply E con False ''read failed.'' True (ticked s)
         else let readbuf = take (nat bytes) (drop (nat pos) content)
         in answer E con
              (JObject [(''code'', JBool True), (''log'', JString (cstr readbuf)),
                        (''offset'', JDouble (of_int off)), (''fsize'', JDouble (of_int fsize))])
              (ticked s))"

definition c_read :: "env \<Rightarrow> addr \<Rightarrow> string \<Rightarrow> server \<Rightarrow> (bool \<times> server) run" where
  "c_read E con buf s =
     with_object E con buf s (\<lambda>obj.
     with_name E con False obj s (\<lambda>n.
     with_int E con obj ''stream'' s (\<lambda>stream.
     with_double E con obj ''offset'' s (\<lambda>doff.
     let off = double_to_off doff in
     with_int E con obj ''bytes'' s (\<lambda>bytes.
     with_int E con obj ''instance'' s (\<lambda>instance_no.
       if stream < 1 \<or> stream > 2 \<or> bytes < 0 \<or> bytes > 16384 - 1
       then reply E con False ''parameters out of bounds.'' False s
       else case child_config_find_by_name n s of
         None \<Rightarrow> reply E con False ''no such group.'' True s
       | Some a \<Rightarrow> deref cfgs a s (\<lambda>cc.
           if instance_no < 0 \<or> instance_no \<ge> cc_instances cc
           then reply E con False ''instance out of bounds.'' True s
           else
             let instance_str = snprintf_buf 5 (show_int instance_no);
                 fname = (if stream = 1 then cc_stdout cc
                          else if stream = 2 then cc_stderr cc else None)
             in case fname of
                  None \<Rightarrow> reply E con False ''stream is not logged.'' True s
                | Some fname \<Rightarrow>
                    bindO (at_state s (replace_str (fname @ [NUL]) ''%(NUM)'' instance_str)) (\<lambda>m.
                    case os_logfile E (tick s) (cstr m) of
                      None \<Rightarrow> reply E con False (''can'' @ [CHR 0x27] @ ''t open logfile.'') True (ticked s)
                    | Some content \<Rightarrow> c_read_reply E con content off bytes (ticked s)))))))))"

section \<open>The handler's contract\<close>

lemma serves_with_int:
  assumes "srv_ok s" and "conn_live con s" and "\<And>i. serves s (f i)"
  shows "serves s (with_int E con obj k s f)"
  using assms by (auto simp: with_int_def serves_reply split: option.splits)

lemma serves_with_double:
  assumes "srv_ok s" and "conn_live con s" and "\<And>d. serves s (f d)"
  shows "serves s (with_double E con obj k s f)"
  using assms by (auto simp: with_double_def serves_reply split: option.splits)

lemma ticked_ok [simp]:
  "srv_ok (ticked s) = srv_ok s" "conn_live con (ticked s) = conn_live con s" "peers (ticked s) = peers s"
  by (rule srv_ok_full, simp) (simp_all add: conn_live_def peers_def ticked_def)

lemma serves_read_reply:
  assumes "srv_ok s" and "conn_live con s" and "peers s = peers b"
  shows "serves b (c_read_reply E con content off bytes s)"
  using assms by (auto simp: c_read_reply_def Let_def split: prod.split intro!: serves_reply serves_answer)

text \<open>The instance number is never longer than the placeholder, so the file name stays in its buffer.\<close>

lemma log_name:
  assumes "is_cstr fname"
  obtains m where "replace_str (fname @ [NUL]) ''%(NUM)'' (snprintf_buf 5 (show_int i)) = Live m"
    and "cstr m = subst_first fname ''%(NUM)'' (snprintf_buf 5 (show_int i))"
proof -
  have "is_cstr (snprintf_buf 5 (show_int i))" "length (snprintf_buf 5 (show_int i)) \<le> length ''%(NUM)''"
    by (simp_all add: snprintf_buf_def is_cstr_take)
  from replace_str_spec [OF assms this] that show thesis by blast
qed

interpretation read_cmd: safe_handler c_read
proof
  fix E s con buf
  assume s: "srv_ok s" "conn_live con s"
  have grp: "serves s (deref cfgs a s f)" if "\<And>cc. cfgs s a = Some cc \<Longrightarrow> serves s (f cc)"
    "child_config_find_by_name n s = Some a" "is_cstr n" for a n f
    using find_by_name_Some [OF srv_okD(1) [OF s(1)] that(3,2)] that(1) by (metis serves_deref)
  have rest: "serves s (bindO (at_state s (replace_str (fname @ [NUL]) ''%(NUM)''
        (snprintf_buf 5 (show_int i)))) (\<lambda>m.
        case os_logfile E (tick s) (cstr m) of
          None \<Rightarrow> reply E con False msg True (ticked s)
        | Some content \<Rightarrow> c_read_reply E con content off bytes (ticked s)))"
    if "is_cstr fname" for fname i off bytes msg
    by (rule log_name [OF that, of i])
      (use s in \<open>auto simp: serves_reply serves_read_reply split: option.split\<close>)
  have cstrs: "cfgs s a = Some cc \<Longrightarrow> pred_option is_cstr (cc_stdout cc) \<and> pred_option is_cstr (cc_stderr cc)"
    for a cc
    using inv_sizes [OF srv_okD(1) [OF s(1)]] config_wf_strings by blast
  have group: "serves s (deref cfgs a s (\<lambda>cc.
        if i < 0 \<or> i \<ge> cc_instances cc
        then reply E con False ''instance out of bounds.'' True s
        else case (if st = 1 then cc_stdout cc else if st = 2 then cc_stderr cc else None) of
            None \<Rightarrow> reply E con False ''stream is not logged.'' True s
          | Some fname \<Rightarrow> bindO (at_state s (replace_str (fname @ [NUL]) ''%(NUM)''
              (snprintf_buf 5 (show_int i)))) (\<lambda>m.
              case os_logfile E (tick s) (cstr m) of
                None \<Rightarrow> reply E con False (''can'' @ [CHR 0x27] @ ''t open logfile.'') True (ticked s)
              | Some content \<Rightarrow> c_read_reply E con content off bytes (ticked s))))"
    if "child_config_find_by_name n s = Some a" "is_cstr n" for n a and st :: int and i off bytes
  proof (rule grp [OF _ that])
    fix cc
    assume cc: "cfgs s a = Some cc"
    have "is_cstr fname"
      if "(if st = 1 then cc_stdout cc else if st = 2 then cc_stderr cc else None) = Some fname" for fname
      using cstrs [OF cc] that by (auto split: if_splits)
    from rest [OF this] show "serves s (if i < 0 \<or> i \<ge> cc_instances cc
        then reply E con False ''instance out of bounds.'' True s
        else case (if st = 1 then cc_stdout cc else if st = 2 then cc_stderr cc else None) of
            None \<Rightarrow> reply E con False ''stream is not logged.'' True s
          | Some fname \<Rightarrow> bindO (at_state s (replace_str (fname @ [NUL]) ''%(NUM)''
              (snprintf_buf 5 (show_int i)))) (\<lambda>m.
              case os_logfile E (tick s) (cstr m) of
                None \<Rightarrow> reply E con False (''can'' @ [CHR 0x27] @ ''t open logfile.'') True (ticked s)
              | Some content \<Rightarrow> c_read_reply E con content off bytes (ticked s)))"
      using s by (auto simp: serves_reply split: option.split simp del: if_split)
  qed
  show "serves s (c_read E con buf s)"
    unfolding c_read_def Let_def
  proof (rule serves_with_object [OF s], rule serves_with_name [OF s], rule serves_with_int [OF s],
      rule serves_with_double [OF s], rule serves_with_int [OF s], rule serves_with_int [OF s], goal_cases)
    case (1 obj n st d bytes i)
    show ?case
    proof (cases "st < 1 \<or> st > 2 \<or> bytes < 0 \<or> bytes > 16384 - 1")
      case True
      with s show ?thesis by (simp add: serves_reply)
    next
      case False
      with s group [OF _ 1] show ?thesis
        by (cases "child_config_find_by_name n s") (simp_all add: serves_reply if_not_P [OF False])
    qed
  qed
qed

section \<open>What is read\<close>

text \<open>
  A request in bounds, for a stream of a slot that is logged to a file that can be opened and
  read: the reply has the part of the file.
\<close>

lemma c_read_eval:
  assumes s: "srv_ok s"
    and obj: "tokener_parse E buf = Some obj" "json_object_is_type obj json_type_object"
    and name: "json_object_object_get obj ''name'' = Some (JString n)"
    and stream: "json_object_object_get obj ''stream'' = Some (JInt stream)" "stream = 1 \<or> stream = 2"
    and off: "json_object_object_get obj ''offset'' = Some (JDouble d)"
    and bytes: "json_object_object_get obj ''bytes'' = Some (JInt bytes)" "0 \<le> bytes" "bytes < 16384"
    and inst: "json_object_object_get obj ''instance'' = Some (JInt i)" "0 \<le> i" "i < cc_instances cc"
    and a: "child_config_find_by_name (cstr n) s = Some a" "cfgs s a = Some cc"
    and fname: "(if stream = 1 then cc_stdout cc else cc_stderr cc) = Some fname"
    and lf: "os_logfile E (tick s) (subst_first fname ''%(NUM)'' (snprintf_buf 5 (show_int i))) = Some content"
  shows "c_read E con buf s = c_read_reply E con content (double_to_off d) bytes (ticked s)"
proof -
  have wf: "config_wf cc" using inv_sizes [OF srv_okD(1) [OF s] a(2)] by simp
  then have "is_cstr fname" using config_wf_strings [OF wf] fname by (auto split: if_splits)
  then obtain m where m: "replace_str (fname @ [NUL]) ''%(NUM)'' (snprintf_buf 5 (show_int i)) = Live m"
      "cstr m = subst_first fname ''%(NUM)'' (snprintf_buf 5 (show_int i))"
    by (rule log_name)
  have "is_int (cc_instances cc)" using config_wf_ints [OF wf] by simp
  then have i: "json_object_get_int (JInt i) = i" "json_object_get_int (JInt bytes) = bytes"
      "json_object_get_int (JInt stream) = stream"
    using inst bytes stream by (auto simp: is_int_def)
  have run: "c_read E con buf s =
      (case (if stream = 1 then cc_stdout cc else if stream = 2 then cc_stderr cc else None) of
         None \<Rightarrow> reply E con False ''stream is not logged.'' True s
       | Some fname \<Rightarrow>
           bindO (at_state s (replace_str (fname @ [NUL]) ''%(NUM)'' (snprintf_buf 5 (show_int i)))) (\<lambda>m.
           case os_logfile E (tick s) (cstr m) of
             None \<Rightarrow> reply E con False (''can'' @ [CHR 0x27] @ ''t open logfile.'') True (ticked s)
           | Some content \<Rightarrow> c_read_reply E con content (double_to_off d) bytes (ticked s)))"
    using obj name stream off bytes inst a
    by (auto simp: c_read_def with_object_def with_name_def with_int_def with_double_def Let_def i
        json_object_is_type_def deref_def simp del: json_object_get_int.simps cong: option.case_cong)
  have "(if stream = 1 then cc_stdout cc else if stream = 2 then cc_stderr cc else None) = Some fname"
    using fname stream by auto
  then show ?thesis unfolding run by (simp add: m lf)
qed

end
