(* ===== verification/Server.thy ===== *)
theory Server
  imports Delete Update ReadLog
begin

text \<open>
  The event side of cmd_server.c: the table of commands and its search, the execution of a
  command, connections (accepted, read, dropped), the reading of requests from a
  connection's buffer, and the two signal callbacks. The input buffer of libevent is
  \<open>c_in\<close>; bytes arrive in it between callbacks.
\<close>

section \<open>The command table\<close>

definition commands :: "(string \<times> (env \<Rightarrow> addr \<Rightarrow> string \<Rightarrow> server \<Rightarrow> (bool \<times> server) run)) list" where
  "commands =
     [(''DELE'', c_dele), (''DUMP'', c_dump), (''EXIT'', c_exit), (''GETC'', c_getc),
      (''HELO'', c_helo), (''KILL'', c_kill), (''LIST'', c_list), (''PIDS'', c_pids),
      (''READ'', c_read), (''SPWN'', c_spwn), (''SUBS'', c_subs), (''UPDT'', c_updt)]"

definition command_compar :: "string \<Rightarrow> string \<times> 'f \<Rightarrow> int" where
  "command_compar cmd s = strncmp cmd (fst s) 4"

text \<open>The C library's binary search.\<close>

function bsearch_loop :: "('e \<Rightarrow> int) \<Rightarrow> 'e list \<Rightarrow> nat \<Rightarrow> nat \<Rightarrow> 'e option" where
  "bsearch_loop compar base l u =
     (if l < u then
        let idx = (l + u) div 2; r = compar (base ! idx)
        in if r < 0 then bsearch_loop compar base l idx
           else if r > 0 then bsearch_loop compar base (idx + 1) u
           else Some (base ! idx)
      else None)"
  by pat_completeness auto
termination
  by (relation "measure (\<lambda>(compar, base, l, u). u - l)") auto

declare bsearch_loop.simps [simp del]

definition bsearch :: "('e \<Rightarrow> int) \<Rightarrow> 'e list \<Rightarrow> 'e option" where
  "bsearch compar base = bsearch_loop compar base 0 (length base)"

section \<open>Connections\<close>

definition set_con :: "addr \<Rightarrow> client_con \<Rightarrow> server \<Rightarrow> server" where
  "set_con con c s = s\<lparr>conns := (conns s)(con \<mapsto> c)\<rparr>"

definition drop_client_connection :: "addr \<Rightarrow> server \<Rightarrow> server run" where
  "drop_client_connection con s =
     deref conns con s (\<lambda>c.
       let s = subscription_remove_for_client con (emit (EvClose (c_sock c)) s)
       in Live (s\<lparr>client_con_list := remove1 con (client_con_list s),
                  conns := (conns s)(con := None)\<rparr>))"

definition run_server_command :: "env \<Rightarrow> string \<Rightarrow> addr \<Rightarrow> server \<Rightarrow> (bool \<times> server) run" where
  "run_server_command E buf con s =
     bindO (case bsearch (command_compar buf) commands of
              None \<Rightarrow> Live (False, s)
            | Some cmd \<Rightarrow> let cmd_buf = cstr (drop 4 buf) in snd cmd E con cmd_buf s) (\<lambda>(cr, s).
     if \<not> cr then bindO (drop_client_connection con s) (\<lambda>s. Live (cr, s))
     else Live (cr, s))"

section \<open>Reading requests\<close>

definition bufferevent_read :: "nat \<Rightarrow> client_con \<Rightarrow> string \<times> client_con" where
  "bufferevent_read n c = (take n (c_in c), c\<lparr>c_in := drop n (c_in c)\<rparr>)"

text \<open>
  What one turn of the loop of \<open>read_cb\<close> does to the connection: it returns for more input,
  finds the input bad, has a command to run, or goes on.
\<close>

datatype turn = More client_con | Bad string client_con | Run string client_con | Again client_con

definition read_len :: "client_con \<Rightarrow> (client_con \<Rightarrow> turn) \<Rightarrow> turn" where
  "read_len c f =
     (if c_len c = 0 \<and> c_cid c = 0 then
        if length (c_in c) < 2 then More c
        else let (b, c) = bufferevent_read 2 c
        in if length b \<noteq> 2 then Bad (''read len failed.'' @ [newline]) c
           else let len = ntohs (load16 (b ! 0) (b ! 1))
           in if unat len > CHUNKSIZ then Bad (''command payload too large.'' @ [newline]) c
              else if unat len < 4 then Bad (''command payload too small.'' @ [newline]) c
              else f (c\<lparr>c_len := unat len, c_watermark := 2\<rparr>)
      else f c)"

definition read_cid :: "client_con \<Rightarrow> (client_con \<Rightarrow> turn) \<Rightarrow> turn" where
  "read_cid c f =
     (if c_len c > 0 \<and> c_cid c = 0 then
        if length (c_in c) < 2 then More c
        else let (b, c) = bufferevent_read 2 c
        in if length b \<noteq> 2 then Bad (''read cid failed.'' @ [newline]) c
           else f (c\<lparr>c_cid := load16 (b ! 0) (b ! 1), c_watermark := c_len c\<rparr>)
      else f c)"

definition read_payload :: "client_con \<Rightarrow> turn" where
  "read_payload c =
     (if c_len c > 0 \<and> c_cid c \<noteq> 0 then
        if length (c_in c) < c_len c then More c
        else let n = c_len c; (buf, c) = bufferevent_read n c
        in if length buf \<noteq> n then Bad (''read payload failed.'' @ [newline]) c
           else Run buf (c\<lparr>c_watermark := 2, c_len := 0\<rparr>)
      else Again c)"

definition read_turn :: "client_con \<Rightarrow> turn" where
  "read_turn c = read_len c (\<lambda>c. read_cid c read_payload)"

text \<open>
  The loop itself. Its fuel is the length of the input: every turn but the last takes bytes
  out of the buffer. A loop that has no fuel left does not return.
\<close>

primrec read_loop :: "nat \<Rightarrow> env \<Rightarrow> addr \<Rightarrow> server \<Rightarrow> server run" where
  "read_loop 0 E con s = Dead Hang s"
| "read_loop (Suc n) E con s =
     deref conns con s (\<lambda>c.
       case read_turn c of
         More c \<Rightarrow> Live (set_con con c s)
       | Bad msg c \<Rightarrow> bindO (slog E msg (set_con con c s)) (drop_client_connection con)
       | Again c \<Rightarrow> read_loop n E con (set_con con c s)
       | Run buf c \<Rightarrow>
           bindO (run_server_command E buf con (set_con con c s)) (\<lambda>(cr, s).
           if \<not> cr then Live s
           else deref conns con s (\<lambda>c. read_loop n E con (set_con con (c\<lparr>c_cid := 0\<rparr>) s))))"

definition read_cb :: "env \<Rightarrow> addr \<Rightarrow> server \<Rightarrow> server run" where
  "read_cb E con s =
     deref conns con s (\<lambda>c. read_loop (length (c_in c) + 1) E con s)"

definition error_cb :: "addr \<Rightarrow> server \<Rightarrow> server run" where
  "error_cb con s = drop_client_connection con s"

definition accept_cb :: "env \<Rightarrow> bool \<Rightarrow> server \<Rightarrow> server run" where
  "accept_cb E evread s =
     (if \<not> evread then Live s
      else let sock = os_accept E (tick s)
      in if sock = -1
         then if \<not> accept_again E (tick s)
              then slog E (''Failed to accept a connection.'' @ [newline]) (ticked s)
              else Live (ticked s)
         else let s = ticked s;
                  c = \<lparr>c_sock = sock, c_in = [], c_out = [], c_watermark = 0, c_len = 0, c_cid = 0\<rparr>;
                  new_ok = bufferevent_new E (tick s); s = ticked s
         in if \<not> new_ok
            then bindO (slog E (''bufferevent_new failed.'' @ [newline]) s)
                   (\<lambda>s. Live (emit (EvClose sock) s))
            else let enable_ok = bufferevent_enable E (tick s); s = ticked s
            in if \<not> enable_ok
               then bindO (slog E (''bufferevent_enable failed.'' @ [newline]) s)
                      (\<lambda>s. Live (emit (EvClose sock) s))
               else let con = next_addr s
               in Live (s\<lparr>next_addr := Suc con, conns := (conns s)(con \<mapsto> c\<lparr>c_watermark := 4\<rparr>),
                          client_con_list := con # client_con_list s\<rparr>))"

section \<open>The log file and SIGHUP\<close>

definition open_server_log :: "env \<Rightarrow> server \<Rightarrow> bool \<times> server" where
  "open_server_log E s =
     (if server_logfile s = None then (True, s) else (os_open_log E (tick s), ticked s))"

definition sighup_cb :: "env \<Rightarrow> server \<Rightarrow> server run" where
  "sighup_cb E s =
     bindO (slog E (''got SIGHUP. reopening logfile.'' @ [newline]) s) (\<lambda>s.
     let (ok, s) = open_server_log E s
     in if \<not> ok then slog E (''reopen failed.'' @ [newline]) s else Live s)"

end
