(* ===== verification/Client.thy ===== *)
theory Client
  imports Server
begin

text \<open>
  The client's end of the protocol (client.c): sending a command, reading a reply, the
  status message, and where the socket is. A socket is a list of segments, each of which a
  single \<open>read\<close> can return at most; the end of the list is the end of the stream.
\<close>

section \<open>The socket\<close>

fun sock_read :: "nat \<Rightarrow> string list \<Rightarrow> string \<times> string list" where
  "sock_read n [] = ([], [])"
| "sock_read n (seg # segs) =
     (take n seg, if length seg \<le> n then segs else drop n seg # segs)"

lemma sock_read_length:
  "sum_list (map length (snd (sock_read n sock))) + length (fst (sock_read n sock))
     = sum_list (map length sock)"
  by (cases sock) auto

section \<open>read_reply\<close>

text \<open>The inner loop: \<open>need\<close> bytes are missing.\<close>

function read_chunk :: "nat \<Rightarrow> string \<Rightarrow> string list \<Rightarrow> (string \<times> string list) option" where
  "read_chunk need ret sock =
     (if need = 0 then Some (ret, sock)
      else let (b, sock) = sock_read need sock
      in if length b = 0 then None else read_chunk (need - length b) (ret @ b) sock)"
  by pat_completeness auto
termination
  by (relation "measure (\<lambda>(need, ret, sock). need)") auto

declare read_chunk.simps [simp del]

lemma read_chunk_shorter:
  "read_chunk need ret sock = Some (ret', sock') \<Longrightarrow>
   sum_list (map length sock') \<le> sum_list (map length sock)"
proof (induction need ret sock rule: read_chunk.induct)
  case (1 need ret sock)
  show ?case
  proof (cases "need = 0")
    case True
    with "1.prems" show ?thesis by (simp add: read_chunk.simps)
  next
    case False
    obtain b s where b: "sock_read need sock = (b, s)" by fastforce
    with False "1.prems" have "read_chunk (need - length b) (ret @ b) s = Some (ret', sock')" "b \<noteq> []"
      by (auto simp: read_chunk.simps [of need] split: if_splits)
    with "1.IH" [OF False b [symmetric] refl] have "sum_list (map length sock') \<le> sum_list (map length s)"
      by simp
    with sock_read_length [of need sock] b show ?thesis by simp
  qed
qed

definition is_cont :: "16 word \<Rightarrow> bool" where
  "is_cont len \<longleftrightarrow> len AND 32768 = 32768"

function read_reply_loop :: "string \<Rightarrow> string list \<Rightarrow> (string \<times> string list) option" where
  "read_reply_loop ret sock =
     (let (len, sock1) = sock_read 2 sock
      in if length len < 2 then None
      else let (cid, sock2) = sock_read 2 sock1
      in if length cid < 2 then None
      else let len = ntohs (load16 (len ! 0) (len ! 1))
      in if len = 0 then None
      else let cont = is_cont len; len = (if cont then len - 32768 else len)
      in case read_chunk (unat len) [] sock2 of
           None \<Rightarrow> None
         | Some (b, sock3) \<Rightarrow>
             if cont then read_reply_loop (ret @ b) sock3 else Some (ret @ b, sock3))"
  by pat_completeness auto
termination
proof (relation "measure (\<lambda>(ret, sock). sum_list (map length sock))", goal_cases)
  case 1
  show ?case by simp
next
  case (2 ret sock p len1 sock1 p' cid sock2 len cont len' p'' b sock3)
  from 2 have "read_chunk (unat len') [] sock2 = Some (b, sock3)" by simp
  then have "sum_list (map length sock3) \<le> sum_list (map length sock2)"
    by (rule read_chunk_shorter)
  moreover from 2 have "sock_read 2 sock1 = (cid, sock2)" by simp
  then have "sum_list (map length sock2) \<le> sum_list (map length sock1)"
    using sock_read_length [of 2 sock1] by simp
  moreover from 2 have "sock_read 2 sock = (len1, sock1)" by simp
  then have "sum_list (map length sock1) + length len1 = sum_list (map length sock)"
    using sock_read_length [of 2 sock] by simp
  ultimately show ?case using 2 by simp
qed

declare read_reply_loop.simps [simp del]

definition read_reply :: "string list \<Rightarrow> string option" where
  "read_reply sock = map_option fst (read_reply_loop [] sock)"

section \<open>get_status_reply\<close>

text \<open>\<open>json_object_get_string\<close> of a value that is not a string is its JSON text.\<close>

definition json_text :: "(json \<Rightarrow> string) \<Rightarrow> json \<Rightarrow> string" where
  "json_text prt v = (case v of JString s \<Rightarrow> cstr s | _ \<Rightarrow> prt v)"

text \<open>The function's result and what it prints on the standard error.\<close>

definition parse_failed :: "int \<times> string" where
  "parse_failed = (1, ''Failed to parse reply.'' @ [newline])"

definition get_status_reply ::
    "(string \<Rightarrow> json option) \<Rightarrow> (json \<Rightarrow> string) \<Rightarrow> string list \<Rightarrow> int \<times> string" where
  "get_status_reply parse prt sock =
     (case read_reply sock of
        None \<Rightarrow> parse_failed
      | Some buf \<Rightarrow>
          (case parse (cstr buf) of
             None \<Rightarrow> parse_failed
           | Some obj \<Rightarrow>
               (case json_object_object_get obj ''code'' of
                  None \<Rightarrow> parse_failed
                | Some c \<Rightarrow>
                    (case json_object_object_get obj ''msg'' of
                       None \<Rightarrow> parse_failed
                     | Some m \<Rightarrow>
                         (0, if \<not> json_object_get_boolean c
                             then ''Error: '' @ json_text prt m @ [newline] else [])))))"

section \<open>Sending\<close>

text \<open>
  \<open>write\<close> number \<open>k\<close> accepts \<open>wr k n\<close> of \<open>n\<close> bytes. The state is the number of calls so
  far and the bytes on the wire.
\<close>

type_synonym wire = "nat \<times> string"

definition sock_write :: "(nat \<Rightarrow> nat \<Rightarrow> nat) \<Rightarrow> string \<Rightarrow> wire \<Rightarrow> bool \<times> wire" where
  "sock_write wr msg w =
     (let r = wr (fst w) (length msg)
      in (r = length msg, (Suc (fst w), snd w @ take r msg)))"

definition sock_write_len :: "(nat \<Rightarrow> nat \<Rightarrow> nat) \<Rightarrow> 16 word \<Rightarrow> wire \<Rightarrow> bool \<times> wire" where
  "sock_write_len wr len w = sock_write wr (store16 (htons len)) w"

definition sock_send_command ::
    "(nat \<Rightarrow> nat \<Rightarrow> nat) \<Rightarrow> string \<Rightarrow> string option \<Rightarrow> wire \<Rightarrow> bool \<times> wire" where
  "sock_send_command wr cmd pl w =
     (let cid = ntohs 1;
          len = of_nat (length cmd) :: 16 word;
          len = (case pl of None \<Rightarrow> len | Some p \<Rightarrow> len + of_nat (length p));
          (ok, w) = sock_write_len wr len w
      in if \<not> ok then (False, w)
      else let (ok, w) = sock_write_len wr cid w
      in if \<not> ok then (False, w)
      else let (ok, w) = sock_write wr cmd w
      in if \<not> ok then (False, w)
      else case pl of None \<Rightarrow> (True, w) | Some p \<Rightarrow> sock_write wr p w)"

text \<open>\<open>sock_send_helo\<close>: the result, and what is printed. \<open>sock\<close> is what the server answers.\<close>

definition sock_send_helo ::
    "(nat \<Rightarrow> nat \<Rightarrow> nat) \<Rightarrow> (string \<Rightarrow> json option) \<Rightarrow> (json \<Rightarrow> string) \<Rightarrow> string list \<Rightarrow>
     int \<times> string" where
  "sock_send_helo wr parse prt sock =
     (if \<not> fst (sock_send_command wr ''HELO'' None (0, [])) then (-1, [])
      else case read_reply sock of
        None \<Rightarrow> (-1, [])
      | Some buf \<Rightarrow>
          (let failed = (-1, ''Failed to parse reply.'' @ [newline]) in
           case parse (cstr buf) of
             None \<Rightarrow> failed
           | Some obj \<Rightarrow>
               (case json_object_object_get obj ''code'' of
                  None \<Rightarrow> failed
                | Some c \<Rightarrow>
                    (case json_object_object_get obj ''msg'' of
                       None \<Rightarrow> failed
                     | Some m \<Rightarrow>
                         (1, if \<not> json_object_get_boolean c
                             then ''Error: '' @ json_text prt m @ [newline] else [])))))"

section \<open>Where the socket is\<close>

definition SOCK_PATH :: "string \<Rightarrow> string" where
  "SOCK_PATH home = home @ ''/.uber/socket''"

text \<open>\<open>home\<close> is the home directory of the effective user, if the user is known.\<close>

definition sock_path :: "string option \<Rightarrow> string option \<Rightarrow> string option" where
  "sock_path ubervisor_socket home =
     (case ubervisor_socket of
        None \<Rightarrow>
          (case home of
             None \<Rightarrow> None
           | Some dir \<Rightarrow> if length (SOCK_PATH dir) \<ge> PATH_MAX then None else Some (SOCK_PATH dir))
      | Some ptr \<Rightarrow> if length ptr \<ge> PATH_MAX - 1 then None else Some ptr)"

text \<open>What \<open>sock_connect\<close> connects to: a command through the shell, or a socket.\<close>

datatype endpoint = Shell "string list" | UnixSocket string | NoPath | PathTooLong

definition sock_connect :: "string option \<Rightarrow> string option \<Rightarrow> string option \<Rightarrow> endpoint" where
  "sock_connect ubervisor_rsh ubervisor_socket home =
     (case ubervisor_rsh of
        Some ptr \<Rightarrow> Shell [''/bin/sh'', ''-c'', ptr]
      | None \<Rightarrow>
          (case sock_path ubervisor_socket home of
             None \<Rightarrow> NoPath
           | Some ptr \<Rightarrow> if length ptr \<ge> 108 then PathTooLong else UnixSocket ptr))"

end
