(* ===== verification/Getopt.thy ===== *)
theory Getopt
  imports CLib
begin

text \<open>
  \<open>getopt_long\<close> of the C library, as the commands call it: until it returns -1. The result is
  the list of the values it returns, each with \<open>optarg\<close> (empty where there is none), and the
  operands that are left from \<open>optind\<close> on. An unknown or ambiguous option, and one whose
  argument is missing or not allowed, gives a question mark; what \<open>getopt\<close> prints about it
  is not modelled. A leading plus sign in the option string stops at the first operand;
  without it operands are moved to the end.
\<close>

section \<open>Short options\<close>

text \<open>Whether the character is an option, and if so whether it takes an argument.\<close>

fun short_option :: "string \<Rightarrow> char \<Rightarrow> bool option" where
  "short_option [] c = None"
| "short_option (o1 # os) c =
     (if o1 = c \<and> c \<noteq> CHR '':'' then Some (os \<noteq> [] \<and> hd os = CHR '':'') else short_option os c)"

fun short_cluster :: "string \<Rightarrow> string \<Rightarrow> string list \<Rightarrow> (char \<times> string) list \<times> string list" where
  "short_cluster opts [] rest = ([], rest)"
| "short_cluster opts (c # cs) rest =
     (case short_option opts c of
        None \<Rightarrow> (let (os, r) = short_cluster opts cs rest in ((CHR ''?'', []) # os, r))
      | Some False \<Rightarrow> (let (os, r) = short_cluster opts cs rest in ((c, []) # os, r))
      | Some True \<Rightarrow>
          if cs \<noteq> [] then ([(c, cs)], rest)
          else (case rest of [] \<Rightarrow> ([(CHR ''?'', [])], []) | a # r \<Rightarrow> ([(c, a)], r)))"

section \<open>Long options\<close>

record longopt =
  lo_name :: string
  lo_arg :: bool
  lo_val :: char

text \<open>An exact match, or the only option the name is a prefix of.\<close>

definition long_option :: "longopt list \<Rightarrow> string \<Rightarrow> longopt option" where
  "long_option longs name =
     (case List.find (\<lambda>o1. lo_name o1 = name) longs of
        Some o1 \<Rightarrow> Some o1
      | None \<Rightarrow>
          (case filter (\<lambda>o1. take (length name) (lo_name o1) = name) longs of
             [] \<Rightarrow> None
           | o1 # os \<Rightarrow> if list_all (\<lambda>o2. lo_arg o2 = lo_arg o1 \<and> lo_val o2 = lo_val o1) os
                        then Some o1 else None))"

definition long_argument :: "longopt list \<Rightarrow> string \<Rightarrow> string list \<Rightarrow> (char \<times> string) \<times> string list" where
  "long_argument longs a rest =
     (let name = takeWhile (\<lambda>c. c \<noteq> CHR ''='') a; eq = dropWhile (\<lambda>c. c \<noteq> CHR ''='') a
      in case long_option longs name of
           None \<Rightarrow> ((CHR ''?'', []), rest)
         | Some o1 \<Rightarrow>
             if \<not> lo_arg o1
             then if eq = [] then ((lo_val o1, []), rest) else ((CHR ''?'', []), rest)
             else if eq \<noteq> [] then ((lo_val o1, tl eq), rest)
             else (case rest of [] \<Rightarrow> ((CHR ''?'', []), []) | x # r \<Rightarrow> ((lo_val o1, x), r)))"

section \<open>The scan\<close>

lemma short_cluster_length: "length (snd (short_cluster opts cs rest)) \<le> length rest"
  by (induction opts cs rest rule: short_cluster.induct) (auto split: option.split bool.split list.split prod.split)

lemma long_argument_length: "length (snd (long_argument longs a rest)) \<le> length rest"
  by (auto simp: long_argument_def Let_def split: option.split list.split)

definition is_operand :: "string \<Rightarrow> bool" where
  "is_operand a \<longleftrightarrow> length a < 2 \<or> hd a \<noteq> CHR ''-''"

function getopt_scan ::
    "bool \<Rightarrow> string \<Rightarrow> longopt list \<Rightarrow> string list \<Rightarrow> (char \<times> string) list \<times> string list" where
  "getopt_scan stop opts longs [] = ([], [])"
| "getopt_scan stop opts longs (a # rest) =
     (if is_operand a
      then if stop then ([], a # rest)
           else let (os, ops) = getopt_scan stop opts longs rest in (os, a # ops)
      else if a = ''--'' then ([], rest)
      else if take 2 a = ''--''
      then let (o1, r) = long_argument longs (drop 2 a) rest;
               (os, ops) = getopt_scan stop opts longs r
           in (o1 # os, ops)
      else let (os1, r) = short_cluster opts (tl a) rest;
               (os, ops) = getopt_scan stop opts longs r
           in (os1 @ os, ops))"
  by pat_completeness auto
termination
proof (relation "measure (\<lambda>(stop, opts, longs, args). length args)", goal_cases)
  case 1
  show ?case by simp
next
  case 2
  then show ?case by simp
next
  case (3 stop opts longs a rest p o1 r)
  then have "long_argument longs (drop 2 a) rest = (o1, r)" by simp
  with long_argument_length [of longs "drop 2 a" rest] show ?case by simp
next
  case (4 stop opts longs a rest p os1 r)
  then have "short_cluster opts (tl a) rest = (os1, r)" by simp
  with short_cluster_length [of opts "tl a" rest] show ?case by simp
qed

definition getopt_long :: "string \<Rightarrow> longopt list \<Rightarrow> string list \<Rightarrow> (char \<times> string) list \<times> string list" where
  "getopt_long opts longs argv =
     (let stop = (opts \<noteq> [] \<and> hd opts = CHR ''+'')
      in getopt_scan stop (if stop then tl opts else opts) longs (tl argv))"

text \<open>With the plus sign, what follows the first operand is not looked at.\<close>

lemma getopt_scan_stop: "is_operand a \<Longrightarrow> getopt_scan True opts longs (a # rest) = ([], a # rest)"
  by simp

declare getopt_scan.simps(2) [simp del]

end
