(* ===== verification/Service.thy ===== *)
theory Service
  imports Server
begin

text \<open>
  Proofs about the event side: the binary search finds what a linear search finds, a
  connection can be dropped at any time, a command that is run keeps the invariants whatever
  it is, and the loop of \<open>read_cb\<close> returns.
\<close>

section \<open>Binary search\<close>

lemma bsearch_loop_find:
  assumes "u \<le> length base"
    and "\<forall>i. i < l \<longrightarrow> i < length base \<longrightarrow> compar (base ! i) > 0"
    and "\<forall>i. u \<le> i \<longrightarrow> i < length base \<longrightarrow> compar (base ! i) < 0"
    and "\<forall>i j. i < j \<longrightarrow> j < length base \<longrightarrow> compar (base ! i) \<le> 0 \<longrightarrow> compar (base ! j) < (0 :: int)"
  shows "bsearch_loop compar base l u = List.find (\<lambda>e. compar e = 0) base"
  using assms
proof (induction compar base l u rule: bsearch_loop.induct)
  case (1 compar base l u)
  let ?i = "(l + u) div 2" let ?r = "compar (base ! ?i)"
  show ?case
  proof (cases "l < u")
    case False
    have "compar (base ! i) \<noteq> 0" if "i < length base" for i
    proof (cases "i < l")
      case True
      with "1.prems"(2) that show ?thesis by force
    next
      case False
      then have "u \<le> i" using \<open>\<not> l < u\<close> by simp
      with "1.prems"(3) that show ?thesis by force
    qed
    then have "List.find (\<lambda>e. compar e = 0) base = None"
      by (auto simp: find_None_iff in_set_conv_nth)
    with False show ?thesis by (simp add: bsearch_loop.simps)
  next
    case True
    then have i: "?i < u" "?i < length base" using "1.prems"(1) by auto
    consider "?r < 0" | "?r > 0" | "?r = 0" by linarith
    then show ?thesis
    proof cases
      case 1
      have "compar (base ! j) < 0" if "?i \<le> j" "j < length base" for j
        using "1.prems"(4) [rule_format, of ?i j] 1 that by (cases "?i = j") auto
      then have "bsearch_loop compar base l ?i = List.find (\<lambda>e. compar e = 0) base"
        using True 1 i "1.prems" by (intro "1.IH"(1)) auto
      with True 1 show ?thesis by (subst bsearch_loop.simps) (simp add: Let_def)
    next
      case 2
      have "compar (base ! j) > 0" if "j < ?i + 1" "j < length base" for j
      proof (rule ccontr)
        assume "\<not> 0 < compar (base ! j)"
        then show False using "1.prems"(4) [rule_format, of j ?i] 2 that i by (cases "j = ?i") auto
      qed
      then have "bsearch_loop compar base (?i + 1) u = List.find (\<lambda>e. compar e = 0) base"
        using 2 i "1.prems" by (intro "1.IH"(2) [OF True refl refl]) (simp_all add: less_imp_not_less)
      with True 2 show ?thesis by (subst bsearch_loop.simps) (simp add: Let_def)
    next
      case 3
      have "compar (base ! j) \<noteq> 0" if "j < ?i" for j
        using "1.prems"(4) [rule_format, of j ?i] 3 that i by force
      then have "List.find (\<lambda>e. compar e = 0) base = Some (base ! ?i)"
        using i 3 by (auto simp: find_Some_iff intro!: exI [of _ ?i])
      with True 3 show ?thesis by (subst bsearch_loop.simps) (simp add: Let_def)
    qed
  qed
qed

lemma bsearch_find:
  assumes "\<And>i j. i < j \<Longrightarrow> j < length base \<Longrightarrow> compar (base ! i) \<le> 0 \<Longrightarrow> compar (base ! j) < (0 :: int)"
  shows "bsearch compar base = List.find (\<lambda>e. compar e = 0) base"
  unfolding bsearch_def using assms by (intro bsearch_loop_find) auto

text \<open>\<open>strncmp\<close> orders strings.\<close>

lemma strncmp_loop_neg: "strncmp_loop b a n = - strncmp_loop a b n"
  by (induction a b n rule: strncmp_loop.induct) auto

lemma strncmp_loop_le_less:
  "is_cstr b \<Longrightarrow> strncmp_loop a b n \<le> 0 \<Longrightarrow> strncmp_loop b c n < 0 \<Longrightarrow> strncmp_loop a c n < 0"
proof (induction n arbitrary: a b c)
  case 0
  then show ?case by simp
next
  case (Suc n)
  have nn: "(0 :: int) \<le> of_char x" for x :: char
    by (metis of_nat_of_char of_nat_0_le_iff)
  show ?case
  proof (cases b)
    case Nil
    with Suc.prems nn show ?thesis
      by (cases a; cases c) (auto simp: order_antisym_conv of_char_int_0)
  next
    case b: (Cons y ys)
    then have y: "is_cstr ys" "(0 :: int) < of_char y"
      using Suc.prems(1) nn [of y] of_char_int_0 [of y] by (auto simp: is_cstr_def less_le)
    from Suc.prems(3) nn [of y] obtain z zs where c: "c = z # zs"
      unfolding b by (cases c) auto
    then have yz: "(of_char y :: int) \<le> of_char z"
      using Suc.prems(3) unfolding b by (auto split: if_splits)
    show ?thesis
    proof (cases a)
      case Nil
      with c y yz show ?thesis by simp
    next
      case a: (Cons x xs)
      show ?thesis
      proof (cases "x = y \<and> y = z")
        case True
        with Suc.IH [of ys xs zs] Suc.prems y show ?thesis by (simp add: a b c)
      next
        case False
        have "(of_char x :: int) \<le> of_char y" using Suc.prems(2) by (auto simp: a b split: if_splits)
        with yz False have "(of_char x :: int) < of_char z"
          using of_char_int_eq [of x y] of_char_int_eq [of y z] by linarith
        then show ?thesis by (auto simp: a c)
      qed
    qed
  qed
qed

lemma commands_sorted: "sorted_wrt (\<lambda>x y. strncmp (fst x) (fst y) 4 < 0) commands"
  by (simp add: commands_def strncmp_def cstr_def eval_nat_numeral)

lemma commands_names: "cmd \<in> set commands \<Longrightarrow> length (fst cmd) = 4 \<and> is_cstr (fst cmd)"
  by (auto simp: commands_def is_cstr_def)

lemma find_command:
  "bsearch (command_compar buf) commands = List.find (\<lambda>cmd. fst cmd = take 4 (cstr buf)) commands"
proof -
  have "bsearch (command_compar buf) commands = List.find (\<lambda>cmd. command_compar buf cmd = 0) commands"
  proof (rule bsearch_find)
    fix i j
    assume ij: "i < j" "j < length commands" "command_compar buf (commands ! i) \<le> 0"
    have "strncmp (fst (commands ! i)) (fst (commands ! j)) 4 < 0"
      using sorted_wrt_nth_less [OF commands_sorted ij(1,2)] .
    with ij(3) show "command_compar buf (commands ! j) < 0"
      unfolding command_compar_def strncmp_def by (rule strncmp_loop_le_less [OF is_cstr_cstr])
  qed
  also have "\<dots> = List.find (\<lambda>cmd. fst cmd = take 4 (cstr buf)) commands"
    by (rule find_cong_set) (use commands_names in \<open>auto simp: command_compar_def strncmp_0\<close>)
  finally show ?thesis .
qed

section \<open>Dropping a connection\<close>

text \<open>What the callbacks of the other connections see of a connection.\<close>

definition con_view :: "server \<Rightarrow> addr \<Rightarrow> client_con option" where
  "con_view s a = map_option (\<lambda>c. c\<lparr>c_out := []\<rparr>) (conns s a)"

lemma peers_view: "peers s' = peers s \<Longrightarrow> con_view s' = con_view s"
  by (simp add: peers_def con_view_def fun_eq_iff)

lemma con_view_Some:
  assumes "con_view s' a = con_view s a" and "conns s' a = Some c'"
  obtains c where "conns s a = Some c" "c'\<lparr>c_out := []\<rparr> = c\<lparr>c_out := []\<rparr>"
  using assms by (cases "conns s a") (auto simp: con_view_def)

lemma con_view_live: "con_view s' a = con_view s a \<Longrightarrow> conn_live a s' = conn_live a s"
  by (cases "conns s a"; cases "conns s' a") (auto simp: con_view_def conn_live_def)

definition dropped :: "addr \<Rightarrow> client_con \<Rightarrow> server \<Rightarrow> server" where
  "dropped con c s =
     s\<lparr>subscription_list := filter (\<lambda>u. s_client u \<noteq> con) (subscription_list s),
       client_con_list := remove1 con (client_con_list s),
       conns := (conns s)(con := None), effects := effects s @ [EvClose (c_sock c)]\<rparr>"

lemma drop_eval:
  "conns s con = Some c \<Longrightarrow> drop_client_connection con s = Live (dropped con c s)"
  by (simp add: drop_client_connection_def deref_def subscription_remove_for_client_def dropped_def
      Let_def emit_def)

lemma dropped_sel [simp]:
  "cfgs (dropped con c s) = cfgs s" "procs (dropped con c s) = procs s"
  "conns (dropped con c s) = (conns s)(con := None)" "zombies (dropped con c s) = zombies s"
  "kids (dropped con c s) = kids s" "now (dropped con c s) = now s"
  by (simp_all add: dropped_def)

lemma acts_grow_dropped: "acts_grow s (dropped con c s)"
  by (auto simp: acts_grow_def acts_def dropped_def)

lemma srv_ok_dropped:
  assumes s: "srv_ok s"
  shows "srv_ok (dropped con c s)"
proof -
  have inv: "srv_inv s" by (rule srv_okD [OF s])
  then have "conns_ok (dropped con c s)"
    by (auto simp: srv_inv_def conns_ok_def dropped_def subs_live_def conn_live_def)
  with inv have "srv_inv (dropped con c s)"
    by (auto simp: srv_inv_def registry_ok_def sizes_ok_def kids_ok_def addrs_ok_def dropped_def)
  moreover have "sup_inv (dropped con c s)"
    by (rule sup_inv_same [OF srv_okD(2) [OF s] acts_grow_dropped]) simp
  ultimately show ?thesis by (simp add: srv_ok_def)
qed

section \<open>Running a command\<close>

lemma commands_handlers: "cmd \<in> set commands \<Longrightarrow> handler (snd cmd)"
  unfolding commands_def
  by (auto intro: dele_cmd.handler_axioms dump_cmd.handler_axioms exit_cmd.handler_axioms
      getc_cmd.handler_axioms helo_cmd.handler_axioms kill_cmd.handler_axioms
      list_cmd.handler_axioms pids_cmd.handler_axioms read_cmd.handler_axioms
      spwn_cmd.handler_axioms subs_cmd.handler_axioms updt_cmd.handler_axioms)

text \<open>The ways a callback of a connection can end the server.\<close>

definition cb_dead :: "env \<Rightarrow> halt \<Rightarrow> server \<Rightarrow> bool" where
  "cb_dead E h t \<longleftrightarrow>
     dead_ok h t \<or> h = Undefined \<and> (\<exists>buf. \<not> payload_ok (tokener_parse E) buf)"

definition served :: "addr \<Rightarrow> server \<Rightarrow> bool \<Rightarrow> server \<Rightarrow> bool" where
  "served con s cr s' \<longleftrightarrow>
     srv_ok s' \<and> (\<forall>a. a \<noteq> con \<longrightarrow> con_view s' a = con_view s a) \<and>
     con_view s' con = (if cr then con_view s con else None)"

lemma command_end:
  assumes t: "srv_ok t" "peers t = peers s" and con: "conn_live con s"
  shows "post (if \<not> cr then bindO (drop_client_connection con t) (\<lambda>s. Live (cr, s)) else Live (cr, t))
    (\<lambda>(cr, s'). served con s cr s') D"
proof (cases cr)
  case True
  with t(1) peers_view [OF t(2)] show ?thesis by (simp add: served_def)
next
  case False
  have "conn_live con t" using con peers_conn_live [OF t(2)] by simp
  then obtain c where c: "conns t con = Some c" by (auto simp: conn_live_def)
  have "con_view (dropped con c t) a = con_view s a" if "a \<noteq> con" for a
    using that fun_cong [OF peers_view [OF t(2)], of a] by (simp add: con_view_def)
  moreover have "con_view (dropped con c t) con = None" by (simp add: con_view_def)
  ultimately show ?thesis using False c t by (simp add: drop_eval served_def srv_ok_dropped)
qed

lemma run_server_command_post:
  assumes E: "fork_fresh E" and s: "srv_ok s" "conn_live con s"
  shows "post (run_server_command E buf con s) (\<lambda>(cr, s'). served con s cr s')
    (\<lambda>h t. dead_ok h t \<or> h = Undefined \<and> \<not> payload_ok (tokener_parse E) (cstr (drop 4 buf)))"
    (is "post _ ?Q ?D")
proof (cases "bsearch (command_compar buf) commands")
  case None
  then have "run_server_command E buf con s =
      (if \<not> False then bindO (drop_client_connection con s) (\<lambda>s. Live (False, s)) else Live (False, s))"
    by (simp add: run_server_command_def)
  then show ?thesis using command_end [OF s(1) refl s(2), of False] by (simp only:)
next
  case (Some cmd)
  then have "cmd \<in> set commands" unfolding find_command find_Some_iff by auto
  then have "handler (snd cmd)" by (rule commands_handlers)
  from handler.answers [OF this E s, of "cstr (drop 4 buf)"]
  show ?thesis
    unfolding run_server_command_def Some option.case Let_def post_bind
  proof (rule post_mono)
    fix x :: "bool \<times> server"
    assume "case x of (cr, s') \<Rightarrow> srv_ok s' \<and> peers s' = peers s"
    then show "post (case x of (cr, s) \<Rightarrow>
        if \<not> cr then bindO (drop_client_connection con s) (\<lambda>s. Live (cr, s)) else Live (cr, s)) ?Q ?D"
      using command_end [OF _ _ s(2)] by (cases x) simp
  qed assumption
qed

section \<open>The loop of read_cb\<close>

text \<open>
  A connection between two callbacks: the phase of the request it is in, and a low watermark
  that a complete request always reaches.
\<close>

definition con_ok :: "client_con \<Rightarrow> bool" where
  "con_ok c \<longleftrightarrow>
     (c_len c = 0 \<longrightarrow> c_cid c = 0) \<and> (c_len c = 0 \<or> 4 \<le> c_len c \<and> c_len c \<le> CHUNKSIZ) \<and>
     c_watermark c \<le> max 4 (c_len c)"

definition idle :: "server \<Rightarrow> bool" where
  "idle s \<longleftrightarrow> (\<forall>c \<in> ran (conns s). con_ok c)"

lemma con_ok_out [simp]: "con_ok (c\<lparr>c_out := x\<rparr>) = con_ok c"
  by (simp add: con_ok_def)

lemma con_ok_cong: "c'\<lparr>c_out := x\<rparr> = c\<lparr>c_out := x\<rparr> \<Longrightarrow> con_ok c' = con_ok c"
  by (metis con_ok_out)

definition turn_ok :: "nat \<Rightarrow> turn \<Rightarrow> bool" where
  "turn_ok n r \<longleftrightarrow>
     (case r of
        More c \<Rightarrow> con_ok c \<and> length (c_in c) \<le> n
      | Bad msg c \<Rightarrow> True
      | Run buf c \<Rightarrow> c_len c = 0 \<and> c_watermark c = 2 \<and> length (c_in c) < n \<and>
          4 \<le> length buf \<and> length buf \<le> CHUNKSIZ
      | Again c \<Rightarrow> con_ok c \<and> length (c_in c) < n)"

lemma turn_ok_simps [simp]:
  "turn_ok n (More c) \<longleftrightarrow> con_ok c \<and> length (c_in c) \<le> n"
  "turn_ok n (Bad msg c)"
  "turn_ok n (Run buf c) \<longleftrightarrow> c_len c = 0 \<and> c_watermark c = 2 \<and> length (c_in c) < n \<and>
     4 \<le> length buf \<and> length buf \<le> CHUNKSIZ"
  "turn_ok n (Again c) \<longleftrightarrow> con_ok c \<and> length (c_in c) < n"
  by (simp_all add: turn_ok_def)

lemma read_payload_ok:
  assumes "con_ok c" and "c_len c > 0" and "length (c_in c) \<le> n" and "c_cid c = 0 \<longrightarrow> length (c_in c) < n"
  shows "turn_ok n (read_payload c)"
  using assms by (auto simp: read_payload_def bufferevent_read_def con_ok_def Let_def)

lemma read_cid_ok:
  assumes "con_ok c" and "c_len c > 0" and "length (c_in c) \<le> n"
  shows "turn_ok n (read_cid c read_payload)"
proof (cases "c_cid c = 0 \<and> 2 \<le> length (c_in c)")
  case False
  then show ?thesis using assms by (cases "c_cid c = 0") (simp_all add: read_cid_def read_payload_ok)
next
  case True
  have "turn_ok n (read_payload (c\<lparr>c_in := drop 2 (c_in c), c_cid := w, c_watermark := c_len c\<rparr>))" for w
    by (rule read_payload_ok) (use assms True in \<open>auto simp: con_ok_def\<close>)
  with True assms(2) show ?thesis
    by (simp add: read_cid_def bufferevent_read_def Let_def)
qed

lemma read_turn_ok:
  assumes c: "con_ok c"
  shows "turn_ok (length (c_in c)) (read_turn c)"
proof (cases "c_len c = 0")
  case False
  with c show ?thesis by (simp add: read_turn_def read_len_def read_cid_ok)
next
  case True
  then have cid: "c_cid c = 0" using c by (simp add: con_ok_def)
  have "turn_ok (length (c_in c)) (read_cid (c\<lparr>c_in := drop 2 (c_in c), c_len := l, c_watermark := 2\<rparr>) read_payload)"
    if "4 \<le> l" "l \<le> CHUNKSIZ" for l
    by (rule read_cid_ok) (use c that in \<open>auto simp: con_ok_def\<close>)
  with True cid c show ?thesis
    by (simp add: read_turn_def read_len_def bufferevent_read_def Let_def not_less)
qed

lemma srv_ok_set_con:
  assumes s: "srv_ok s" and c: "conns s con \<noteq> None"
  shows "srv_ok (set_con con c' s)"
proof -
  have d: "dom ((conns s)(con \<mapsto> c')) = dom (conns s)" using c by auto
  have inv: "srv_inv s" by (rule srv_okD [OF s])
  then have "conns_ok s" "addrs_ok s" by (simp_all add: srv_inv_def)
  then have "conns_ok (set_con con c' s)" "addrs_ok (set_con con c' s)"
    using d c by (simp_all add: conns_ok_def addrs_ok_def set_con_def subs_live_def conn_live_def)
  with inv have "srv_inv (set_con con c' s)"
    by (simp add: srv_inv_def registry_ok_def sizes_ok_def kids_ok_def set_con_def)
  moreover have "sup_inv (set_con con c' s)"
    by (rule sup_inv_same [OF srv_okD(2) [OF s]]) (simp_all add: acts_grow_def acts_def set_con_def)
  ultimately show ?thesis by (simp add: srv_ok_def)
qed

lemma set_con_view: "con_view (set_con con c s) = (con_view s)(con \<mapsto> c\<lparr>c_out := []\<rparr>)"
  by (simp add: con_view_def set_con_def fun_eq_iff)

lemma conns_set_con [simp]: "conns (set_con con c s) = (conns s)(con \<mapsto> c)"
  by (simp add: set_con_def)

text \<open>The other connections stay as they are.\<close>

definition others_ok :: "addr \<Rightarrow> server \<Rightarrow> bool" where
  "others_ok con s \<longleftrightarrow> (\<forall>a c. a \<noteq> con \<longrightarrow> conns s a = Some c \<longrightarrow> con_ok c)"

lemma others_ok_view:
  assumes "others_ok con s" and "\<And>a. a \<noteq> con \<Longrightarrow> con_view s' a = con_view s a"
  shows "others_ok con s'"
  unfolding others_ok_def
proof (intro allI impI)
  fix a c
  assume a: "a \<noteq> con" and c: "conns s' a = Some c"
  obtain c0 where "conns s a = Some c0" "c\<lparr>c_out := []\<rparr> = c0\<lparr>c_out := []\<rparr>"
    by (rule con_view_Some [OF assms(2) [OF a] c])
  with assms(1) a show "con_ok c" using con_ok_cong [where c' = c and c = c0 and x = "[]"] by (auto simp: others_ok_def)
qed

lemma others_ok_set_con [simp]: "others_ok con (set_con con c s) = others_ok con s"
  by (auto simp: others_ok_def)

lemma idle_iff: "idle s \<longleftrightarrow> others_ok con s \<and> (\<forall>c. conns s con = Some c \<longrightarrow> con_ok c)"
  by (auto simp: idle_def others_ok_def ran_def)

lemma bad_request:
  assumes s: "srv_ok s" and c: "conns s con = Some c" and o: "others_ok con s"
  shows "post (bindO (slog E msg s) (drop_client_connection con)) (\<lambda>s'. srv_ok s' \<and> idle s') (cb_dead E)"
  unfolding post_bind
proof (rule post_mono [OF slog_live_full [OF inv_subs_live [OF srv_okD(1) [OF s]]]])
  fix t
  assume f: "full t = full s"
  have "peers t = peers s" by (rule peers_full [OF f])
  then have v: "con_view t = con_view s" by (rule peers_view)
  then have "conn_live con t" using c con_view_live [of t con s] by (simp add: conn_live_def)
  then obtain d where d: "conns t con = Some d" by (auto simp: conn_live_def)
  have "others_ok con (dropped con d t)"
    by (rule others_ok_view [OF o]) (use v in \<open>simp add: con_view_def fun_eq_iff\<close>)
  then have "idle (dropped con d t)" unfolding idle_iff [of _ con] by simp
  with d s srv_ok_full [OF f] show "post (drop_client_connection con t)
      (\<lambda>s'. srv_ok s' \<and> idle s') (cb_dead E)"
    by (simp add: drop_eval srv_ok_dropped)
qed (simp_all add: cb_dead_def)

lemma read_loop_post:
  assumes E: "fork_fresh E"
  shows "srv_ok s \<Longrightarrow> conns s con = Some c \<Longrightarrow> con_ok c \<Longrightarrow> others_ok con s \<Longrightarrow> length (c_in c) < n \<Longrightarrow>
    post (read_loop n E con s) (\<lambda>s'. srv_ok s' \<and> idle s') (cb_dead E)"
proof (induction n arbitrary: s c)
  case 0
  then show ?case by simp
next
  case (Suc n)
  have ok: "srv_ok (set_con con c' s)" for c' by (rule srv_ok_set_con) (use Suc.prems in simp_all)
  note turn = read_turn_ok [OF Suc.prems(3)]
  show ?case
  proof (cases "read_turn c")
    case (More c')
    with turn ok Suc.prems show ?thesis
      by (simp add: deref_def idle_iff [of _ con])
  next
    case (Bad msg c')
    have "post (bindO (slog E msg (set_con con c' s)) (drop_client_connection con))
        (\<lambda>s'. srv_ok s' \<and> idle s') (cb_dead E)"
      by (rule bad_request [OF ok]) (use Suc.prems in simp_all)
    with Bad Suc.prems show ?thesis by (simp add: deref_def)
  next
    case (Again c')
    have "post (read_loop n E con (set_con con c' s)) (\<lambda>s'. srv_ok s' \<and> idle s') (cb_dead E)"
      by (rule Suc.IH [OF ok, where c = c']) (use turn Again Suc.prems in simp_all)
    with Again Suc.prems show ?thesis by (simp add: deref_def)
  next
    case (Run buf c')
    let ?s = "set_con con c' s"
    have c': "c_len c' = 0" "c_watermark c' = 2" "length (c_in c') < length (c_in c)" using turn Run by simp_all
    have live: "conn_live con ?s" by (simp add: conn_live_def)
    have "post (run_server_command E buf con ?s) (\<lambda>x. post (case x of (cr, s) \<Rightarrow>
        if \<not> cr then Live s
        else deref conns con s (\<lambda>c. read_loop n E con (set_con con (c\<lparr>c_cid := 0\<rparr>) s)))
        (\<lambda>s'. srv_ok s' \<and> idle s') (cb_dead E)) (cb_dead E)"
    proof (rule post_mono [OF run_server_command_post [OF E ok live]])
      fix x :: "bool \<times> server"
      assume "case x of (cr, s') \<Rightarrow> served con ?s cr s'"
      then obtain cr t where x: "x = (cr, t)" and t: "served con ?s cr t" by (cases x) auto
      have o: "others_ok con t"
        by (rule others_ok_view [of con ?s]) (use t Suc.prems in \<open>simp_all add: served_def\<close>)
      show "post (case x of (cr, s) \<Rightarrow>
          if \<not> cr then Live s
          else deref conns con s (\<lambda>c. read_loop n E con (set_con con (c\<lparr>c_cid := 0\<rparr>) s)))
          (\<lambda>s'. srv_ok s' \<and> idle s') (cb_dead E)"
      proof (cases cr)
        case False
        with t have "conns t con = None" by (simp add: served_def con_view_def)
        with o have "idle t" unfolding idle_iff [of _ con] by simp
        with False t show ?thesis by (simp add: x served_def)
      next
        case True
        with t have "con_view t con = con_view ?s con" by (simp add: served_def)
        moreover have "conns t con \<noteq> None"
          using calculation by (auto simp: con_view_def)
        ultimately obtain d where d: "conns t con = Some d" "d\<lparr>c_out := []\<rparr> = c'\<lparr>c_out := []\<rparr>"
          by (auto simp: con_view_def)
        have "c_len d = 0" "c_watermark d = 2" "c_in d = c_in c'"
          using arg_cong [OF d(2), of c_len] arg_cong [OF d(2), of c_watermark]
            arg_cong [OF d(2), of c_in] c' by simp_all
        then have "con_ok (d\<lparr>c_cid := 0\<rparr>)" "length (c_in (d\<lparr>c_cid := 0\<rparr>)) < n"
          using c' Suc.prems by (simp_all add: con_ok_def)
        then have "post (read_loop n E con (set_con con (d\<lparr>c_cid := 0\<rparr>) t))
            (\<lambda>s'. srv_ok s' \<and> idle s') (cb_dead E)"
          using t d o by (intro Suc.IH [OF srv_ok_set_con, where c = "d\<lparr>c_cid := 0\<rparr>"]) (simp_all add: served_def)
        with True d show ?thesis by (simp add: x deref_def)
      qed
    qed (auto simp: cb_dead_def)
    with Run Suc.prems show ?thesis by (simp add: deref_def post_bind)
  qed
qed

lemma read_cb_post:
  assumes "fork_fresh E" and "srv_ok s" and "idle s" and "conn_live con s"
  shows "post (read_cb E con s) (\<lambda>s'. srv_ok s' \<and> idle s') (cb_dead E)"
proof -
  obtain c where c: "conns s con = Some c" using assms(4) by (auto simp: conn_live_def)
  then have "post (read_loop (length (c_in c) + 1) E con s) (\<lambda>s'. srv_ok s' \<and> idle s') (cb_dead E)"
    using assms by (intro read_loop_post) (auto simp: idle_iff [of _ con])
  with c show ?thesis by (simp add: read_cb_def deref_def)
qed

end
