(* ===== verification/Startup.thy ===== *)
theory Startup
  imports Service
begin

text \<open>
  How the server starts (the end of cmd_server.c): the options from the environment and the
  command line, the choice of the newest dump and the loading of a dump. The files of the
  working directory are \<open>files\<close> (dumps below 2 GB); the directory listing and the times of
  the files are arguments.
\<close>

section \<open>Loading a dump\<close>

definition load_defaults :: "child_config \<Rightarrow> child_config" where
  "load_defaults cc =
     (let cc = (if cc_killsig cc = -1 then cc\<lparr>cc_killsig := SIGTERM\<rparr> else cc);
          cc = (if cc_instances cc = -1 then cc\<lparr>cc_instances := 1\<rparr> else cc)
      in if cc_status cc = -1 then cc\<lparr>cc_status := STATUS_RUNNING\<rparr> else cc)"

text \<open>
  One group. The size of the slot array is computed as an unsigned number, so that
  \<open>xmalloc\<close> ends the server when the number of instances is negative.
\<close>

definition load_group :: "env \<Rightarrow> child_config \<Rightarrow> server \<Rightarrow> server run" where
  "load_group E cc s =
     bindO (slog E (''load: '' @ fmt_s (cc_name cc) @ [newline]) s) (\<lambda>s.
     let cc = load_defaults cc
     in if cc_instances cc < 0 then Dead (Exited 1) s
        else let cc = cc\<lparr>cc_childs := replicate (nat (cc_instances cc)) Null\<rparr>;
                 a = next_addr s;
                 s = set_cfg a cc (s\<lparr>next_addr := Suc a\<rparr>)
        in bindO (child_config_insert a s) (\<lambda>s.
           if cc_status cc = STATUS_RUNNING
           then foldO (\<lambda>j s. bindO (spawn E a j s) (\<lambda>(ok, s). Live s)) [0 ..< nat (cc_instances cc)] s
           else Live s))"

primrec load_loop :: "env \<Rightarrow> json list \<Rightarrow> server \<Rightarrow> (bool \<times> server) run" where
  "load_loop E [] s = Live (True, s)"
| "load_loop E (t # ts) s =
     (if \<not> json_object_is_type t json_type_object then Live (False, s)
      else bindO (at_state s (child_config_from_json t)) (\<lambda>r.
        case r of
          None \<Rightarrow> Live (False, s)
        | Some cc \<Rightarrow>
            if cc_command cc = None then Live (False, s)
            else bindO (load_group E cc s) (load_loop E ts)))"

definition load_dump :: "env \<Rightarrow> string \<Rightarrow> server \<Rightarrow> (bool \<times> server) run" where
  "load_dump E fname s =
     (case files s fname of
        None \<Rightarrow> Live (False, s)
      | Some content \<Rightarrow>
          if length content = 0 then Live (True, s)
          else if \<not> os_read E (tick s) then Dead (Exited 1) (ticked s)
          else let buf = cstr content; s = ticked s
          in case tokener_parse E buf of
               None \<Rightarrow> Live (False, s)
             | Some obj \<Rightarrow>
                 if \<not> json_object_is_type obj json_type_array then Live (False, s)
                 else load_loop E (json_object_array_elems obj) s)"

section \<open>The newest dump\<close>

text \<open>An entry of the directory: its name, and its time if \<open>stat\<close> succeeds.\<close>

definition newest_step :: "string \<times> int option \<Rightarrow> int \<times> string \<Rightarrow> int \<times> string" where
  "newest_step d tn =
     (if strncmp ''uberdump'' (fst d) 8 = 0 then
        case snd d of
          None \<Rightarrow> tn
        | Some m \<Rightarrow>
            if m > fst tn then if length (fst d) < PATH_MAX then (m, fst d) else tn
            else tn
      else tn)"

definition newest_start :: "(string \<times> int option) option \<Rightarrow> int \<times> string" where
  "newest_start dump_file =
     (case dump_file of
        None \<Rightarrow> (0, [])
      | Some (f, st) \<Rightarrow>
          (case st of
             None \<Rightarrow> (0, [])
           | Some m \<Rightarrow> if length f < PATH_MAX then (m, f) else (0, [])))"

definition load_newest_dump ::
    "env \<Rightarrow> (string \<times> int option) option \<Rightarrow> (string \<times> int option) list option \<Rightarrow> server \<Rightarrow> server run" where
  "load_newest_dump E dump_file dh s =
     (case dh of
        None \<Rightarrow> Dead (Exited 1) s
      | Some ds \<Rightarrow>
          let name = snd (fold newest_step ds (newest_start dump_file))
          in if name \<noteq> [] then bindO (load_dump E name s) (\<lambda>(ok, s). Live s) else Live s)"

section \<open>Options\<close>

record options =
  o_dump_file :: "string option"
  o_logfile :: "string option"
  o_dir :: "string option"
  o_numask :: "32 word"
  o_auto_dump :: bool
  o_allow_exit :: bool
  o_load_latest :: bool
  o_silent :: bool
  o_do_fork :: bool

text \<open>\<open>strtol(s, NULL, 8)\<close>, for the permissions.\<close>

fun octal_value :: "nat \<Rightarrow> string \<Rightarrow> nat" where
  "octal_value acc [] = acc"
| "octal_value acc (c # cs) =
     (if 48 \<le> (of_char c :: nat) \<and> (of_char c :: nat) \<le> 55
      then octal_value (acc * 8 + (of_char c - 48)) cs else acc)"

definition strtol8 :: "string \<Rightarrow> int" where
  "strtol8 s =
     (let v = (case dropWhile is_space s of
                 [] \<Rightarrow> 0
               | c # cs \<Rightarrow> if c = CHR ''-'' then - int (octal_value 0 cs)
                          else if c = CHR ''+'' then int (octal_value 0 cs)
                          else int (octal_value 0 (c # cs)))
      in max LONG_MIN (min LONG_MAX v))"

text \<open>0777 is 511; the default mask leaves read and write for the owner.\<close>

definition numask_of :: "int \<Rightarrow> 32 word" where
  "numask_of perm = word_of_int (511 - perm)"

definition env_flag :: "(string \<Rightarrow> string option) \<Rightarrow> string \<Rightarrow> bool \<Rightarrow> bool" where
  "env_flag getenv name d =
     (case getenv name of None \<Rightarrow> d | Some v \<Rightarrow> strtol v = 1)"

definition options_from_env :: "(string \<Rightarrow> string option) \<Rightarrow> options" where
  "options_from_env getenv =
     \<lparr>o_dump_file = getenv ''UBERVISOR_CONFIG'',
      o_logfile = getenv ''UBERVISOR_LOGFILE'',
      o_dir = getenv ''UBERVISOR_DIR'',
      o_numask = (case getenv ''UBERVISOR_PERM'' of None \<Rightarrow> numask_of 384 | Some v \<Rightarrow> numask_of (strtol8 v)),
      o_auto_dump = env_flag getenv ''UBERVISOR_AUTODUMP'' False,
      o_allow_exit = \<not> env_flag getenv ''UBERVISOR_NOEXIT'' False,
      o_load_latest = env_flag getenv ''UBERVISOR_LOADLATEST'' False,
      o_silent = env_flag getenv ''UBERVISOR_SILENT'' False,
      o_do_fork = \<not> env_flag getenv ''UBERVISOR_FOREGROUND'' False\<rparr>"

text \<open>
  One option as \<open>getopt_long\<close> returns it, with \<open>optarg\<close>. \<open>None\<close> is \<open>help_server\<close>, which
  exits; there is no case for \<open>n\<close>.
\<close>

definition server_option :: "char \<times> string \<Rightarrow> options \<Rightarrow> options option" where
  "server_option ch_arg opts =
     (let ch = fst ch_arg; optarg = snd ch_arg
      in if ch = CHR ''a'' then Some (opts\<lparr>o_auto_dump := True\<rparr>)
         else if ch = CHR ''c'' then Some (opts\<lparr>o_dump_file := Some optarg\<rparr>)
         else if ch = CHR ''d'' then Some (opts\<lparr>o_dir := Some optarg\<rparr>)
         else if ch = CHR ''e'' then Some (opts\<lparr>o_allow_exit := True\<rparr>)
         else if ch = CHR ''f'' then Some (opts\<lparr>o_do_fork := False\<rparr>)
         else if ch = CHR ''h'' then None
         else if ch = CHR ''l'' then Some (opts\<lparr>o_load_latest := True\<rparr>)
         else if ch = CHR ''o'' then Some (opts\<lparr>o_logfile := Some optarg\<rparr>)
         else if ch = CHR ''P'' then Some (opts\<lparr>o_numask := numask_of (strtol8 optarg)\<rparr>)
         else if ch = CHR ''s'' then Some (opts\<lparr>o_silent := \<not> o_silent opts\<rparr>)
         else None)"

primrec server_options :: "(char \<times> string) list \<Rightarrow> options \<Rightarrow> options option" where
  "server_options [] opts = Some opts"
| "server_options (ch # chs) opts = Option.bind (server_option ch opts) (server_options chs)"

text \<open>The last part of \<open>cmd_server\<close>, in the process that goes on as the server.\<close>

definition server_init :: "options \<Rightarrow> server \<Rightarrow> server" where
  "server_init opts s =
     s\<lparr>auto_dump := o_auto_dump opts, allow_exit := o_allow_exit opts, server_logfile := o_logfile opts\<rparr>"

definition server_begin ::
    "env \<Rightarrow> options \<Rightarrow> int option \<Rightarrow> (string \<times> int option) list option \<Rightarrow> server \<Rightarrow> server run" where
  "server_begin E opts st dh s =
     bindO (case o_dump_file opts of
              Some f \<Rightarrow> if \<not> o_load_latest opts
                        then bindO (load_dump E f s) (\<lambda>(ok, s). if \<not> ok then Dead (Exited 1) s else Live s)
                        else Live s
            | None \<Rightarrow> Live s) (\<lambda>s.
     bindO (if o_load_latest opts
            then load_newest_dump E (map_option (\<lambda>f. (f, st)) (o_dump_file opts)) dh s
            else Live s) (\<lambda>s.
     slog E (''server started.'' @ [newline]) s))"

section \<open>What a load leaves\<close>

lemma load_defaults_keeps [simp]:
  "config_wf cc \<Longrightarrow> config_wf (load_defaults cc)"
  "cc_name (load_defaults cc) = cc_name cc" "cc_command (load_defaults cc) = cc_command cc"
  by (simp_all add: load_defaults_def config_wf_def Let_def)

lemma load_group_post:
  assumes E: "fork_fresh E" and s: "srv_ok s" and cc: "config_wf cc"
  shows "post (load_group E cc s)
    (\<lambda>s'. srv_ok s' \<and> peers s' = peers s \<and> started (load_defaults cc) s s') dead_ok"
proof -
  let ?cc = "load_defaults cc"
  have rest: "post (let cc = load_defaults cc
      in if cc_instances cc < 0 then Dead (Exited 1) t
        else let cc = cc\<lparr>cc_childs := replicate (nat (cc_instances cc)) Null\<rparr>;
                 a = next_addr t;
                 s = set_cfg a cc (t\<lparr>next_addr := Suc a\<rparr>)
        in bindO (child_config_insert a s) (\<lambda>s.
           if cc_status cc = STATUS_RUNNING
           then foldO (\<lambda>j s. bindO (spawn E a j s) (\<lambda>(ok, s). Live s)) [0 ..< nat (cc_instances cc)] s
           else Live s))
      (\<lambda>s'. srv_ok s' \<and> peers s' = peers s \<and> started ?cc s s') dead_ok" if f: "full t = full s" for t
  proof (cases "cc_instances ?cc < 0")
    case True
    then show ?thesis by (simp add: Let_def)
  next
    case False
    have t: "srv_ok t" using s srv_ok_full [OF f] by simp
    have p: "peers t = peers s" by (rule peers_full [OF f])
    have st: "started ?cc t s' = started ?cc s s'" for s'
      using core_eqD(1,2,8) [OF full_core [OF f]] by (simp add: started_def)
    have run: "post (run_group E (next_addr t) ?cc (created (?cc\<lparr>cc_childs :=
        replicate (nat (cc_instances ?cc)) Null\<rparr>) t))
      (\<lambda>s'. srv_ok s' \<and> peers s' = peers t \<and> started ?cc t s') dead_ok"
      by (rule run_group_post [OF E t _ _ dump_frame_refl]) (use False cc in simp_all)
    have "bindO (child_config_insert a (set_cfg a c (t\<lparr>next_addr := Suc a\<rparr>))) f = f (created c t)"
      if "a = next_addr t" for a c and f :: "server \<Rightarrow> server run"
      using that by (simp add: child_config_insert_def deref_def set_cfg_def created_def)
    with run False p st show ?thesis by (simp add: Let_def run_group_def split: if_splits)
  qed
  show ?thesis
    unfolding load_group_def post_bind [of "slog _ _ _"]
    by (rule aborted_dead, rule slog_full [OF srv_okD(1) [OF s]], rule rest)
qed

text \<open>A dump file is bad if a group in it has a bad argument list.\<close>

definition group_bad :: "json \<Rightarrow> bool" where
  "group_bad t \<longleftrightarrow> (\<exists>ss. json_object_object_get t ''args'' = Some (JArray ss) \<and> \<not> args_ok ss)"

lemma from_json_post:
  "post (child_config_from_json t) (\<lambda>r. pred_option config_wf r) (\<lambda>h u. h = Undefined \<and> group_bad t)"
proof (cases "child_config_from_json t")
  case (Live r)
  then show ?thesis using from_json_wf by (cases r) auto
next
  case (Dead h u)
  then show ?thesis using from_json_dead [OF Dead] by (simp add: group_bad_def)
qed

lemma load_loop_post:
  assumes E: "fork_fresh E"
  shows "srv_ok s \<Longrightarrow> post (load_loop E ts s) (\<lambda>(ok, s'). srv_ok s' \<and> peers s' = peers s)
    (\<lambda>h t. dead_ok h t \<or> h = Undefined \<and> (\<exists>t \<in> set ts. group_bad t))"
proof (induction ts arbitrary: s)
  case Nil
  then show ?case by simp
next
  case (Cons t ts)
  let ?Q = "\<lambda>(ok, s'). srv_ok s' \<and> peers s' = peers s"
  let ?D = "\<lambda>h u. dead_ok h u \<or> h = Undefined \<and> (\<exists>t \<in> set (t # ts). group_bad t)"
  have stop: "post (Live (False, s)) ?Q ?D" using Cons.prems by simp
  have group: "post (load_group E cc s) (\<lambda>s. post (load_loop E ts s) ?Q ?D) ?D" if cc: "config_wf cc" for cc
  proof (rule post_mono [OF load_group_post [OF E Cons.prems cc]])
    fix s1
    assume "srv_ok s1 \<and> peers s1 = peers s \<and> started (load_defaults cc) s s1"
    then show "post (load_loop E ts s1) ?Q ?D"
      by (intro post_mono [OF Cons.IH [of s1]]) auto
  qed simp
  have "post (child_config_from_json t) (\<lambda>r. post (case r of
          None \<Rightarrow> Live (False, s)
        | Some cc \<Rightarrow> if cc_command cc = None then Live (False, s)
            else bindO (load_group E cc s) (load_loop E ts)) ?Q ?D) (\<lambda>h u. ?D h s)"
    by (rule post_mono [OF from_json_post])
      (use stop group in \<open>auto simp: post_bind split: option.split\<close>)
  with stop show ?case by (simp add: post_bind post_at_state)
qed

lemma load_dump_post:
  assumes E: "fork_fresh E" and s: "srv_ok s"
  shows "post (load_dump E fname s) (\<lambda>(ok, s'). srv_ok s' \<and> peers s' = peers s)
    (\<lambda>h t. dead_ok h t \<or> h = Undefined \<and> (\<exists>buf obj t. tokener_parse E buf = Some obj \<and>
       t \<in> set (json_object_array_elems obj) \<and> group_bad t))"
  unfolding load_dump_def Let_def
  by (auto simp: s split: option.split
      intro!: post_mono [OF load_loop_post [OF E, of "ticked s"]])

end
