(* ===== verification/Usage.thy ===== *)
theory Usage
  imports CLib
begin

text \<open>
  The usage messages (\<open>help_start\<close> and the like in the cmd_*.c files, \<open>help\<close> in main.c), line by
  line. The argument is \<open>program_name\<close>; \<open>version\<close> is \<open>UV_VERSION DEBUG_VERSION\<close>, which the build sets.
\<close>

abbreviation (input) tab :: string where "tab \<equiv> [CHR 0x09]"

definition print_lines :: "string list \<Rightarrow> string" where
  "print_lines ls = concat (map (\<lambda>l. l @ [newline]) ls)"

definition help_start :: "string \<Rightarrow> string" where
  "help_start p = print_lines
     [''Usage: '' @ p @ '' start [Options] <name> <command> [args]'',
      [],
      ''Options: (defaults in brackets)'',
      tab @ ''-a, --age SEC         max process age in seconds (not set).'',
      tab @ ''-d, --dir DIR         chdir to DIR (not set).'',
      tab @ ''-e, --stderr FILE     stderr log FILE (/dev/null).'',
      tab @ ''-f, --fatal COMMAND   command to run on fatal condition (not set).'',
      tab @ ''-g, --gid GID         GID to start processes as (not set).'',
      tab @ ''-G, --groupname NAME  loopup and set group id for group NAME (not set).'',
      tab @ ''-h, --help            help.'',
      tab @ ''-H, --heartbeat COMMAND'',
      tab @ ''                      run COMMAND 5 secondly (not set).'',
      tab @ ''-i, --instances COUNT number of process to start (1).'',
      tab @ ''-k, --killsig SIGNAL  signal used to kill processes in this group (15).'',
      tab @ ''-o, --stdout FILE     stdout log FILE (/dev/null).'',
      tab @ ''-s, --status STATUS   status to create group with (1).'',
      tab @ ''-u, --uid UID         UID to start processes as (not set).'',
      tab @ ''-U, --username NAME   lookup user NAME and set uid of this user (not set).'',
      [],
      ''Status codes:'',
      tab @ ''1 or start:           running'',
      tab @ ''2 or stop:            stopped'',
      [],
      ''Examples:'',
      tab @ ''uber start -o /tmp/stdout sleeper /bin/sleep 4'',
      []]"

definition help_update :: "string \<Rightarrow> string" where
  "help_update p = print_lines
     [''Usage: '' @ p @ '' update [Options] <name>'',
      [],
      ''Options:'',
      tab @ ''-a, --age SEC         max process age in seconds.'',
      tab @ ''-d, --dir DIR         chdir to DIR.'',
      tab @ ''-e, --stderr FILE     stderr log FILE.'',
      tab @ ''-f, --fatal COMMAND   run COMMAND if fatal state.'',
      tab @ ''-h, --help            help.'',
      tab @ ''-H, --heartbeat COMMAND'',
      tab @ ''                      run COMMAND 5 secondly.'',
      tab @ ''-i, --instances COUNT number of process to start.'',
      tab @ ''-k, --killsig SIGNAL  signal used to kill processes in this group.'',
      tab @ ''-o, --stdout FILE     stdout log FILE.'',
      tab @ ''-s, --status STATUS   status to create group with.'',
      [],
      ''Examples:'',
      tab @ ''uber update -i 4 test'',
      []]"

definition help_kill :: "string \<Rightarrow> string" where
  "help_kill p = print_lines
     [''Usage: '' @ p @ '' kill [Options] <name>'',
      [],
      ''Options:'',
      tab @ ''-i, --index NUM    send signal only to a single process.'',
      tab @ ''-s, --signal SIG   send SIG to processes.'',
      []]"

definition help_read :: "string \<Rightarrow> string" where
  "help_read p = print_lines
     [''Usage: '' @ p @ '' read [Options] <name>'',
      [],
      ''Options:'',
      tab @ ''-b, --bytes COUNT     read COUNT bytes (default: 1024).'',
      tab @ ''-i, --instance INST   log file for instance INST (default: 0).'',
      tab @ ''-o, --offset OFF      start reading at offset OFF (default: -1).'',
      tab @ ''-s, --stream STREAM   stream to read. 1 = stdout, 2 = stderr (default: 1).'',
      [],
      ''Examples:'',
      tab @ ''uber read -i 4 test'',
      []]"

definition help_get :: "string \<Rightarrow> string" where
  "help_get p = print_lines
     [''Usage: '' @ p @ '' get [Options] <name>'',
      [],
      ''Options:'',
      tab @ ''-a, --age        print age.'',
      tab @ ''-d, --dir        print dir.'',
      tab @ ''-D, --dump       print raw reply.'',
      tab @ ''-e, --stderr     print stderr.'',
      tab @ ''-f, --fatal      print fatal_cb.'',
      tab @ ''-g, --gid        print gid processes are started with.'',
      tab @ ''-h, --help       help.'',
      tab @ ''-H, --heartbeat  print heartbeat command.'',
      tab @ ''-i, --instances  print number of instances.'',
      tab @ ''-k, --killsig    print signal used to kill processes.'',
      tab @ ''-o, --stdout     print stdout.'',
      tab @ ''-s, --status     print status.'',
      tab @ ''-u, --uid        print uid processes are started with.'',
      []]"

definition help_subscribe :: "string \<Rightarrow> string" where
  "help_subscribe p = print_lines
     [''Usage: '' @ p @ '' subs [Options] <ident>'',
      [],
      ''Options:'',
      tab @ ''-h, --help       help.'',
      [],
      ''Ident:'',
      tab @ ''1:'' @ tab @ '' server log.'',
      tab @ ''2:'' @ tab @ '' group status updates.'',
      tab @ ''4:'' @ tab @ '' group configuration updates.'']"

definition help_proxy :: "string \<Rightarrow> string" where
  "help_proxy p = print_lines
     [''Usage: '' @ p @ '' proxy [Options]'',
      [],
      ''Options:'',
      tab @ ''-h, --help              help.'',
      tab @ ''-s, --socket PATH       connect to socket at PATH.'',
      []]"

definition help_server :: "string \<Rightarrow> string" where
  "help_server p = print_lines
     [''Usage: '' @ p @ '' server [Options]'',
      [],
      ''Options:'',
      tab @ ''-a, --autodump         create a dump after each update and start command.'',
      tab @ ''-c, --config FILE      load a dump from FILE.'',
      tab @ ''-d, --dir DIR          change to DIR after start.'',
      tab @ ''-f, --foreground       don't fork into background.'',
      tab @ ''-h, --help             help.'',
      tab @ ''-l, --loadlatest FILE  load most recent dump.'',
      tab @ ''-n, --noexit           don't obey the exit command..'',
      tab @ ''-o, --logfile FILE     write log output to FILE.'',
      tab @ ''-s, --silent           exit silently if server is already running.'',
      tab @ ''-P, --perm             set permissions on socket (default: 600).'',
      [],
      ''Examples:'',
      tab @ ''ubervisor server -d /tmp'',
      []]"

definition AUTHOR :: string where
  "AUTHOR = ''Kilian Klimek <kilian.klimek@googlemail.com>''"

definition print_version :: "string \<Rightarrow> string" where
  "print_version version = ''ubervisor-'' @ version @ '' by '' @ AUTHOR @ [newline]"

definition help_main :: "string \<Rightarrow> string \<Rightarrow> string" where
  "help_main version p = print_lines [[]] @ print_version version @ print_lines
     [[],
      ''Usage: '' @ p @ '' <command> [args]'',
      [],
      ''Commands:'',
      tab @ ''delete'' @ tab @ '' delete program from ubervisor'',
      tab @ ''dump'' @ tab @ '' signal server to dump current config.'',
      tab @ ''exit'' @ tab @ '' stop the server'',
      tab @ ''get'' @ tab @ '' get config of a group.'',
      tab @ ''kill'' @ tab @ '' kill all processes in a group (aka restart)'',
      tab @ ''list'' @ tab @ '' list groups.'',
      tab @ ''pids'' @ tab @ '' get pids of processes in a group.'',
      tab @ ''proxy'' @ tab @ '' multiplex stdin/out to socket.'',
      tab @ ''read'' @ tab @ '' read from log file.'',
      tab @ ''server'' @ tab @ '' start the server'',
      tab @ ''start'' @ tab @ '' start a program'',
      tab @ ''subs'' @ tab @ '' subscribe to server events.'',
      tab @ ''update'' @ tab @ '' modify a group'',
      [],
      ''`ubervisor <command> -h` to get a list of supported options.'',
      []]"

text \<open>\<open>pids\<close> and \<open>delete\<close>; the command is \<open>argv[0]\<close>.\<close>

definition help_name :: "string \<Rightarrow> string \<Rightarrow> string" where
  "help_name p cmd = print_lines [''Usage: '' @ p @ '' '' @ cmd @ '' <name>'']"

definition usage :: "string \<Rightarrow> string \<Rightarrow> string" where
  "usage p cmd =
     (if cmd = ''start'' then help_start p
      else if cmd = ''update'' then help_update p
      else if cmd = ''kill'' then help_kill p
      else if cmd = ''read'' then help_read p
      else if cmd = ''get'' then help_get p
      else if cmd = ''subs'' then help_subscribe p
      else if cmd = ''proxy'' then help_proxy p
      else if cmd = ''server'' then help_server p
      else help_name p cmd)"

end
