(* ===== verification/Commandline.thy ===== *)
theory Commandline
  imports Client Getopt Startup Usage
begin

text \<open>
  The commands a user runs (main.c and the cmd_*.c files but cmd_server.c): option parsing,
  the request that is sent, and what is printed of the reply. A command is a function from
  its arguments and the streams of the process to its exit status and the streams. The
  text \<open>perror\<close> adds is a parameter, and so are the name the program was called by, the JSON
  library and \<open>strtod\<close>.
\<close>

section \<open>Streams\<close>

record io =
  io_out :: string
  io_err :: string
  io_wire :: wire
  io_sock :: "string list"

record cli =
  cli_parse :: "string \<Rightarrow> json option"
  cli_print :: "json \<Rightarrow> string"
  cli_connect :: bool
  cli_write :: "nat \<Rightarrow> nat \<Rightarrow> nat"
  cli_strtod :: "string \<Rightarrow> rat"
  cli_program :: string
  cli_strerror :: string

type_synonym cli_run = "(io, int \<times> io) outcome"

definition say :: "string \<Rightarrow> io \<Rightarrow> io" where
  "say msg i = i\<lparr>io_out := io_out i @ msg\<rparr>"

definition complain :: "string \<Rightarrow> io \<Rightarrow> io" where
  "complain msg i = i\<lparr>io_err := io_err i @ msg @ [newline]\<rparr>"

definition fails :: "string \<Rightarrow> io \<Rightarrow> cli_run" where
  "fails msg i = Live (1, complain msg i)"

definition show_help :: "cli \<Rightarrow> string \<Rightarrow> io \<Rightarrow> cli_run" where
  "show_help C cmd i = Live (1, say (usage (cli_program C) cmd) i)"

definition die :: "cli \<Rightarrow> string \<Rightarrow> io \<Rightarrow> cli_run" where
  "die C msg i = Live (1, complain (msg @ '': '' @ cli_strerror C) i)"

definition send_command :: "cli \<Rightarrow> string \<Rightarrow> string option \<Rightarrow> io \<Rightarrow> bool \<times> io" where
  "send_command C cmd pl i =
     (let (ok, w) = sock_send_command (cli_write C) cmd pl (io_wire i) in (ok, i\<lparr>io_wire := w\<rparr>))"

definition reply_from :: "io \<Rightarrow> (string \<times> io) option" where
  "reply_from i =
     map_option (\<lambda>(buf, sock). (buf, i\<lparr>io_sock := sock\<rparr>)) (read_reply_loop [] (io_sock i))"

definition status_reply :: "cli \<Rightarrow> io \<Rightarrow> cli_run" where
  "status_reply C i =
     (let (ret, e) = get_status_reply (cli_parse C) (cli_print C) (io_sock i)
      in Live (ret, i\<lparr>io_err := io_err i @ e\<rparr>))"

section \<open>start and update\<close>

datatype refusal = Usage | Illegal_status

primrec run_options :: "(char \<times> string \<Rightarrow> 'a \<Rightarrow> refusal + 'a) \<Rightarrow> (char \<times> string) list \<Rightarrow> 'a \<Rightarrow> refusal + 'a" where
  "run_options f [] x = Inr x"
| "run_options f (o1 # os) x = (case f o1 x of Inl e \<Rightarrow> Inl e | Inr y \<Rightarrow> run_options f os y)"

definition refuse :: "cli \<Rightarrow> string \<Rightarrow> refusal \<Rightarrow> io \<Rightarrow> cli_run" where
  "refuse C cmd e i =
     (case e of Usage \<Rightarrow> show_help C cmd i | Illegal_status \<Rightarrow> fails ''Illegal status code'' i)"

definition start_opts :: string where
  "start_opts = ''+a:d:e:f:g:G:hH:i:k:o:s:u:U:''"

definition start_longopts :: "longopt list" where
  "start_longopts =
     [\<lparr>lo_name = ''age'', lo_arg = True, lo_val = CHR ''a''\<rparr>,
      \<lparr>lo_name = ''dir'', lo_arg = True, lo_val = CHR ''d''\<rparr>,
      \<lparr>lo_name = ''stderr'', lo_arg = True, lo_val = CHR ''e''\<rparr>,
      \<lparr>lo_name = ''fatal'', lo_arg = True, lo_val = CHR ''f''\<rparr>,
      \<lparr>lo_name = ''gid'', lo_arg = True, lo_val = CHR ''g''\<rparr>,
      \<lparr>lo_name = ''groupname'', lo_arg = True, lo_val = CHR ''G''\<rparr>,
      \<lparr>lo_name = ''help'', lo_arg = False, lo_val = CHR ''h''\<rparr>,
      \<lparr>lo_name = ''heartbeat'', lo_arg = True, lo_val = CHR ''H''\<rparr>,
      \<lparr>lo_name = ''instances'', lo_arg = True, lo_val = CHR ''i''\<rparr>,
      \<lparr>lo_name = ''killsig'', lo_arg = True, lo_val = CHR ''k''\<rparr>,
      \<lparr>lo_name = ''stdout'', lo_arg = True, lo_val = CHR ''o''\<rparr>,
      \<lparr>lo_name = ''status'', lo_arg = True, lo_val = CHR ''s''\<rparr>,
      \<lparr>lo_name = ''uid'', lo_arg = True, lo_val = CHR ''u''\<rparr>,
      \<lparr>lo_name = ''username'', lo_arg = True, lo_val = CHR ''U''\<rparr>]"

text \<open>\<open>errno\<close> is 0 when the program starts, and \<open>strtol\<close> sets it to \<open>ERANGE\<close> at most.\<close>

definition start_option :: "char \<times> string \<Rightarrow> child_config \<Rightarrow> refusal + child_config" where
  "start_option o1 cc =
     (let ch = fst o1; optarg = snd o1
      in if ch = CHR ''a'' then Inr (cc\<lparr>cc_age := strtol optarg\<rparr>)
         else if ch = CHR ''d'' then Inr (cc\<lparr>cc_dir := Some optarg\<rparr>)
         else if ch = CHR ''e'' then Inr (cc\<lparr>cc_stderr := Some optarg\<rparr>)
         else if ch = CHR ''f'' then Inr (cc\<lparr>cc_fatal_cb := Some optarg\<rparr>)
         else if ch = CHR ''g'' then Inr (cc\<lparr>cc_gid := to_int (strtol optarg)\<rparr>)
         else if ch = CHR ''G'' then Inr (cc\<lparr>cc_groupname := Some optarg\<rparr>)
         else if ch = CHR ''h'' then Inl Usage
         else if ch = CHR ''H'' then Inr (cc\<lparr>cc_heartbeat := Some optarg\<rparr>)
         else if ch = CHR ''i'' then Inr (cc\<lparr>cc_instances := to_int (strtol optarg)\<rparr>)
         else if ch = CHR ''k'' then Inr (cc\<lparr>cc_killsig := to_int (strtol optarg)\<rparr>)
         else if ch = CHR ''o'' then Inr (cc\<lparr>cc_stdout := Some optarg\<rparr>)
         else if ch = CHR ''s''
         then let st = child_config_status_from_string 0 optarg
              in if st = -1 then Inl Illegal_status else Inr (cc\<lparr>cc_status := st\<rparr>)
         else if ch = CHR ''u'' then Inr (cc\<lparr>cc_uid := to_int (strtol optarg)\<rparr>)
         else if ch = CHR ''U'' then Inr (cc\<lparr>cc_username := Some optarg\<rparr>)
         else Inl Usage)"

definition start_config :: "string list \<Rightarrow> refusal + child_config" where
  "start_config argv =
     (if length argv < 2 then Inl Usage
      else let cc = child_config_new\<lparr>cc_stdout := None, cc_stderr := None, cc_instances := 1,
                      cc_status := STATUS_RUNNING, cc_killsig := 15\<rparr>;
               (os, args) = getopt_long start_opts start_longopts argv
      in case run_options start_option os cc of
           Inl e \<Rightarrow> Inl e
         | Inr cc \<Rightarrow> if length args < 2 then Inl Usage
                    else Inr (cc\<lparr>cc_name := Some (hd args), cc_command := Some (tl args)\<rparr>))"

definition cmd_start :: "cli \<Rightarrow> string list \<Rightarrow> io \<Rightarrow> cli_run" where
  "cmd_start C argv i =
     (case start_config argv of
        Inl e \<Rightarrow> refuse C ''start'' e i
      | Inr cc \<Rightarrow>
          let b = child_config_serialize (cli_print C) cc
          in if \<not> cli_connect C then Live (1, say (''server running?'' @ [newline]) i)
             else let (ok, i) = send_command C ''SPWN'' (Some b) i
             in if \<not> ok then Live (1, say (''failed to send command.'' @ [newline]) i)
                else status_reply C i)"

definition update_opts :: string where
  "update_opts = ''a:d:e:f:hH:i:k:o:s:''"

definition update_longopts :: "longopt list" where
  "update_longopts =
     [\<lparr>lo_name = ''age'', lo_arg = True, lo_val = CHR ''a''\<rparr>,
      \<lparr>lo_name = ''dir'', lo_arg = True, lo_val = CHR ''d''\<rparr>,
      \<lparr>lo_name = ''stderr'', lo_arg = True, lo_val = CHR ''e''\<rparr>,
      \<lparr>lo_name = ''fatal'', lo_arg = True, lo_val = CHR ''f''\<rparr>,
      \<lparr>lo_name = ''help'', lo_arg = False, lo_val = CHR ''h''\<rparr>,
      \<lparr>lo_name = ''heartbeat'', lo_arg = True, lo_val = CHR ''H''\<rparr>,
      \<lparr>lo_name = ''instances'', lo_arg = True, lo_val = CHR ''i''\<rparr>,
      \<lparr>lo_name = ''killsig'', lo_arg = True, lo_val = CHR ''k''\<rparr>,
      \<lparr>lo_name = ''stdout'', lo_arg = True, lo_val = CHR ''o''\<rparr>,
      \<lparr>lo_name = ''status'', lo_arg = True, lo_val = CHR ''s''\<rparr>]"

definition update_option :: "char \<times> string \<Rightarrow> child_config \<Rightarrow> refusal + child_config" where
  "update_option o1 cc =
     (let ch = fst o1; optarg = snd o1
      in if ch = CHR ''a'' then Inr (cc\<lparr>cc_age := strtol optarg\<rparr>)
         else if ch = CHR ''d'' then Inr (cc\<lparr>cc_dir := Some optarg\<rparr>)
         else if ch = CHR ''e'' then Inr (cc\<lparr>cc_stderr := Some optarg\<rparr>)
         else if ch = CHR ''f'' then Inr (cc\<lparr>cc_fatal_cb := Some optarg\<rparr>)
         else if ch = CHR ''h'' then Inl Usage
         else if ch = CHR ''H'' then Inr (cc\<lparr>cc_heartbeat := Some optarg\<rparr>)
         else if ch = CHR ''i'' then Inr (cc\<lparr>cc_instances := to_int (strtol optarg)\<rparr>)
         else if ch = CHR ''k'' then Inr (cc\<lparr>cc_killsig := to_int (strtol optarg)\<rparr>)
         else if ch = CHR ''o'' then Inr (cc\<lparr>cc_stdout := Some optarg\<rparr>)
         else if ch = CHR ''s''
         then let st = child_config_status_from_string 0 optarg
              in if st = -1 then Inl Illegal_status else Inr (cc\<lparr>cc_status := st\<rparr>)
         else Inl Usage)"

definition update_config :: "string list \<Rightarrow> refusal + child_config" where
  "update_config argv =
     (if length argv < 2 then Inl Usage
      else let (os, args) = getopt_long update_opts update_longopts argv
      in case run_options update_option os child_config_new of
           Inl e \<Rightarrow> Inl e
         | Inr cc \<Rightarrow> if length args \<noteq> 1 then Inl Usage else Inr (cc\<lparr>cc_name := Some (hd args)\<rparr>))"

definition cmd_update :: "cli \<Rightarrow> string list \<Rightarrow> io \<Rightarrow> cli_run" where
  "cmd_update C argv i =
     (case update_config argv of
        Inl e \<Rightarrow> refuse C ''update'' e i
      | Inr cc \<Rightarrow>
          let b = child_config_serialize (cli_print C) cc
          in if \<not> cli_connect C then fails ''server running?'' i
             else let (ok, i) = send_command C ''UPDT'' (Some b) i
             in if \<not> ok then fails ''failed to send command.'' i else status_reply C i)"

end
