(* ===== verification/Tools.thy ===== *)
theory Tools
  imports Commandline
begin

text \<open>
  The other commands: \<open>dump\<close>, \<open>exit\<close>, \<open>list\<close>, \<open>kill\<close>, \<open>pids\<close>, \<open>delete\<close>, \<open>get\<close>, \<open>read\<close>,
  \<open>subs\<close>, and the dispatch of \<open>main\<close>.
\<close>

section \<open>dump and exit\<close>

definition no_options :: "string list \<Rightarrow> io \<Rightarrow> cli_run" where
  "no_options argv i = fails (hd argv @ '' takes no options.'') i"

definition cmd_dump :: "cli \<Rightarrow> string list \<Rightarrow> io \<Rightarrow> cli_run" where
  "cmd_dump C argv i =
     (if length argv > 1 then no_options argv i
      else if \<not> cli_connect C then die C ''Failed to connect server'' i
      else let (ok, i) = send_command C ''DUMP'' None i
      in if \<not> ok then fails ''failed.'' i else status_reply C i)"

definition cmd_exit :: "cli \<Rightarrow> string list \<Rightarrow> io \<Rightarrow> cli_run" where
  "cmd_exit C argv i =
     (if length argv > 1 then no_options argv i
      else if \<not> cli_connect C then die C ''Failed to connect server'' i
      else let (ok, i) = send_command C ''EXIT'' None i
      in if \<not> ok then fails ''write data'' i else status_reply C i)"

section \<open>list\<close>

text \<open>The loop over the names; it stops at a \<open>null\<close>.\<close>

primrec list_lines :: "cli \<Rightarrow> json list \<Rightarrow> io \<Rightarrow> cli_run" where
  "list_lines C [] i = Live (0, i)"
| "list_lines C (n # ns) i =
     (if n = JNull then fails ''Failed to parse reply.'' i
      else list_lines C ns (say (json_text (cli_print C) n @ [newline]) i))"

definition cmd_list :: "cli \<Rightarrow> string list \<Rightarrow> io \<Rightarrow> cli_run" where
  "cmd_list C argv i =
     (if length argv > 1 then no_options argv i
      else if \<not> cli_connect C then die C ''Failed to connect server'' i
      else let (ok, i) = send_command C ''LIST'' None i
      in if \<not> ok then fails ''failed.'' i
         else case reply_from i of
           None \<Rightarrow> fails ''Failed to read reply.'' i
         | Some (buf, i) \<Rightarrow>
             (case cli_parse C (cstr buf) of
                None \<Rightarrow> fails ''Failed to parse reply.'' i
              | Some obj \<Rightarrow>
                  if \<not> json_object_is_type obj json_type_array then fails ''Failed to parse reply.'' i
                  else list_lines C (json_object_array_elems obj) i))"

section \<open>kill, pids, delete\<close>

text \<open>
  The reply of these three. \<open>json_object_put (n)\<close> on the member \<open>code\<close>, which belongs to
  \<open>obj\<close>, frees it; the \<open>json_object_put (obj)\<close> at the end of the successful path releases it
  a second time. The length of what is not an array is undefined as well.
\<close>

definition print_pids :: "cli \<Rightarrow> string \<Rightarrow> io \<Rightarrow> cli_run" where
  "print_pids C refused i =
     (case reply_from i of
        None \<Rightarrow> fails ''Failed to parse reply.'' i
      | Some (buf, i) \<Rightarrow>
          (case cli_parse C (cstr buf) of
             None \<Rightarrow> fails ''Failed to parse reply.'' i
           | Some obj \<Rightarrow>
               (case json_object_object_get obj ''code'' of
                  None \<Rightarrow> fails ''Failed to parse reply.'' i
                | Some n \<Rightarrow>
                    if \<not> json_object_get_boolean n then fails refused i
                    else case json_object_object_get obj ''pids'' of
                      None \<Rightarrow> fails ''Failed to parse reply.'' i
                    | Some n \<Rightarrow>
                        if \<not> json_object_is_type n json_type_array then Dead Undefined i
                        else Dead Undefined
                          (fold (\<lambda>e. say (show_int (json_object_get_int e) @ [newline]))
                             (json_object_array_elems n) i))))"

definition name_object :: "string \<Rightarrow> json" where
  "name_object n = JObject [(''name'', JString n)]"

definition cmd_pids :: "cli \<Rightarrow> string list \<Rightarrow> io \<Rightarrow> cli_run" where
  "cmd_pids C argv i =
     (if length argv \<noteq> 2 then Live (1, say (help_name (cli_program C) (hd argv)) i)
      else let msg = cli_print C (name_object (argv ! 1))
      in if \<not> cli_connect C then die C ''Failed to connect server'' i
         else let (ok, i) = send_command C ''PIDS'' (Some msg) i;
                  i = (if \<not> ok then complain ''command failed'' i else i)
         in print_pids C ''Command failed.'' i)"

definition cmd_delete :: "cli \<Rightarrow> string list \<Rightarrow> io \<Rightarrow> cli_run" where
  "cmd_delete C argv i =
     (if length argv < 2 then Live (1, say (help_name (cli_program C) (hd argv)) i)
      else let msg = cli_print C (name_object (argv ! 1))
      in if \<not> cli_connect C then die C ''Failed to connect server'' i
         else let (ok, i) = send_command C ''DELE'' (Some msg) i
         in if \<not> ok then fails ''write'' i else print_pids C ''failed'' i)"

definition kill_opts :: string where
  "kill_opts = ''hi:s:''"

definition kill_longopts :: "longopt list" where
  "kill_longopts =
     [\<lparr>lo_name = ''index'', lo_arg = True, lo_val = CHR ''i''\<rparr>,
      \<lparr>lo_name = ''signal'', lo_arg = True, lo_val = CHR ''s''\<rparr>]"

text \<open>The pair is \<open>idx\<close> and \<open>sig\<close>.\<close>

definition kill_option :: "char \<times> string \<Rightarrow> int \<times> int \<Rightarrow> refusal + int \<times> int" where
  "kill_option o1 st =
     (if fst o1 = CHR ''i'' then Inr (to_int (strtol (snd o1)), snd st)
      else if fst o1 = CHR ''s'' then Inr (fst st, to_int (strtol (snd o1)))
      else Inl Usage)"

definition kill_object :: "string \<Rightarrow> int \<Rightarrow> int \<Rightarrow> json" where
  "kill_object n idx sig =
     JObject ([(''name'', JString n)] @
       (if sig \<noteq> -1 then [(''sig'', JInt sig)] else []) @
       (if idx \<noteq> -1 then [(''index'', JInt idx)] else []))"

definition cmd_kill :: "cli \<Rightarrow> string list \<Rightarrow> io \<Rightarrow> cli_run" where
  "cmd_kill C argv i =
     (let (os, args) = getopt_long kill_opts kill_longopts argv
      in case run_options kill_option os (-1, -1) of
           Inl e \<Rightarrow> refuse C ''kill'' e i
         | Inr (idx, sig) \<Rightarrow>
             if length args \<noteq> 1 then show_help C ''kill'' i
             else let msg = cli_print C (kill_object (hd args) idx sig)
             in if \<not> cli_connect C then die C ''Failed to connect server'' i
                else let (ok, i) = send_command C ''KILL'' (Some msg) i;
                         i = (if \<not> ok then complain ''command failed'' i else i)
                in print_pids C ''Command failed.'' i)"

section \<open>get\<close>

record get_flags =
  g_dump :: bool
  g_stdout :: bool
  g_stderr :: bool
  g_age :: bool
  g_dir :: bool
  g_uid :: bool
  g_gid :: bool
  g_status :: bool
  g_instances :: bool
  g_killsig :: bool
  g_heartbeat :: bool
  g_fatal :: bool
  g_username :: bool
  g_groupname :: bool

definition get_opts :: string where
  "get_opts = ''adDefgGhHikosuU''"

definition get_longopts :: "longopt list" where
  "get_longopts =
     [\<lparr>lo_name = ''age'', lo_arg = False, lo_val = CHR ''a''\<rparr>,
      \<lparr>lo_name = ''dir'', lo_arg = False, lo_val = CHR ''d''\<rparr>,
      \<lparr>lo_name = ''dump'', lo_arg = False, lo_val = CHR ''D''\<rparr>,
      \<lparr>lo_name = ''stderr'', lo_arg = False, lo_val = CHR ''e''\<rparr>,
      \<lparr>lo_name = ''fatal'', lo_arg = False, lo_val = CHR ''f''\<rparr>,
      \<lparr>lo_name = ''gid'', lo_arg = False, lo_val = CHR ''g''\<rparr>,
      \<lparr>lo_name = ''groupname'', lo_arg = False, lo_val = CHR ''G''\<rparr>,
      \<lparr>lo_name = ''help'', lo_arg = False, lo_val = CHR ''h''\<rparr>,
      \<lparr>lo_name = ''heartbeat'', lo_arg = False, lo_val = CHR ''H''\<rparr>,
      \<lparr>lo_name = ''instances'', lo_arg = False, lo_val = CHR ''i''\<rparr>,
      \<lparr>lo_name = ''killsig'', lo_arg = False, lo_val = CHR ''k''\<rparr>,
      \<lparr>lo_name = ''stdout'', lo_arg = False, lo_val = CHR ''o''\<rparr>,
      \<lparr>lo_name = ''status'', lo_arg = False, lo_val = CHR ''s''\<rparr>,
      \<lparr>lo_name = ''uid'', lo_arg = False, lo_val = CHR ''u''\<rparr>,
      \<lparr>lo_name = ''username'', lo_arg = False, lo_val = CHR ''U''\<rparr>]"

definition get_option :: "char \<times> string \<Rightarrow> get_flags \<Rightarrow> refusal + get_flags" where
  "get_option o1 g =
     (let ch = fst o1
      in if ch = CHR ''a'' then Inr (g\<lparr>g_age := True\<rparr>)
         else if ch = CHR ''d'' then Inr (g\<lparr>g_dir := True\<rparr>)
         else if ch = CHR ''D'' then Inr (g\<lparr>g_dump := True\<rparr>)
         else if ch = CHR ''e'' then Inr (g\<lparr>g_stderr := True\<rparr>)
         else if ch = CHR ''f'' then Inr (g\<lparr>g_fatal := True\<rparr>)
         else if ch = CHR ''g'' then Inr (g\<lparr>g_gid := True\<rparr>)
         else if ch = CHR ''G'' then Inr (g\<lparr>g_groupname := True\<rparr>)
         else if ch = CHR ''h'' then Inl Usage
         else if ch = CHR ''H'' then Inr (g\<lparr>g_heartbeat := True\<rparr>)
         else if ch = CHR ''i'' then Inr (g\<lparr>g_instances := True\<rparr>)
         else if ch = CHR ''k'' then Inr (g\<lparr>g_killsig := True\<rparr>)
         else if ch = CHR ''o'' then Inr (g\<lparr>g_stdout := True\<rparr>)
         else if ch = CHR ''s'' then Inr (g\<lparr>g_status := True\<rparr>)
         else if ch = CHR ''u'' then Inr (g\<lparr>g_uid := True\<rparr>)
         else if ch = CHR ''U'' then Inr (g\<lparr>g_username := True\<rparr>)
         else Inl Usage)"

definition no_flags :: get_flags where
  "no_flags =
     \<lparr>g_dump = False, g_stdout = False, g_stderr = False, g_age = False, g_dir = False, g_uid = False,
      g_gid = False, g_status = False, g_instances = False, g_killsig = False, g_heartbeat = False,
      g_fatal = False, g_username = False, g_groupname = False\<rparr>"

text \<open>The macros \<open>GETSTR\<close> and \<open>GETINT\<close>; \<open>f\<close> is what follows.\<close>

definition GETSTR :: "json \<Rightarrow> string \<Rightarrow> bool \<Rightarrow> (io \<Rightarrow> cli_run) \<Rightarrow> io \<Rightarrow> cli_run" where
  "GETSTR obj X Y f i =
     (if \<not> Y then f i
      else case json_object_object_get obj X of
        None \<Rightarrow> fails ''failed.'' i
      | Some n \<Rightarrow>
          if \<not> json_object_is_type n json_type_string then fails ''failed.'' i
          else f (say (json_object_get_string n @ [newline]) i))"

definition GETNUM :: "json \<Rightarrow> string \<Rightarrow> bool \<Rightarrow> (io \<Rightarrow> cli_run) \<Rightarrow> io \<Rightarrow> cli_run" where
  "GETNUM obj X Y f i =
     (if \<not> Y then f i
      else case json_object_object_get obj X of
        None \<Rightarrow> fails ''failed.'' i
      | Some n \<Rightarrow>
          if \<not> json_object_is_type n json_type_int then fails ''failed.'' i
          else f (say (show_int (json_object_get_int n) @ [newline]) i))"

definition print_config :: "get_flags \<Rightarrow> json \<Rightarrow> io \<Rightarrow> cli_run" where
  "print_config g obj =
     GETSTR obj ''stdout'' (g_stdout g) (
     GETSTR obj ''stderr'' (g_stderr g) (
     GETSTR obj ''dir'' (g_dir g) (
     GETSTR obj ''heartbeat'' (g_heartbeat g) (
     GETSTR obj ''fatal_cb'' (g_fatal g) (
     GETSTR obj ''username'' (g_username g) (
     GETSTR obj ''groupname'' (g_groupname g) (
     GETNUM obj ''age'' (g_age g) (
     GETNUM obj ''uid'' (g_uid g) (
     GETNUM obj ''gid'' (g_gid g) (
     GETNUM obj ''status'' (g_status g) (
     GETNUM obj ''instances'' (g_instances g) (
     GETNUM obj ''killsig'' (g_killsig g) (\<lambda>i. Live (0, i))))))))))))))"

definition cmd_get :: "cli \<Rightarrow> string list \<Rightarrow> io \<Rightarrow> cli_run" where
  "cmd_get C argv i =
     (if length argv < 2 then show_help C ''get'' i
      else let (os, args) = getopt_long get_opts get_longopts argv
      in case run_options get_option os no_flags of
           Inl e \<Rightarrow> refuse C ''get'' e i
         | Inr g \<Rightarrow>
             if length args \<noteq> 1 then show_help C ''get'' i
             else let msg = cli_print C (name_object (hd args))
             in if \<not> cli_connect C then die C ''Failed to connect server'' i
                else let (ok, i) = send_command C ''GETC'' (Some msg) i
                in if \<not> ok then fails ''failed to send command.'' i
                   else case reply_from i of
                     None \<Rightarrow> fails ''failed to read reply.'' i
                   | Some (buf, i) \<Rightarrow>
                       if g_dump g then Live (0, say (cstr buf @ [newline]) i)
                       else case cli_parse C (cstr buf) of
                         None \<Rightarrow> fails ''failed.'' i
                       | Some obj \<Rightarrow>
                           if \<not> json_object_is_type obj json_type_object then fails ''failed.'' i
                           else print_config g obj i)"

section \<open>read\<close>

text \<open>
  \<open>%lf\<close>: six decimals of the exact value, rounded to the nearest, to the even one in the
  middle.
\<close>

definition round_even :: "rat \<Rightarrow> int" where
  "round_even r =
     (let f = \<lfloor>r\<rfloor>; d = r - of_int f
      in if d < 1 / 2 then f else if d > 1 / 2 then f + 1 else if even f then f else f + 1)"

definition fmt_lf :: "rat \<Rightarrow> string" where
  "fmt_lf r =
     (let n = nat (round_even (\<bar>r\<bar> * 1000000)); frac = show_nat (n mod 1000000)
      in (if r < 0 then ''-'' else []) @ show_nat (n div 1000000) @ ''.'' @
         replicate (6 - length frac) (CHR ''0'') @ frac)"

record read_args =
  r_instance :: int
  r_stream :: int
  r_bytes :: int
  r_off :: rat

definition read_opts :: string where
  "read_opts = ''b:hi:o:s:''"

definition read_longopts :: "longopt list" where
  "read_longopts =
     [\<lparr>lo_name = ''bytes'', lo_arg = True, lo_val = CHR ''b''\<rparr>,
      \<lparr>lo_name = ''help'', lo_arg = False, lo_val = CHR ''h''\<rparr>,
      \<lparr>lo_name = ''instance'', lo_arg = True, lo_val = CHR ''i''\<rparr>,
      \<lparr>lo_name = ''offset'', lo_arg = True, lo_val = CHR ''o''\<rparr>,
      \<lparr>lo_name = ''stream'', lo_arg = True, lo_val = CHR ''s''\<rparr>]"

definition read_option :: "(string \<Rightarrow> rat) \<Rightarrow> char \<times> string \<Rightarrow> read_args \<Rightarrow> refusal + read_args" where
  "read_option strtod o1 a =
     (let ch = fst o1; optarg = snd o1
      in if ch = CHR ''i'' then Inr (a\<lparr>r_instance := to_int (strtol optarg)\<rparr>)
         else if ch = CHR ''b'' then Inr (a\<lparr>r_bytes := to_int (strtol optarg)\<rparr>)
         else if ch = CHR ''s'' then Inr (a\<lparr>r_stream := to_int (strtol optarg)\<rparr>)
         else if ch = CHR ''o'' then Inr (a\<lparr>r_off := strtod optarg\<rparr>)
         else Inl Usage)"

definition read_object :: "string \<Rightarrow> read_args \<Rightarrow> json" where
  "read_object n a =
     JObject [(''bytes'', JInt (r_bytes a)), (''stream'', JInt (r_stream a)), (''name'', JString n),
       (''instance'', JInt (r_instance a)), (''offset'', JDouble (r_off a))]"

text \<open>A number of the reply, with its label.\<close>

definition print_double :: "json \<Rightarrow> string \<Rightarrow> string \<Rightarrow> (io \<Rightarrow> cli_run) \<Rightarrow> io \<Rightarrow> cli_run" where
  "print_double obj k label f i =
     (case json_object_object_get obj k of
        None \<Rightarrow> fails ''failed.'' i
      | Some n \<Rightarrow>
          if \<not> json_object_is_type n json_type_double then fails ''failed.'' i
          else f (say (label @ fmt_lf (json_object_get_double n) @ [newline]) i))"

definition print_log :: "json \<Rightarrow> io \<Rightarrow> cli_run" where
  "print_log obj i =
     (case json_object_object_get obj ''log'' of
        None \<Rightarrow> fails ''failed.'' i
      | Some n \<Rightarrow>
          if \<not> json_object_is_type n json_type_string then fails ''failed.'' i
          else Live (0, say (''log = '' @ json_object_get_string n @ [newline]) i))"

definition cmd_read :: "cli \<Rightarrow> string list \<Rightarrow> io \<Rightarrow> cli_run" where
  "cmd_read C argv i =
     (if length argv < 2 then show_help C ''read'' i
      else let (os, args) = getopt_long read_opts read_longopts argv
      in case run_options (read_option (cli_strtod C)) os
                \<lparr>r_instance = 0, r_stream = 1, r_bytes = 1024, r_off = -1\<rparr> of
           Inl e \<Rightarrow> refuse C ''read'' e i
         | Inr a \<Rightarrow>
             if length args \<noteq> 1 then show_help C ''read'' i
             else if \<not> cli_connect C then die C ''Failed to connect server'' i
             else let (ok, i) = send_command C ''READ'' (Some (cli_print C (read_object (hd args) a))) i
             in if \<not> ok then fails ''failed to send command.'' i
                else case reply_from i of
                  None \<Rightarrow> fails ''failed to read reply.'' i
                | Some (buf, i) \<Rightarrow>
                    (case cli_parse C (cstr buf) of
                       None \<Rightarrow> fails ''failed.'' i
                     | Some obj \<Rightarrow>
                         if \<not> json_object_is_type obj json_type_object then fails ''failed.'' i
                         else print_double obj ''offset'' ''off = '' (
                              print_double obj ''fsize'' ''fsize = '' (print_log obj)) i))"

section \<open>subs\<close>

definition subscribe_opts :: string where
  "subscribe_opts = ''h''"

definition subscribe_longopts :: "longopt list" where
  "subscribe_longopts = [\<lparr>lo_name = ''help'', lo_arg = False, lo_val = CHR ''h''\<rparr>]"

text \<open>Reading a reply takes bytes off the stream, so the loop over the events ends with it.\<close>

lemma reply_loop_shorter:
  "read_reply_loop acc sock = Some (ret, sock') \<Longrightarrow>
   sum_list (map length sock') < sum_list (map length sock)"
proof (induction acc sock arbitrary: ret sock' rule: read_reply_loop.induct)
  case (1 acc sock)
  obtain len sock1 where l: "sock_read 2 sock = (len, sock1)" by fastforce
  obtain cid sock2 where c: "sock_read 2 sock1 = (cid, sock2)" by fastforce
  let ?len = "ntohs (load16 (len ! 0) (len ! 1))"
  let ?n = "if is_cont ?len then ?len - 32768 else ?len"
  have n: "\<not> length len < 2" "\<not> length cid < 2" "?len \<noteq> 0"
    using "1.prems" l c by (auto simp: read_reply_loop.simps [of acc] Let_def split: if_splits)
  obtain b sock3 where b: "read_chunk (unat ?n) [] sock2 = Some (b, sock3)"
    using "1.prems" l c n by (auto simp: read_reply_loop.simps [of acc] Let_def split: if_splits option.splits)
  have shorter: "sum_list (map length sock3) < sum_list (map length sock)"
    using read_chunk_shorter [OF b] sock_read_length [of 2 sock] sock_read_length [of 2 sock1] l c n by simp
  show ?case
  proof (cases "is_cont ?len")
    case False
    with "1.prems" l c n b shorter show ?thesis
      by (auto simp: read_reply_loop.simps [of acc] Let_def)
  next
    case True
    with "1.prems" l c n b have "read_reply_loop (acc @ b) sock3 = Some (ret, sock')"
      by (simp add: read_reply_loop.simps [of acc] Let_def)
    then have "sum_list (map length sock') < sum_list (map length sock3)"
      by (rule "1.IH" [OF l [symmetric] refl n(1) c [symmetric] refl n(2) refl n(3) refl refl, rotated -1])
        (use b True in simp_all)
    with shorter show ?thesis by simp
  qed
qed

text \<open>The size of the streams is what is still to be read.\<close>

instantiation io_ext :: (type) size
begin

definition size_io_ext :: "'a io_scheme \<Rightarrow> nat" where
  "size_io_ext i = sum_list (map length (io_sock i))"

instance ..

end

function event_loop :: "io \<Rightarrow> cli_run" where
  "event_loop i =
     (case read_reply_loop [] (io_sock i) of
        None \<Rightarrow> fails ''failed to read reply.'' i
      | Some (buf, sock) \<Rightarrow> event_loop (say (cstr buf @ [newline]) (i\<lparr>io_sock := sock\<rparr>)))"
  by pat_completeness auto
termination
  by (relation "measure size") (auto simp: say_def size_io_ext_def dest: reply_loop_shorter)

declare event_loop.simps [simp del]

definition cmd_subscribe :: "cli \<Rightarrow> string list \<Rightarrow> io \<Rightarrow> cli_run" where
  "cmd_subscribe C argv i =
     (if length argv < 2 then show_help C ''subs'' i
      else let (os, args) = getopt_long subscribe_opts subscribe_longopts argv
      in if os \<noteq> [] then show_help C ''subs'' i
         else if length args \<noteq> 1 then show_help C ''subs'' i
         else let ident = to_int (strtol (hd args));
                  msg = cli_print C (JObject [(''ident'', JInt ident)])
         in if \<not> cli_connect C then die C ''Failed to connect server'' i
            else let (ok, i) = send_command C ''SUBS'' (Some msg) i
            in if \<not> ok then fails ''failed to send command.'' i
               else case reply_from i of
                 None \<Rightarrow> fails ''failed to read reply.'' i
               | Some (buf, i) \<Rightarrow> event_loop i)"

section \<open>The command line of the server\<close>

definition server_opts :: string where
  "server_opts = ''ac:d:fhlo:P:s''"

definition server_longopts :: "longopt list" where
  "server_longopts =
     [\<lparr>lo_name = ''autodump'', lo_arg = False, lo_val = CHR ''a''\<rparr>,
      \<lparr>lo_name = ''config'', lo_arg = True, lo_val = CHR ''c''\<rparr>,
      \<lparr>lo_name = ''dir'', lo_arg = True, lo_val = CHR ''d''\<rparr>,
      \<lparr>lo_name = ''foreground'', lo_arg = False, lo_val = CHR ''f''\<rparr>,
      \<lparr>lo_name = ''help'', lo_arg = False, lo_val = CHR ''h''\<rparr>,
      \<lparr>lo_name = ''loadlatest'', lo_arg = False, lo_val = CHR ''l''\<rparr>,
      \<lparr>lo_name = ''noexit'', lo_arg = False, lo_val = CHR ''n''\<rparr>,
      \<lparr>lo_name = ''logfile'', lo_arg = True, lo_val = CHR ''o''\<rparr>,
      \<lparr>lo_name = ''perm'', lo_arg = True, lo_val = CHR ''P''\<rparr>,
      \<lparr>lo_name = ''silent'', lo_arg = False, lo_val = CHR ''s''\<rparr>]"

text \<open>\<open>None\<close> is the usage message and exit.\<close>

definition server_command_line :: "string list \<Rightarrow> options \<Rightarrow> options option" where
  "server_command_line argv opts =
     (let (os, args) = getopt_long server_opts server_longopts argv
      in case server_options os opts of
           None \<Rightarrow> None
         | Some opts \<Rightarrow> if args \<noteq> [] then None else Some opts)"

section \<open>main\<close>

text \<open>What \<open>main\<close> does with its arguments; \<open>script\<close> says which files exist.\<close>

datatype action =
    Call string "string list"
  | Version
  | Script string "string list"
  | Help

definition builtins :: "string list" where
  "builtins = [''server'', ''start'', ''exit'', ''delete'', ''kill'', ''update'', ''dump'', ''get'',
     ''list'', ''proxy'', ''subs'', ''pids'', ''read'']"

definition main_action :: "(string \<Rightarrow> bool) \<Rightarrow> string \<Rightarrow> string list \<Rightarrow> action" where
  "main_action stat_ok command_prefix argv =
     (if length argv < 2 then Help
      else let cmd = argv ! 1; argv = tl argv
      in if cmd \<in> set builtins then Call cmd argv
         else if cmd = ''-v'' \<or> cmd = ''-V'' then Version
         else let cdir = snprintf_buf 8192 (''./commands/ubervisor-'' @ cmd);
                  cdir = (if stat_ok cdir then cdir
                          else snprintf_buf 8192 (command_prefix @ ''/ubervisor-'' @ cmd))
         in if stat_ok cdir then Script cdir (argv[0 := cdir]) else Help)"

definition run_command :: "cli \<Rightarrow> string \<Rightarrow> string list \<Rightarrow> io \<Rightarrow> cli_run option" where
  "run_command C cmd argv i =
     (if cmd = ''start'' then Some (cmd_start C argv i)
      else if cmd = ''exit'' then Some (cmd_exit C argv i)
      else if cmd = ''delete'' then Some (cmd_delete C argv i)
      else if cmd = ''kill'' then Some (cmd_kill C argv i)
      else if cmd = ''update'' then Some (cmd_update C argv i)
      else if cmd = ''dump'' then Some (cmd_dump C argv i)
      else if cmd = ''get'' then Some (cmd_get C argv i)
      else if cmd = ''list'' then Some (cmd_list C argv i)
      else if cmd = ''subs'' then Some (cmd_subscribe C argv i)
      else if cmd = ''pids'' then Some (cmd_pids C argv i)
      else if cmd = ''read'' then Some (cmd_read C argv i)
      else None)"

text \<open>
  The exit status and the streams after \<open>main\<close>; a version is a failure as well, since \<open>ret\<close> is
  1 from the start. \<open>other\<close> is what the commands that keep running do, the server and the
  proxy, and \<open>execv\<close> of a script, after which the process exits with a failure if it returns.
\<close>

definition main_run :: "cli \<Rightarrow> string \<Rightarrow> (string \<Rightarrow> bool) \<Rightarrow> string \<Rightarrow> (action \<Rightarrow> io \<Rightarrow> cli_run)
    \<Rightarrow> string list \<Rightarrow> io \<Rightarrow> cli_run" where
  "main_run C version stat_ok command_prefix other argv i =
     (case main_action stat_ok command_prefix argv of
        Help \<Rightarrow> Live (1, say (help_main version (cli_program C)) i)
      | Version \<Rightarrow> Live (1, say (print_version version) i)
      | Call cmd args \<Rightarrow>
          (case run_command C cmd args i of None \<Rightarrow> other (Call cmd args) i | Some r \<Rightarrow> r)
      | Script path args \<Rightarrow> other (Script path args) i)"

end
