(* ===== verification/Example.thy ===== *)
theory Example
  imports Uptime
begin

text \<open>
  A concrete server to apply the theorems to: one client is connected and subscribed to
  status notifications, one group of two processes runs, and the kernel and libevent do
  what they are asked to. \<open>demo_env\<close> instantiates every parameter of the model with a
  concrete function; its parser knows the payloads listed here.
\<close>

definition js :: "string \<Rightarrow> string" where
  "js s = CHR 0x22 # s @ [CHR 0x22]"

text \<open>\<open>{"name":"web"}\<close>, \<open>{"name":"db","args":["pg"]}\<close> and so on, as the clients write them.\<close>

definition req_web :: string where
  "req_web = ''{'' @ js ''name'' @ '':'' @ js ''web'' @ ''}''"

definition req_start :: string where
  "req_start = ''{'' @ js ''name'' @ '':'' @ js ''db'' @ '','' @ js ''args'' @ '':['' @ js ''pg'' @ '']}''"

definition req_update :: string where
  "req_update = ''{'' @ js ''name'' @ '':'' @ js ''web'' @ '','' @ js ''instances'' @ '':1}''"

definition req_bad :: string where
  "req_bad = ''{'' @ js ''name'' @ '':'' @ js ''db'' @ '','' @ js ''args'' @ '':[1]}''"

definition demo_parse :: "string \<Rightarrow> json option" where
  "demo_parse buf =
     (if buf = req_web then Some (JObject [(''name'', JString ''web'')])
      else if buf = req_start then
        Some (JObject [(''name'', JString ''db''), (''args'', JArray [JString ''pg''])])
      else if buf = req_update then
        Some (JObject [(''name'', JString ''web''), (''instances'', JInt 1)])
      else if buf = req_bad then
        Some (JObject [(''name'', JString ''db''), (''args'', JArray [JInt 1])])
      else None)"

definition demo_env :: env where
  "demo_env =
     \<lparr>tokener_parse = demo_parse, to_json_string = (\<lambda>v. ''{}''), strftime_log = (\<lambda>t. ''Jan 01''),
      strftime_dump = (\<lambda>t. ''0101''), geteuid = 1000, uv_version = ''1.1'',
      os_socketpair = (\<lambda>n. Some 7),
      os_fork = (\<lambda>n K. if 103 \<notin> set K then 103 else if 104 \<notin> set K then 104 else -1),
      os_accept = (\<lambda>n. 9), accept_again = (\<lambda>n. False),
      os_open_log = (\<lambda>n. True), os_open = (\<lambda>n. True), os_read = (\<lambda>n. True),
      os_logfile = (\<lambda>n f. Some ''line''), os_fprintf = (\<lambda>n. True), os_link = (\<lambda>n. True),
      bufferevent_new = (\<lambda>n. True), bufferevent_enable = (\<lambda>n. True),
      bufferevent_write_ok = (\<lambda>n. True)\<rparr>"

definition demo_con :: client_con where
  "demo_con = \<lparr>c_sock = 8, c_in = [], c_out = [], c_watermark = 4, c_len = 0, c_cid = 0\<rparr>"

definition demo_cc :: child_config where
  "demo_cc = child_config_new\<lparr>cc_command := Some [''httpd'', ''-f''], cc_name := Some ''web'',
     cc_stdout := Some ''/tmp/web_%(NUM)'', cc_heartbeat := Some ''beat'', cc_fatal_cb := Some ''alarm'', cc_instances := 2,
     cc_status := STATUS_RUNNING, cc_killsig := 15, cc_age := 60, cc_childs := [Proc 2, Proc 3]\<rparr>"

definition demo_proc :: "int \<Rightarrow> nat \<Rightarrow> process" where
  "demo_proc pid i =
     \<lparr>p_pid = pid, p_start = 900, p_age = 60, p_terminated = False, p_child_config = Some 1,
      p_instance = i, p_heartbeat_timer = True, p_child_sockbuf = False, p_child_sock = 7\<rparr>"

definition demo_server :: "(int \<times> int) list \<Rightarrow> server" where
  "demo_server zs = init_server\<lparr>
     cfgs := [1 \<mapsto> demo_cc], child_config_list := [1],
     child_config_hash := uvstrhash_insert (uvstrhash_new HASH_BSIZE_CHILD_CONFIG) (cc_key 1 demo_cc) (1 :: nat),
     procs := [2 \<mapsto> demo_proc 101 0, 3 \<mapsto> demo_proc 102 1],
     process_hash := uvhash_insert (uvhash_insert (uvhash_new HASH_BSIZE_PROCESS) 101 2) 102 3,
     conns := [0 \<mapsto> demo_con], client_con_list := [0],
     subscription_list := [\<lparr>s_client = 0, s_ident = SUBS_STATUS, s_cid = 1\<rparr>],
     next_addr := 4, kids := [102, 101], zombies := zs, now := 1000\<rparr>"

text \<open>The kernel may have any of the two processes, or both, to report.\<close>

definition demo_zombies :: "(int \<times> int) list \<Rightarrow> bool" where
  "demo_zombies zs \<longleftrightarrow> distinct (map fst zs) \<and> fst ` set zs \<subseteq> {101, 102}"

lemma demo_fork: "fork_fresh demo_env"
  by (auto simp: fork_fresh_def demo_env_def)

lemma demo_cc_sel [simp]:
  "cc_name demo_cc = Some ''web''" "cc_childs demo_cc = [Proc 2, Proc 3]"
  "cc_instances demo_cc = 2" "cc_status demo_cc = STATUS_RUNNING" "cc_killsig demo_cc = 15"
  "cc_age demo_cc = 60" "cc_stdout demo_cc = Some ''/tmp/web_%(NUM)''" "cc_heartbeat demo_cc = Some ''beat''"
  by (simp_all add: demo_cc_def child_config_new_def)

lemma demo_wf: "config_wf demo_cc"
  by (simp add: config_wf_def demo_cc_def child_config_new_def is_cstr_def)

lemma demo_sel [simp]:
  "cfgs (demo_server zs) = [1 \<mapsto> demo_cc]" "child_config_list (demo_server zs) = [1]"
  "procs (demo_server zs) = [2 \<mapsto> demo_proc 101 0, 3 \<mapsto> demo_proc 102 1]"
  "conns (demo_server zs) = [0 \<mapsto> demo_con]" "client_con_list (demo_server zs) = [0]"
  "zombies (demo_server zs) = zs" "kids (demo_server zs) = [102, 101]"
  "now (demo_server zs) = 1000" "next_addr (demo_server zs) = 4"
  "effects (demo_server zs) = []" "auto_dump (demo_server zs) = False"
  "allow_exit (demo_server zs) = True"
  "subscription_list (demo_server zs) = [\<lparr>s_client = 0, s_ident = SUBS_STATUS, s_cid = 1\<rparr>]"
  by (simp_all add: demo_server_def init_server_def)

lemma demo_registry: "registry_ok (demo_server zs)"
proof -
  have "uvstrhash_holds (child_config_hash (demo_server zs)) [(cc_key 1 demo_cc, 1)]"
    using ustr.holds_insert [OF ustr.holds_create [of HASH_BSIZE_CHILD_CONFIG]]
    by (simp add: demo_server_def)
  then show ?thesis by (simp add: registry_ok_def group_keys_def)
qed

lemma demo_table: "table_ok (process_hash (demo_server zs)) (procs (demo_server zs))"
proof -
  have "uvhash_holds (process_hash (demo_server zs)) [(102, 3), (101, 2)]"
    using uv.holds_insert [OF uv.holds_insert [OF uv.holds_create [of HASH_BSIZE_PROCESS]]]
    by (simp add: demo_server_def)
  moreover have "set [(102, 3), (101, 2)] = pid_entries (procs (demo_server zs))"
    by (simp add: set_eq_iff in_pid_entries demo_proc_def)
  moreover have "distinct (map fst [(102 :: 32 word, 3 :: nat), (101, 2)])" by simp
  ultimately show ?thesis unfolding table_ok_def by blast
qed

lemma demo_slots: "slots_ok (cfgs (demo_server zs)) (procs (demo_server zs))"
proof -
  have "i < 2 \<Longrightarrow> [Proc 2, Proc 3] ! i = (if i = 0 then Proc 2 else Proc 3)" for i :: nat
    by (cases i) (auto simp: less_Suc_eq)
  moreover have "i < 2 \<Longrightarrow> i = 0 \<or> i = 1" for i :: nat by arith
  ultimately show ?thesis unfolding slots_ok_def by (auto simp: demo_proc_def split: if_splits)
qed

lemma demo_inv:
  assumes "demo_zombies zs"
  shows "srv_inv (demo_server zs)"
  unfolding srv_inv_def
proof (intro conjI demo_registry demo_slots demo_table)
  show "sizes_ok (demo_server zs)" using demo_wf by (simp add: sizes_ok_def)
  show "kids_ok (demo_server zs)"
    using assms by (auto simp: kids_ok_def demo_zombies_def demo_proc_def split: if_splits)
  show "addrs_ok (demo_server zs)" by (simp add: addrs_ok_def)
  show "conns_ok (demo_server zs)" by (simp add: conns_ok_def subs_live_def conn_live_def)
qed

lemma demo_ok:
  assumes "demo_zombies zs"
  shows "srv_ok (demo_server zs)"
  using demo_inv [OF assms] by (simp add: srv_ok_def sup_inv_def slots_up_def ran_def)

lemma demo_conn: "conn_live 0 (demo_server zs)"
  by (simp add: conn_live_def)

lemma demo_find: "child_config_find_by_name ''web'' (demo_server zs) = Some 1"
  using ustr.lookup_insert [OF ustr.holds_create [of HASH_BSIZE_CHILD_CONFIG],
      where k = "cc_key 1 demo_cc" and v = "1 :: nat" and q = "''web''"]
  by (simp add: child_config_find_by_name_def demo_server_def init_server_def str_matches_def strcmp_0 cc_key_def)

end
