(* ===== verification/Protocol.thy ===== *)
theory Protocol
  imports Service Client Example
begin

text \<open>
  The protocol as both ends see it. The reading of requests is separated from their
  execution (\<open>decode\<close> and \<open>serve\<close>): which commands a connection runs depends on the bytes
  it received and not on how they were cut into segments, nor on what the commands do. What
  a client sends is decoded as what it meant, and what the server queues as a reply is read
  by the client as that reply.
\<close>

section \<open>Words on the wire\<close>

lemma load_store16 [simp]:
  "load16 (char_of (unat w)) (char_of (unat w div 256)) = (w :: 16 word)"
proof -
  have "unat w < 2 ^ 16" using unsigned_less [of w] by simp
  then have "unat w div 256 < 256" by simp
  then have "unat w mod 256 + 256 * (unat w div 256 mod 256) = unat w" by simp
  then show ?thesis
    unfolding load16_def of_char_of by simp
qed

lemma length_store16 [simp]: "length (store16 w) = 2"
  by (simp add: store16_def)

lemma load_store16_nth [simp]: "load16 (store16 w ! 0) (store16 w ! Suc 0) = w"
  by (simp add: store16_def)

lemma unat_htons: "unat (htons w) = 256 * (unat w mod 256) + unat w div 256"
proof -
  have "unat w < 2 ^ 16" using unsigned_less [of w] by simp
  then have "256 * (unat w mod 256) + unat w div 256 < 2 ^ LENGTH(16)"
    using mod_less_divisor [of 256 "unat w"] by auto
  then show ?thesis unfolding htons_def unat_of_nat take_bit_eq_mod by (rule mod_less)
qed

lemma htons_htons [simp]: "htons (htons w) = w"
proof -
  have "unat w < 2 ^ 16" using unsigned_less [of w] by simp
  then have d: "unat w div 256 < 256" by simp
  have "unat (htons (htons w)) = unat w"
    unfolding unat_htons using d by simp
  then show ?thesis by (simp only: word_unat_eq_iff)
qed

section \<open>Decoding requests\<close>

datatype stop = Wait client_con | Broken string client_con | Stuck

text \<open>The requests in a connection's input, each with the connection as its command sees it.\<close>

primrec decode :: "nat \<Rightarrow> client_con \<Rightarrow> (string \<times> client_con) list \<times> stop" where
  "decode 0 c = ([], Stuck)"
| "decode (Suc n) c =
     (case read_turn c of
        More c \<Rightarrow> ([], Wait c)
      | Bad msg c \<Rightarrow> ([], Broken msg c)
      | Again c \<Rightarrow> decode n c
      | Run buf c \<Rightarrow> (let (rs, t) = decode n (c\<lparr>c_cid := 0\<rparr>) in ((buf, c) # rs, t)))"

primrec stop_at :: "env \<Rightarrow> addr \<Rightarrow> stop \<Rightarrow> server \<Rightarrow> server run" where
  "stop_at E con (Wait c) s =
     deref conns con s (\<lambda>d. Live (set_con con (c\<lparr>c_out := c_out d\<rparr>) s))"
| "stop_at E con (Broken msg c) s =
     deref conns con s (\<lambda>d.
       bindO (slog E msg (set_con con (c\<lparr>c_out := c_out d\<rparr>) s)) (drop_client_connection con))"
| "stop_at E con Stuck s = Dead Hang s"

primrec serve ::
    "env \<Rightarrow> addr \<Rightarrow> stop \<Rightarrow> (string \<times> client_con) list \<Rightarrow> server \<Rightarrow> server run" where
  "serve E con t [] s = stop_at E con t s"
| "serve E con t (r # rs) s =
     deref conns con s (\<lambda>d.
       bindO (run_server_command E (fst r) con (set_con con ((snd r)\<lparr>c_out := c_out d\<rparr>) s)) (\<lambda>(cr, s).
       if \<not> cr then Live s
       else deref conns con s (\<lambda>d. serve E con t rs (set_con con (d\<lparr>c_cid := 0\<rparr>) s))))"

text \<open>A turn looks at the input side only.\<close>

primrec map_turn :: "(client_con \<Rightarrow> client_con) \<Rightarrow> turn \<Rightarrow> turn" where
  "map_turn f (More c) = More (f c)"
| "map_turn f (Bad msg c) = Bad msg (f c)"
| "map_turn f (Run buf c) = Run buf (f c)"
| "map_turn f (Again c) = Again (f c)"

lemma read_payload_out:
  "read_payload (c\<lparr>c_out := x\<rparr>) = map_turn (c_out_update (\<lambda>_. x)) (read_payload c)"
  by (simp add: read_payload_def bufferevent_read_def Let_def)

lemma con_out_commute:
  "c\<lparr>c_out := x, c_in := i, c_cid := w, c_watermark := m\<rparr> = c\<lparr>c_in := i, c_cid := w, c_watermark := m, c_out := x\<rparr>"
  "c\<lparr>c_out := x, c_in := i, c_len := l, c_watermark := m\<rparr> = c\<lparr>c_in := i, c_len := l, c_watermark := m, c_out := x\<rparr>"
  by simp_all

lemma read_cid_out:
  "read_cid (c\<lparr>c_out := x\<rparr>) read_payload = map_turn (c_out_update (\<lambda>_. x)) (read_cid c read_payload)"
  unfolding read_cid_def bufferevent_read_def Let_def
  by (simp add: con_out_commute read_payload_out del: client_con.update_convs)

lemma read_turn_out:
  "read_turn (c\<lparr>c_out := x\<rparr>) = map_turn (c_out_update (\<lambda>_. x)) (read_turn c)"
  unfolding read_turn_def read_len_def bufferevent_read_def Let_def
  by (simp add: con_out_commute read_cid_out del: client_con.update_convs)

text \<open>With enough fuel the amount does not matter.\<close>

lemma con_ok_next: "c_len c = 0 \<Longrightarrow> c_watermark c = 2 \<Longrightarrow> con_ok (c\<lparr>c_cid := 0\<rparr>)"
  by (simp add: con_ok_def)

lemma run_idle: "turn_ok n (Run buf c) \<Longrightarrow> con_ok (c\<lparr>c_cid := 0\<rparr>) \<and> length (c_in c) < n"
  by (simp add: con_ok_def)

lemma decode_fuel:
  "con_ok c \<Longrightarrow> length (c_in c) < n \<Longrightarrow> n \<le> m \<Longrightarrow> decode m c = decode n c"
proof (induction n arbitrary: c m)
  case 0
  then show ?case by simp
next
  case (Suc n)
  then obtain k where m: "m = Suc k" "n \<le> k" by (cases m) auto
  note turn = read_turn_ok [OF Suc.prems(1)]
  show ?case
  proof (cases "read_turn c")
    case (Again c')
    with turn Suc.IH [of c' k] m Suc.prems show ?thesis by simp
  next
    case (Run buf c')
    with turn have "con_ok (c'\<lparr>c_cid := 0\<rparr>)" "length (c_in c') < length (c_in c)"
      using run_idle by auto
    with Run Suc.IH [of "c'\<lparr>c_cid := 0\<rparr>" k] m Suc.prems show ?thesis by simp
  qed (simp_all add: m)
qed

definition requests :: "client_con \<Rightarrow> (string \<times> client_con) list \<times> stop" where
  "requests c = decode (length (c_in c) + 1) c"

lemma requests_step:
  assumes "con_ok c"
  shows "requests c =
    (case read_turn c of
       More c \<Rightarrow> ([], Wait c)
     | Bad msg c \<Rightarrow> ([], Broken msg c)
     | Again c \<Rightarrow> requests c
     | Run buf c \<Rightarrow> (let (rs, t) = requests (c\<lparr>c_cid := 0\<rparr>) in ((buf, c) # rs, t)))"
proof (cases "read_turn c")
  case (Again c')
  with read_turn_ok [OF assms] decode_fuel [of c' "length (c_in c') + 1" "length (c_in c)"]
  show ?thesis by (simp add: requests_def)
next
  case (Run buf c')
  with read_turn_ok [OF assms] run_idle [of "length (c_in c)" buf c']
    decode_fuel [of "c'\<lparr>c_cid := 0\<rparr>" "length (c_in c') + 1" "length (c_in c)"]
  show ?thesis by (simp add: requests_def)
qed (simp_all add: requests_def)

lemma requests_induct [consumes 1]:
  assumes "con_ok c"
    and "\<And>c. con_ok c \<Longrightarrow> (\<And>c'. read_turn c = Again c' \<Longrightarrow> con_ok c' \<Longrightarrow> P c') \<Longrightarrow>
      (\<And>buf c'. read_turn c = Run buf c' \<Longrightarrow> con_ok (c'\<lparr>c_cid := 0\<rparr>) \<Longrightarrow> P (c'\<lparr>c_cid := 0\<rparr>)) \<Longrightarrow> P c"
  shows "P c"
  using assms(1)
proof (induction "length (c_in c)" arbitrary: c rule: less_induct)
  case less
  note turn = read_turn_ok [OF less.prems]
  show ?case
  proof (rule assms(2) [OF less.prems])
    fix c'
    assume "read_turn c = Again c'" and "con_ok c'"
    with turn less.hyps [of c'] show "P c'" by simp
  next
    fix buf c'
    assume "read_turn c = Run buf c'" and "con_ok (c'\<lparr>c_cid := 0\<rparr>)"
    with turn less.hyps [of "c'\<lparr>c_cid := 0\<rparr>"] show "P (c'\<lparr>c_cid := 0\<rparr>)" by simp
  qed
qed

lemma requests_stop: "con_ok c \<Longrightarrow> snd (requests c) \<noteq> Stuck \<and>
    (\<forall>c'. snd (requests c) = Wait c' \<longrightarrow> con_ok c')"
proof (induction rule: requests_induct)
  case (1 c)
  then show ?case
    using read_turn_ok [OF 1(1)]
    by (cases "read_turn c") (auto simp: requests_step [OF 1(1)] con_ok_next split: prod.splits)
qed

section \<open>Segments\<close>

definition arrive :: "string \<Rightarrow> client_con \<Rightarrow> client_con" where
  "arrive bs c = c\<lparr>c_in := c_in c @ bs\<rparr>"

lemma arrive_sel [simp]:
  "c_in (arrive bs c) = c_in c @ bs" "c_len (arrive bs c) = c_len c" "c_cid (arrive bs c) = c_cid c"
  "c_out (arrive bs c) = c_out c" "c_watermark (arrive bs c) = c_watermark c" "con_ok (arrive bs c) = con_ok c"
  "arrive bs (c\<lparr>c_cid := w\<rparr>) = (arrive bs c)\<lparr>c_cid := w\<rparr>"
  by (simp_all add: arrive_def con_ok_def)

definition resume :: "(client_con \<Rightarrow> turn) \<Rightarrow> string \<Rightarrow> turn \<Rightarrow> turn" where
  "resume f bs r = (case r of More c \<Rightarrow> f (arrive bs c) | _ \<Rightarrow> map_turn (arrive bs) r)"

lemma read_payload_arrive: "read_payload (arrive bs c) = resume read_payload bs (read_payload c)"
  by (simp add: resume_def read_payload_def bufferevent_read_def Let_def arrive_def)

text \<open>How a turn goes when the bytes it needs are there, and when they are not.\<close>

lemma read_payload_More: "read_payload c = More c' \<Longrightarrow> c' = c \<and> c_len c > 0 \<and> c_cid c \<noteq> 0"
  by (auto simp: read_payload_def bufferevent_read_def Let_def split: if_splits)

lemma read_cid_skip: "c_cid c \<noteq> 0 \<Longrightarrow> read_cid c f = f c"
  by (simp add: read_cid_def)

definition take_cid :: "client_con \<Rightarrow> client_con" where
  "take_cid c =
     c\<lparr>c_in := drop 2 (c_in c), c_cid := load16 (c_in c ! 0) (c_in c ! Suc 0), c_watermark := c_len c\<rparr>"

lemma read_cid_take:
  "c_len c > 0 \<Longrightarrow> c_cid c = 0 \<Longrightarrow> 2 \<le> length (c_in c) \<Longrightarrow> read_cid c f = f (take_cid c)"
  by (simp add: read_cid_def bufferevent_read_def Let_def take_cid_def)

lemma read_cid_wait: "c_len c > 0 \<Longrightarrow> c_cid c = 0 \<Longrightarrow> length (c_in c) < 2 \<Longrightarrow> read_cid c f = More c"
  by (simp add: read_cid_def)

lemma take_cid_arrive: "2 \<le> length (c_in c) \<Longrightarrow> take_cid (arrive bs c) = arrive bs (take_cid c)"
  by (cases "c_in c") (auto simp: take_cid_def arrive_def nth_append)

lemma resume_cong:
  assumes "\<And>c. r = More c \<Longrightarrow> f (arrive bs c) = g (arrive bs c)"
  shows "resume f bs r = resume g bs r"
  using assms by (simp add: resume_def split: turn.split)

lemma read_cid_arrive:
  assumes "c_len c > 0"
  shows "read_cid (arrive bs c) read_payload =
    resume (\<lambda>c. read_cid c read_payload) bs (read_cid c read_payload)"
proof -
  have p: "read_payload (arrive bs d) = resume (\<lambda>c. read_cid c read_payload) bs (read_payload d)" for d
    unfolding read_payload_arrive
    by (rule resume_cong) (use read_payload_More [of d] in \<open>auto simp: read_cid_skip\<close>)
  consider "c_cid c \<noteq> 0" | "c_cid c = 0" "length (c_in c) < 2" | "c_cid c = 0" "2 \<le> length (c_in c)"
    by linarith
  then show ?thesis
  proof cases
    case 1
    with p show ?thesis by (simp add: read_cid_skip)
  next
    case 2
    with assms show ?thesis by (simp add: read_cid_wait resume_def)
  next
    case 3
    with assms p show ?thesis by (simp add: read_cid_take take_cid_arrive)
  qed
qed

lemma read_cid_More:
  "c_len c > 0 \<Longrightarrow> read_cid c read_payload = More c' \<Longrightarrow> c_len c' > 0"
  by (auto simp: read_cid_def bufferevent_read_def Let_def dest!: read_payload_More split: if_splits)

definition take_len :: "client_con \<Rightarrow> client_con" where
  "take_len c =
     c\<lparr>c_in := drop 2 (c_in c), c_len := unat (ntohs (load16 (c_in c ! 0) (c_in c ! Suc 0))),
       c_watermark := 2\<rparr>"

lemma take_len_arrive: "2 \<le> length (c_in c) \<Longrightarrow> take_len (arrive bs c) = arrive bs (take_len c)"
  by (cases "c_in c") (auto simp: take_len_def arrive_def nth_append)

lemma read_turn_skip: "c_len c > 0 \<Longrightarrow> read_turn c = read_cid c read_payload"
  by (simp add: read_turn_def read_len_def)

lemma read_turn_wait:
  "c_len c = 0 \<Longrightarrow> c_cid c = 0 \<Longrightarrow> length (c_in c) < 2 \<Longrightarrow> read_turn c = More c"
  by (simp add: read_turn_def read_len_def)

lemma read_turn_take:
  assumes "c_len c = 0" and "c_cid c = 0" and "2 \<le> length (c_in c)"
  shows "read_turn c =
    (if c_len (take_len c) > CHUNKSIZ
     then Bad (''command payload too large.'' @ [newline]) (c\<lparr>c_in := drop 2 (c_in c)\<rparr>)
     else if c_len (take_len c) < 4
     then Bad (''command payload too small.'' @ [newline]) (c\<lparr>c_in := drop 2 (c_in c)\<rparr>)
     else read_cid (take_len c) read_payload)"
  using assms by (simp add: read_turn_def read_len_def bufferevent_read_def Let_def take_len_def)

lemma read_turn_arrive:
  assumes "con_ok c"
  shows "read_turn (arrive bs c) = resume read_turn bs (read_turn c)"
proof -
  have p: "read_cid (arrive bs d) read_payload = resume read_turn bs (read_cid d read_payload)"
    if "c_len d > 0" for d
    unfolding read_cid_arrive [OF that]
    by (rule resume_cong) (use read_cid_More [OF that] in \<open>auto simp: read_turn_skip\<close>)
  from assms have "c_len c > 0 \<or> c_len c = 0 \<and> c_cid c = 0" by (auto simp: con_ok_def)
  then consider "c_len c > 0" | "c_len c = 0" "c_cid c = 0" "length (c_in c) < 2"
    | "c_len c = 0" "c_cid c = 0" "2 \<le> length (c_in c)"
    by linarith
  then show ?thesis
  proof cases
    case 1
    with p show ?thesis by (simp add: read_turn_skip)
  next
    case 2
    then show ?thesis by (simp add: read_turn_wait resume_def)
  next
    case 3
    with p [of "take_len c"] show ?thesis
      by (simp add: read_turn_take take_len_arrive) (simp add: resume_def arrive_def)
  qed
qed

text \<open>Reading again without new input changes nothing.\<close>

lemma read_turn_again: "con_ok c \<Longrightarrow> read_turn c = More d \<Longrightarrow> read_turn d = More d"
  using read_turn_arrive [of c "[]"] by (simp add: resume_def arrive_def)

lemma requests_wait: "con_ok c \<Longrightarrow> snd (requests c) = Wait d \<Longrightarrow> requests d = ([], Wait d)"
proof (induction rule: requests_induct)
  case (1 c)
  note turn = read_turn_ok [OF 1(1)]
  show ?case
  proof (cases "read_turn c")
    case (More c')
    with 1 turn read_turn_again [OF 1(1) More] show ?thesis
      by (simp add: requests_step [OF 1(1)] requests_step [of d])
  next
    case (Run buf c')
    with turn have "con_ok (c'\<lparr>c_cid := 0\<rparr>)" by (simp add: con_ok_next)
    from 1(3) [OF Run this] 1(4) Run show ?thesis
      by (simp add: requests_step [OF 1(1)] split: prod.splits)
  qed (use 1 turn in \<open>auto simp: requests_step [OF 1(1)]\<close>)
qed

text \<open>
  What a client can tell of a decoding: the commands with their ids, and whether the
  connection waits (and in which phase) or is broken.
\<close>

definition request_view :: "string \<times> client_con \<Rightarrow> 16 word \<times> string" where
  "request_view r = (c_cid (snd r), fst r)"

primrec stop_view :: "stop \<Rightarrow> (client_con + string) option" where
  "stop_view (Wait c) = Some (Inl c)"
| "stop_view (Broken msg c) = Some (Inr msg)"
| "stop_view Stuck = None"

definition decoded ::
    "(string \<times> client_con) list \<times> stop \<Rightarrow> (16 word \<times> string) list \<times> (client_con + string) option" where
  "decoded r = (map request_view (fst r), stop_view (snd r))"

definition prepend :: "'a list \<Rightarrow> 'a list \<times> 'b \<Rightarrow> 'a list \<times> 'b" where
  "prepend xs r = (xs @ fst r, snd r)"

lemma prepend_simps [simp]: "prepend [] r = r" "prepend xs (ys, z) = (xs @ ys, z)"
  by (simp_all add: prepend_def)

lemma decoded_Run:
  "con_ok c \<Longrightarrow> read_turn c = Run buf c' \<Longrightarrow>
   decoded (requests c) = prepend [(c_cid c', buf)] (decoded (requests (c'\<lparr>c_cid := 0\<rparr>)))"
  by (simp add: requests_step decoded_def request_view_def split_def Let_def prepend_def)

text \<open>More bytes after a stop: the requests so far stay, and reading goes on where it was.\<close>

lemma requests_arrive:
  "con_ok c \<Longrightarrow> decoded (requests (arrive bs c)) =
     (case requests c of
        (rs, Wait c') \<Rightarrow> prepend (map request_view rs) (decoded (requests (arrive bs c')))
      | r \<Rightarrow> decoded r)"
proof (induction rule: requests_induct)
  case (1 c)
  have c: "con_ok (arrive bs c)" using 1(1) by simp
  note step = requests_step [OF c] requests_step [OF 1(1)] read_turn_arrive [OF 1(1)] resume_def
  show ?case
  proof (cases "read_turn c")
    case (More c')
    with read_turn_ok [OF 1(1)] have "con_ok (arrive bs c')" by simp
    with More show ?thesis by (simp add: step requests_step [of "arrive bs c'"])
  next
    case (Bad msg c')
    then show ?thesis by (simp add: step decoded_def)
  next
    case (Again c')
    with read_turn_ok [OF 1(1)] have "con_ok c'" by simp
    with Again 1(2) [OF Again] show ?thesis by (simp add: step)
  next
    case (Run buf c')
    with read_turn_ok [OF 1(1)] have "con_ok (c'\<lparr>c_cid := 0\<rparr>)" by (simp add: con_ok_next)
    note IH = 1(3) [OF Run this]
    have "read_turn (arrive bs c) = Run buf (arrive bs c')" by (simp add: step Run)
    from decoded_Run [OF c this] IH Run
    show ?thesis
      by (simp add: step(2) request_view_def decoded_def prepend_def split: prod.splits stop.splits)
  qed
qed

text \<open>A connection that receives segment after segment, each decoded as far as it goes.\<close>

primrec receive :: "string list \<Rightarrow> client_con \<Rightarrow> (16 word \<times> string) list \<times> (client_con + string) option" where
  "receive [] c = ([], Some (Inl c))"
| "receive (bs # segs) c =
     (case requests (arrive bs c) of
        (rs, Wait c) \<Rightarrow> prepend (map request_view rs) (receive segs c)
      | r \<Rightarrow> decoded r)"

lemma receive_requests:
  assumes "con_ok c" and "requests c = ([], Wait c)"
  shows "receive segs c = decoded (requests (arrive (concat segs) c))"
  using assms
proof (induction segs arbitrary: c)
  case Nil
  then show ?case by (simp add: decoded_def arrive_def)
next
  case (Cons bs segs)
  let ?c = "arrive bs c"
  have c: "con_ok ?c" using Cons.prems(1) by simp
  have e: "arrive (concat (bs # segs)) c = arrive (concat segs) ?c" by (simp add: arrive_def)
  obtain rs t where r: "requests ?c = (rs, t)" by fastforce
  show ?case
  proof (cases t)
    case (Wait d)
    then have d: "con_ok d" using requests_stop [OF c] r by simp
    have "requests d = ([], Wait d)" by (rule requests_wait [OF c]) (use r Wait in simp)
    with Cons.IH [OF d] requests_arrive [OF c, of "concat segs"] r Wait e show ?thesis by simp
  next
    case (Broken msg d)
    with requests_arrive [OF c, of "concat segs"] r e show ?thesis by simp
  next
    case Stuck
    with requests_stop [OF c] r show ?thesis by simp
  qed
qed

section \<open>What a client sends\<close>

definition request_bytes :: "16 word \<times> string \<Rightarrow> string" where
  "request_bytes r = store16 (htons (of_nat (length (snd r)))) @ store16 (fst r) @ snd r"

definition request_ok :: "16 word \<times> string \<Rightarrow> bool" where
  "request_ok r \<longleftrightarrow> fst r \<noteq> 0 \<and> 4 \<le> length (snd r) \<and> length (snd r) \<le> CHUNKSIZ"

lemma send_command_bytes:
  assumes "\<And>k n. wr k n = n"
  shows "sock_send_command wr cmd pl (k, ws) =
    (True, (if pl = None then k + 3 else k + 4,
      ws @ store16 (htons (of_nat (length cmd + length (case pl of None \<Rightarrow> [] | Some p \<Rightarrow> p)))) @
      store16 1 @ cmd @ (case pl of None \<Rightarrow> [] | Some p \<Rightarrow> p)))"
  using assms by (cases pl) (simp_all add: sock_send_command_def sock_write_len_def sock_write_def Let_def)

lemma unat_length: "n \<le> CHUNKSIZ \<Longrightarrow> unat (of_nat n :: 16 word) = n"
  unfolding unat_of_nat take_bit_eq_mod by simp

lemma read_turn_request:
  assumes r: "request_ok r" and c: "con_ok c" "c_len c = 0" and i: "c_in c = request_bytes r @ bs"
  shows "read_turn c = Run (snd r) (c\<lparr>c_in := bs, c_cid := fst r, c_watermark := 2\<rparr>)"
proof -
  have cid: "c_cid c = 0" using c by (simp add: con_ok_def)
  let ?c = "take_len c"
  have l: "c_len ?c = length (snd r)" "c_in ?c = store16 (fst r) @ snd r @ bs" "c_cid ?c = 0"
    using r cid by (simp_all add: take_len_def i request_bytes_def nth_append unat_length request_ok_def)
  have "read_turn c = read_cid ?c read_payload"
    using c cid r l(1) by (simp add: read_turn_take i request_bytes_def request_ok_def)
  also have "\<dots> = read_payload (take_cid ?c)"
    by (rule read_cid_take) (use l r in \<open>auto simp: request_ok_def\<close>)
  also have "take_cid ?c = ?c\<lparr>c_in := snd r @ bs, c_cid := fst r, c_watermark := length (snd r)\<rparr>"
    using l by (simp add: take_cid_def nth_append)
  also have "read_payload \<dots> = Run (snd r) (c\<lparr>c_in := bs, c_cid := fst r, c_watermark := 2\<rparr>)"
    using r l(1) c by (auto simp: read_payload_def bufferevent_read_def Let_def request_ok_def take_len_def)
  finally show ?thesis .
qed

lemma decode_requests:
  assumes "\<forall>r \<in> set rs. request_ok r" and "con_ok c" and "c_len c = 0" and "c_in c = []"
  shows "decoded (requests (arrive (concat (map request_bytes rs)) c)) =
    (rs, Some (Inl (c\<lparr>c_watermark := if rs = [] then c_watermark c else 2\<rparr>)))"
  using assms
proof (induction rs arbitrary: c)
  case Nil
  then have "c_cid c = 0" by (simp add: con_ok_def)
  with Nil have "read_turn c = More c" by (simp add: read_turn_wait)
  then have "requests c = ([], Wait c)" by (simp add: requests_step [OF Nil(2)])
  moreover have "arrive [] c = c" by (cases c) (simp add: arrive_def)
  ultimately show ?case by (simp add: decoded_def)
next
  case (Cons r rs)
  let ?bs = "concat (map request_bytes rs)"
  let ?c = "arrive (concat (map request_bytes (r # rs))) c"
  have cid: "c_cid c = 0" using Cons.prems by (simp add: con_ok_def)
  have "read_turn ?c = Run (snd r) (?c\<lparr>c_in := ?bs, c_cid := fst r, c_watermark := 2\<rparr>)"
    by (rule read_turn_request) (use Cons.prems in simp_all)
  from decoded_Run [OF _ this] Cons.prems
  have "decoded (requests ?c) =
      prepend [r] (decoded (requests (?c\<lparr>c_in := ?bs, c_cid := fst r, c_watermark := 2, c_cid := 0\<rparr>)))"
    by simp
  also have "?c\<lparr>c_in := ?bs, c_cid := fst r, c_watermark := 2, c_cid := 0\<rparr> = arrive ?bs (c\<lparr>c_watermark := 2\<rparr>)"
    using Cons.prems(4) cid by (simp add: arrive_def)
  also have "decoded (requests \<dots>) = (rs, Some (Inl (c\<lparr>c_watermark := 2\<rparr>)))"
    using Cons.IH [of "c\<lparr>c_watermark := 2\<rparr>"] Cons.prems by (simp add: con_ok_def)
  finally show ?case by simp
qed

lemma receive_sent:
  assumes "\<forall>r \<in> set rs. request_ok r" and "con_ok c" and "c_len c = 0" and "c_in c = []"
    and "concat segs = concat (map request_bytes rs)"
  shows "receive segs c =
    (rs, Some (Inl (c\<lparr>c_watermark := if rs = [] then c_watermark c else 2\<rparr>)))"
proof -
  have "c_cid c = 0" using assms(2,3) by (simp add: con_ok_def)
  with assms(3,4) have "read_turn c = More c" by (simp add: read_turn_wait)
  then have "requests c = ([], Wait c)" by (simp add: requests_step [OF assms(2)])
  from receive_requests [OF assms(2) this, of segs] decode_requests [OF assms(1-4)]
  show ?thesis unfolding assms(5) by simp
qed

section \<open>Execution\<close>

text \<open>The loop of \<open>read_cb\<close> runs the decoded requests in order.\<close>

definition con_same :: "client_con \<Rightarrow> client_con \<Rightarrow> bool" where
  "con_same c d \<longleftrightarrow> d\<lparr>c_out := []\<rparr> = c\<lparr>c_out := []\<rparr>"

lemma con_same_fill: "con_same c d \<Longrightarrow> d = c\<lparr>c_out := c_out d\<rparr>"
  by (cases c; cases d) (simp add: con_same_def)

lemma serve_set_con:
  assumes "conns s con = Some d" and "c_out c = c_out d" and "t \<noteq> Stuck"
  shows "serve E con t rs (set_con con c s) = serve E con t rs s"
proof -
  have "set_con con x (set_con con c s) = set_con con x s" for x by (simp add: set_con_def)
  with assms show ?thesis by (cases rs; cases t) (simp_all add: deref_def)
qed

lemma bindO_cong_post:
  "post m Q D \<Longrightarrow> (\<And>x. Q x \<Longrightarrow> f x = g x) \<Longrightarrow> bindO m f = bindO m g"
  by (cases m) auto

lemma read_loop_serve:
  assumes E: "fork_fresh E"
  shows "srv_ok s \<Longrightarrow> conns s con = Some d \<Longrightarrow> con_same c d \<Longrightarrow> con_ok c \<Longrightarrow> length (c_in c) < n \<Longrightarrow>
    read_loop n E con s = serve E con (snd (decode n c)) (fst (decode n c)) s"
proof (induction n arbitrary: s c d)
  case 0
  then show ?case by simp
next
  case (Suc n)
  have d: "d = c\<lparr>c_out := c_out d\<rparr>" by (rule con_same_fill) (rule Suc.prems)
  have turn_d: "read_turn d = map_turn (c_out_update (\<lambda>_. c_out d)) (read_turn c)"
    by (subst d) (rule read_turn_out)
  note turn = read_turn_ok [OF Suc.prems(4)]
  have ok: "srv_ok (set_con con c' s)" for c' by (rule srv_ok_set_con) (use Suc.prems in simp_all)
  show ?case
  proof (cases "read_turn c")
    case (More c')
    with turn_d Suc.prems show ?thesis by (simp add: deref_def)
  next
    case (Bad msg c')
    with turn_d Suc.prems show ?thesis by (simp add: deref_def)
  next
    case (Again c')
    have c': "con_ok c'" "length (c_in c') < n" using turn Again Suc.prems by simp_all
    then have "snd (decode n c') \<noteq> Stuck"
      using decode_fuel [of c' "length (c_in c') + 1" n] requests_stop [OF c'(1)]
      by (simp add: requests_def)
    then have "serve E con (snd (decode n c')) (fst (decode n c')) (set_con con (c'\<lparr>c_out := c_out d\<rparr>) s)
        = serve E con (snd (decode n c')) (fst (decode n c')) s"
      by (intro serve_set_con [OF Suc.prems(2)]) simp_all
    moreover have "read_loop n E con (set_con con (c'\<lparr>c_out := c_out d\<rparr>) s) =
        serve E con (snd (decode n c')) (fst (decode n c')) (set_con con (c'\<lparr>c_out := c_out d\<rparr>) s)"
      by (rule Suc.IH [OF ok, where d = "c'\<lparr>c_out := c_out d\<rparr>"]) (use c' in \<open>simp_all add: con_same_def\<close>)
    ultimately show ?thesis using turn_d Suc.prems Again by (simp add: deref_def)
  next
    case (Run buf c')
    let ?s = "set_con con (c'\<lparr>c_out := c_out d\<rparr>) s" and ?c = "c'\<lparr>c_cid := 0\<rparr>"
    have c': "con_ok ?c" "length (c_in ?c) < n" using turn Run Suc.prems by (simp_all add: con_ok_next)
    have "bindO (run_server_command E buf con ?s) (\<lambda>(cr, s).
        if \<not> cr then Live s
        else deref conns con s (\<lambda>c. read_loop n E con (set_con con (c\<lparr>c_cid := 0\<rparr>) s))) =
      bindO (run_server_command E buf con ?s) (\<lambda>(cr, s).
        if \<not> cr then Live s
        else deref conns con s (\<lambda>d. serve E con (snd (decode n ?c)) (fst (decode n ?c))
          (set_con con (d\<lparr>c_cid := 0\<rparr>) s)))"
    proof (rule bindO_cong_post [OF run_server_command_post [OF E ok]])
      show "conn_live con ?s" by (simp add: conn_live_def)
      fix x :: "bool \<times> server"
      assume "case x of (cr, t) \<Rightarrow> served con ?s cr t"
      then obtain cr t where x: "x = (cr, t)" "served con ?s cr t" by (cases x) auto
      have "read_loop n E con (set_con con (e\<lparr>c_cid := 0\<rparr>) t) =
          serve E con (snd (decode n ?c)) (fst (decode n ?c)) (set_con con (e\<lparr>c_cid := 0\<rparr>) t)"
        if cr and e: "conns t con = Some e" for e
      proof (rule Suc.IH [where d = "e\<lparr>c_cid := 0\<rparr>"])
        show "srv_ok (set_con con (e\<lparr>c_cid := 0\<rparr>) t)"
          using x(2) e by (intro srv_ok_set_con) (simp_all add: served_def)
        have "e\<lparr>c_out := []\<rparr> = c'\<lparr>c_out := []\<rparr>"
          using x(2) e \<open>cr\<close> by (simp add: served_def con_view_def)
        then show "con_same ?c (e\<lparr>c_cid := 0\<rparr>)" by (cases e; cases c') (simp add: con_same_def)
      qed (use c' in simp_all)
      then show "(case x of (cr, s) \<Rightarrow> if \<not> cr then Live s
          else deref conns con s (\<lambda>c. read_loop n E con (set_con con (c\<lparr>c_cid := 0\<rparr>) s))) =
        (case x of (cr, s) \<Rightarrow> if \<not> cr then Live s
          else deref conns con s (\<lambda>d. serve E con (snd (decode n ?c)) (fst (decode n ?c))
            (set_con con (d\<lparr>c_cid := 0\<rparr>) s)))"
        by (auto simp: x(1) deref_def split: option.splits)
    qed
    with Run turn_d Suc.prems show ?thesis
      by (simp add: deref_def split_def Let_def)
  qed
qed

lemma read_cb_serve:
  assumes "fork_fresh E" and "srv_ok s" and "conns s con = Some c" and "con_ok c"
  shows "read_cb E con s = serve E con (snd (requests c)) (fst (requests c)) s"
  using read_loop_serve [OF assms(1,2,3) _ assms(4), of "length (c_in c) + 1"] assms(3)
  by (simp add: read_cb_def deref_def requests_def con_same_def)

section \<open>Properties\<close>

text \<open>
  C10. However the bytes of a client's requests are cut into segments, and whenever the server
  gets to read, the requests are decoded as they were sent: the same commands with the same
  command ids in the same order, and the connection then waits for the next request.
\<close>

theorem requests_survive_transport:
  assumes "\<forall>r \<in> set rs. request_ok r" and "con_ok c" and "c_len c = 0" and "c_in c = []"
    and "concat segs = concat (map request_bytes rs)"
  shows "receive segs c =
    (rs, Some (Inl (c\<lparr>c_watermark := if rs = [] then c_watermark c else 2\<rparr>)))"
  by (rule receive_sent [OF assms])

definition fresh_con :: client_con where
  "fresh_con = \<lparr>c_sock = 8, c_in = [], c_out = [], c_watermark = 4, c_len = 0, c_cid = 0\<rparr>"

lemma requests_survive_transport_witness:
  "fst (receive [[CHR 0x00], [CHR 0x04, CHR 0x01], [CHR 0x00] @ ''LI'', ''ST'' @ [CHR 0x00],
      [CHR 0x05, CHR 0x01, CHR 0x00] @ ''DUMP!''] fresh_con) = [(1, ''LIST''), (1, ''DUMP!'')]"
proof -
  have "receive [[CHR 0x00], [CHR 0x04, CHR 0x01], [CHR 0x00] @ ''LI'', ''ST'' @ [CHR 0x00],
      [CHR 0x05, CHR 0x01, CHR 0x00] @ ''DUMP!''] fresh_con =
    ([(1, ''LIST''), (1, ''DUMP!'')], Some (Inl (fresh_con\<lparr>c_watermark := 2\<rparr>)))"
    by (subst requests_survive_transport [where rs = "[(1, ''LIST''), (1, ''DUMP!'')]"])
      (simp_all add: request_ok_def fresh_con_def con_ok_def request_bytes_def store16_def htons_def
        char_of_def bit_0)
  then show ?thesis by simp
qed

text \<open>
  C9. Reading and executing are independent: \<open>read_cb\<close> runs exactly the requests that the
  bytes of the connection decode to, in order, until one of them drops the connection,
  whatever the commands do in between. In particular it returns.
\<close>

theorem read_cb_runs_requests:
  assumes "fork_fresh E" and "srv_ok s" and "idle s" and "conns s con = Some c"
  shows "read_cb E con s = serve E con (snd (requests c)) (fst (requests c)) s \<and>
    snd (requests c) \<noteq> Stuck"
proof -
  have c: "con_ok c" using assms(3,4) by (auto simp: idle_def ran_def)
  then show ?thesis using read_cb_serve [OF assms(1,2,4) c] requests_stop [OF c] by simp
qed

lemma demo_idle: "con_ok c \<Longrightarrow> srv_ok (set_con 0 c (demo_server [])) \<and> idle (set_con 0 c (demo_server []))"
  using demo_ok [of "[]"] by (simp add: srv_ok_set_con demo_zombies_def idle_def)

lemma read_cb_runs_requests_witness:
  "read_cb demo_env 0 (set_con 0 (arrive (request_bytes (1, ''LIST'')) demo_con) (demo_server [])) =
   serve demo_env 0 (Wait (demo_con\<lparr>c_watermark := 2\<rparr>))
     [(''LIST'', demo_con\<lparr>c_cid := 1, c_watermark := 2\<rparr>)]
     (set_con 0 (arrive (request_bytes (1, ''LIST'')) demo_con) (demo_server []))"
proof -
  let ?c = "arrive (request_bytes (1, ''LIST'')) demo_con"
  have c: "con_ok demo_con" "c_len demo_con = 0" "c_in demo_con = []" by (simp_all add: con_ok_def demo_con_def)
  define d e where "d = demo_con\<lparr>c_cid := 1, c_watermark := 2\<rparr>" and "e = demo_con\<lparr>c_watermark := 2\<rparr>"
  have "read_turn ?c = Run ''LIST'' d"
    using read_turn_request [of "(1, ''LIST'')" ?c "[]"] c
    by (simp add: request_ok_def arrive_def demo_con_def d_def con_ok_def)
  moreover have "read_turn e = More e"
    by (rule read_turn_wait) (simp_all add: demo_con_def e_def)
  moreover have "d\<lparr>c_cid := 0\<rparr> = e" by (simp add: demo_con_def d_def e_def)
  moreover have "con_ok ?c" "con_ok e" using c by (simp_all add: con_ok_def e_def)
  ultimately have "requests ?c = ([(''LIST'', d)], Wait e)"
    by (simp add: requests_step [of ?c] requests_step [of e])
  with read_cb_runs_requests [OF demo_fork, of "set_con 0 ?c (demo_server [])" 0 ?c] demo_idle [of ?c] c
  show ?thesis by (simp add: d_def e_def)
qed

end
