(* ===== verification/Reply.thy ===== *)
theory Reply
  imports Protocol
begin

text \<open>
  Replies: what \<open>send_message\<close> queues for a connection, in chunks of at most \<open>CHUNKSIZ\<close>
  bytes of which all but the last have \<open>CHUNKEXT\<close> set, and how \<open>read_reply\<close> of the client
  puts them together again, over a socket that may cut the payloads anywhere.
\<close>

section \<open>What is queued\<close>

definition chunk_bytes :: "16 word \<Rightarrow> nat \<Rightarrow> string \<Rightarrow> string" where
  "chunk_bytes cid len payload = store16 (htons (of_nat len)) @ store16 cid @ payload"

function message_bytes :: "16 word \<Rightarrow> string \<Rightarrow> string" where
  "message_bytes cid ret =
     (if length ret > CHUNKSIZ
      then chunk_bytes cid (CHUNKEXT + CHUNKSIZ) (take CHUNKSIZ ret) @ message_bytes cid (drop CHUNKSIZ ret)
      else chunk_bytes cid (length ret) ret)"
  by pat_completeness auto
termination
  by (relation "measure (\<lambda>(cid, ret). length ret)") auto

declare message_bytes.simps [simp del]

definition queued :: "addr \<Rightarrow> string \<Rightarrow> server \<Rightarrow> server \<Rightarrow> bool" where
  "queued con bs s s' \<longleftrightarrow>
     (\<exists>c. conns s con = Some c \<and>
        s' = s\<lparr>tick := tick s', conns := (conns s)(con \<mapsto> c\<lparr>c_out := c_out c @ bs\<rparr>)\<rparr>)"

lemma queued_trans:
  assumes "queued con xs s t" and "queued con ys t u"
  shows "queued con (xs @ ys) s u"
proof -
  from assms(1) obtain c where c: "conns s con = Some c"
    "t = s\<lparr>tick := tick t, conns := (conns s)(con \<mapsto> c\<lparr>c_out := c_out c @ xs\<rparr>)\<rparr>"
    by (auto simp: queued_def)
  have t: "conns t con = Some (c\<lparr>c_out := c_out c @ xs\<rparr>)" by (subst c(2)) simp
  with assms(2) have "u = t\<lparr>tick := tick u, conns := (conns t)(con \<mapsto> c\<lparr>c_out := (c_out c @ xs) @ ys\<rparr>)\<rparr>"
    by (auto simp: queued_def)
  also have "\<dots> = s\<lparr>tick := tick u, conns := (conns s)(con \<mapsto> c\<lparr>c_out := c_out c @ xs @ ys\<rparr>)\<rparr>"
    by (subst c(2), subst (2) c(2)) simp
  finally show ?thesis using c(1) by (auto simp: queued_def)
qed

lemma bufferevent_write_queues:
  assumes "\<And>k. bufferevent_write_ok E k" and "conns s con \<noteq> None"
  shows "\<exists>s'. bufferevent_write E con bs s = Live (True, s') \<and> queued con bs s s'"
  using assms by (auto simp: bufferevent_write_def queued_def ticked_def)

lemma queued_con:
  "queued con bs s s' \<Longrightarrow> \<exists>c c'. conns s con = Some c \<and> conns s' con = Some c' \<and> c_cid c' = c_cid c"
proof -
  assume "queued con bs s s'"
  then obtain c where c: "conns s con = Some c"
    "s' = s\<lparr>tick := tick s', conns := (conns s)(con \<mapsto> c\<lparr>c_out := c_out c @ bs\<rparr>)\<rparr>"
    by (auto simp: queued_def)
  have "conns s' con = Some (c\<lparr>c_out := c_out c @ bs\<rparr>)" by (subst c(2)) simp
  with c(1) show ?thesis by simp
qed

lemma send_chunk_queues:
  assumes w: "\<And>k. bufferevent_write_ok E k" and c: "conns s con = Some c"
  shows "\<exists>s'. send_chunk E con len payload s = Live (True, s') \<and>
    queued con (chunk_bytes (c_cid c) len payload) s s'"
proof -
  obtain s1 where s1: "bufferevent_write E con (store16 (htons (of_nat len))) s = Live (True, s1)"
    "queued con (store16 (htons (of_nat len))) s s1"
    using bufferevent_write_queues [OF w, of s con] c by blast
  obtain c1 where c1: "conns s1 con = Some c1" "c_cid c1 = c_cid c" using queued_con [OF s1(2)] c by auto
  obtain s2 where s2: "bufferevent_write E con (store16 (c_cid c)) s1 = Live (True, s2)"
    "queued con (store16 (c_cid c)) s1 s2"
    using bufferevent_write_queues [OF w, of s1 con] c1 by blast
  obtain c2 where c2: "conns s2 con = Some c2" using queued_con [OF s2(2)] by auto
  obtain s3 where s3: "bufferevent_write E con payload s2 = Live (True, s3)" "queued con payload s2 s3"
    using bufferevent_write_queues [OF w, of s2 con] c2 by blast
  from queued_trans [OF s1(2) queued_trans [OF s2(2) s3(2)]] s1(1) s2(1) s3(1) c1
  show ?thesis by (simp add: send_chunk_def chunk_bytes_def)
qed

lemma send_message_queues:
  assumes w: "\<And>k. bufferevent_write_ok E k"
  shows "conns s con = Some c \<Longrightarrow>
    \<exists>s'. send_message E con ret s = Live (True, s') \<and> queued con (message_bytes (c_cid c) ret) s s'"
proof (induction "length ret" arbitrary: s c ret rule: less_induct)
  case less
  show ?case
  proof (cases "length ret > CHUNKSIZ")
    case False
    with send_chunk_queues [OF w less.prems] show ?thesis
      by (simp add: send_message.simps [of E con ret] message_bytes.simps [of _ ret])
  next
    case True
    obtain t where t: "send_chunk E con (CHUNKEXT + CHUNKSIZ) (take CHUNKSIZ ret) s = Live (True, t)"
      "queued con (chunk_bytes (c_cid c) (CHUNKEXT + CHUNKSIZ) (take CHUNKSIZ ret)) s t"
      using send_chunk_queues [OF w less.prems] by blast
    obtain d where d: "conns t con = Some d" "c_cid d = c_cid c" using queued_con [OF t(2)] less.prems by auto
    have l: "length (drop CHUNKSIZ ret) < length ret" using True by simp
    obtain u where "send_message E con (drop CHUNKSIZ ret) t = Live (True, u)"
      "queued con (message_bytes (c_cid c) (drop CHUNKSIZ ret)) t u"
      using less.hyps [OF l d(1)] d(2) by auto
    with queued_trans [OF t(2)] t(1) True show ?thesis
      by (simp add: send_message.simps [of E con ret] message_bytes.simps [of _ ret])
  qed
qed

section \<open>What the client reads\<close>

text \<open>\<open>n\<close> bytes further down the socket, wherever its segments end.\<close>

primrec sock_drop :: "nat \<Rightarrow> string list \<Rightarrow> string list" where
  "sock_drop n [] = []"
| "sock_drop n (seg # segs) =
     (if length seg \<le> n then sock_drop (n - length seg) segs else drop n seg # segs)"

lemma concat_sock_drop [simp]: "concat (sock_drop n sock) = drop n (concat sock)"
  by (induction sock arbitrary: n) auto

lemma sock_drop_nonempty: "[] \<notin> set sock \<Longrightarrow> [] \<notin> set (sock_drop n sock)"
  by (induction sock arbitrary: n) auto

lemma sock_drop_0: "[] \<notin> set sock \<Longrightarrow> sock_drop 0 sock = sock"
  by (cases sock) auto

lemma sock_drop_drop: "[] \<notin> set sock \<Longrightarrow> sock_drop a (sock_drop b sock) = sock_drop (b + a) sock"
  by (induction sock arbitrary: b) (auto simp: sock_drop_0 add.commute)

text \<open>The next \<open>n\<close> bytes are in one segment.\<close>

definition whole :: "nat \<Rightarrow> string list \<Rightarrow> bool" where
  "whole n sock \<longleftrightarrow> sock \<noteq> [] \<and> n \<le> length (hd sock)"

lemma sock_read_whole:
  assumes "whole n sock" and "[] \<notin> set sock" and "0 < n"
  shows "sock_read n sock = (take n (concat sock), sock_drop n sock)"
proof -
  from assms(1) obtain seg segs where s: "sock = seg # segs" "n \<le> length seg"
    by (cases sock) (auto simp: whole_def)
  with assms(2) sock_drop_0 [of segs] show ?thesis by auto
qed

lemma read_chunk_all:
  "[] \<notin> set sock \<Longrightarrow> need \<le> length (concat sock) \<Longrightarrow>
   read_chunk need ret sock = Some (ret @ take need (concat sock), sock_drop need sock)"
proof (induction need ret sock rule: read_chunk.induct)
  case (1 need ret sock)
  show ?case
  proof (cases "need = 0")
    case True
    with "1.prems" show ?thesis by (simp add: read_chunk.simps sock_drop_0)
  next
    case False
    with "1.prems" obtain seg segs where s: "sock = seg # segs" "seg \<noteq> []" by (cases sock) auto
    let ?segs = "if length seg \<le> need then segs else drop need seg # segs"
    have r: "sock_read need sock = (take need seg, ?segs)" by (simp add: s)
    have "read_chunk (need - length (take need seg)) (ret @ take need seg) ?segs =
      Some ((ret @ take need seg) @ take (need - length (take need seg)) (concat ?segs),
        sock_drop (need - length (take need seg)) ?segs)"
      by (rule "1.IH" [OF False r [symmetric] refl]) (use s "1.prems" False in auto)
    with False r s "1.prems"(1) sock_drop_0 [of "drop need seg # segs"] show ?thesis
      by (subst read_chunk.simps) (auto simp: min_def not_le)
  qed
qed

text \<open>The two bytes of every length and of every command id are not cut.\<close>

function headers_whole :: "string \<Rightarrow> string list \<Rightarrow> bool" where
  "headers_whole ret sock \<longleftrightarrow>
     whole 2 sock \<and> whole 2 (sock_drop 2 sock) \<and>
     (length ret > CHUNKSIZ \<longrightarrow>
        headers_whole (drop CHUNKSIZ ret) (sock_drop CHUNKSIZ (sock_drop 2 (sock_drop 2 sock))))"
  by pat_completeness auto
termination
  by (relation "measure (\<lambda>(ret, sock). length ret)") auto

declare headers_whole.simps [simp del]

lemma not_cont:
  assumes n: "n \<le> CHUNKSIZ"
  shows "\<not> is_cont (of_nat n)"
proof
  assume "is_cont (of_nat n)"
  then have "bit (of_nat n AND 2 ^ 15 :: 16 word) 15" by (simp add: is_cont_def)
  then have "bit (of_nat n :: 16 word) 15" by (simp add: bit_and_iff)
  then have "bit (unat (of_nat n :: 16 word)) 15" by (simp add: bit_unsigned_iff)
  then have "bit n 15" unfolding unat_length [OF n] .
  moreover have "n div 2 ^ 15 = 0" using n by simp
  ultimately show False by (simp add: bit_iff_odd)
qed

lemma cont_word: "is_cont (of_nat (CHUNKEXT + CHUNKSIZ))"
    "of_nat (CHUNKEXT + CHUNKSIZ) - 32768 = (of_nat CHUNKSIZ :: 16 word)"
    "(of_nat (CHUNKEXT + CHUNKSIZ) :: 16 word) \<noteq> 0"
  by (simp_all add: is_cont_def)

lemma read_header:
  assumes "[] \<notin> set sock" and "concat sock = chunk_bytes cid len payload @ rest"
    and "whole 2 sock" and "whole 2 (sock_drop 2 sock)"
  shows "sock_read 2 sock = (store16 (htons (of_nat len)), sock_drop 2 sock)"
    "sock_read 2 (sock_drop 2 sock) = (store16 cid, sock_drop 2 (sock_drop 2 sock))"
  using assms sock_drop_nonempty [OF assms(1), of 2]
  by (simp_all add: sock_read_whole chunk_bytes_def)

lemma read_reply_message:
  "[] \<notin> set sock \<Longrightarrow> concat sock = message_bytes cid ret @ rest \<Longrightarrow> headers_whole ret sock \<Longrightarrow>
   ret \<noteq> [] \<Longrightarrow>
   read_reply_loop acc sock = Some (acc @ ret, sock_drop (length (message_bytes cid ret)) sock)"
proof (induction "length ret" arbitrary: acc sock ret rule: less_induct)
  case less
  let ?sock = "sock_drop 2 (sock_drop 2 sock)"
  have w: "whole 2 sock" "whole 2 (sock_drop 2 sock)"
    using less.prems(3) by (simp_all add: headers_whole.simps [of ret])
  have ne: "[] \<notin> set ?sock" by (intro sock_drop_nonempty less.prems(1))
  show ?case
  proof (cases "length ret > CHUNKSIZ")
    case False
    then have n: "length ret \<le> CHUNKSIZ" by simp
    have b: "concat sock = chunk_bytes cid (length ret) ret @ rest"
      using less.prems(2) False by (simp add: message_bytes.simps [of cid ret])
    have "read_chunk (unat (of_nat (length ret) :: 16 word)) [] ?sock =
        Some (ret, sock_drop (length ret) ?sock)"
      using read_chunk_all [OF ne, of "length ret"] b by (simp add: unat_length n chunk_bytes_def)
    moreover have "(of_nat (length ret) :: 16 word) \<noteq> 0"
      using unat_length [OF n] less.prems(4) by (metis length_0_conv unat_0)
    ultimately show ?thesis
      using read_header [OF less.prems(1) b w] not_cont [OF n] False
      by (subst read_reply_loop.simps)
        (simp add: Let_def message_bytes.simps [of cid ret] chunk_bytes_def sock_drop_drop [OF less.prems(1)]
          eval_nat_numeral)
  next
    case True
    let ?l = "of_nat (CHUNKEXT + CHUNKSIZ) :: 16 word"
    let ?m = "message_bytes cid (drop CHUNKSIZ ret)"
    have b: "concat sock = chunk_bytes cid (CHUNKEXT + CHUNKSIZ) (take CHUNKSIZ ret) @ ?m @ rest"
      using less.prems(2) True by (simp add: message_bytes.simps [of cid ret])
    have "concat ?sock = take CHUNKSIZ ret @ ?m @ rest" by (simp add: b chunk_bytes_def)
    then have c: "read_chunk CHUNKSIZ [] ?sock = Some (take CHUNKSIZ ret, sock_drop CHUNKSIZ ?sock)"
      "concat (sock_drop CHUNKSIZ ?sock) = ?m @ rest"
      using read_chunk_all [OF ne, of CHUNKSIZ "[]"] True by simp_all
    have h: "headers_whole (drop CHUNKSIZ ret) (sock_drop CHUNKSIZ ?sock)"
      using less.prems(3) True by (simp add: headers_whole.simps [of ret])
    have l: "length (drop CHUNKSIZ ret) < length ret" "drop CHUNKSIZ ret \<noteq> []" using True by simp_all
    have "read_reply_loop (acc @ take CHUNKSIZ ret) (sock_drop CHUNKSIZ ?sock) =
        Some ((acc @ take CHUNKSIZ ret) @ drop CHUNKSIZ ret,
          sock_drop (length ?m) (sock_drop CHUNKSIZ ?sock))"
      using less.hyps [OF l(1) sock_drop_nonempty [OF ne] c(2) h l(2)] by blast
    moreover have "sock_drop (length ?m) (sock_drop CHUNKSIZ ?sock) =
        sock_drop (length (message_bytes cid ret)) sock"
      using True by (simp add: message_bytes.simps [of cid ret] chunk_bytes_def
          sock_drop_drop [OF less.prems(1)] add.assoc)
    moreover have "unat (of_nat CHUNKSIZ :: 16 word) = CHUNKSIZ" by (rule unat_length) simp
    ultimately show ?thesis
      using read_header [OF less.prems(1) b w] cont_word c(1)
      by (subst read_reply_loop.simps) (simp add: Let_def del: of_nat_add of_nat_numeral)
  qed
qed

text \<open>One segment with the whole message is always fine.\<close>

lemma length_message_bytes: "4 + length ret \<le> length (message_bytes cid ret)"
proof (induction "length ret" arbitrary: ret rule: less_induct)
  case less
  show ?case
  proof (cases "length ret > CHUNKSIZ")
    case True
    then have "length (drop CHUNKSIZ ret) < length ret" by simp
    from less [OF this] True show ?thesis
      by (simp add: message_bytes.simps [of cid ret] chunk_bytes_def)
  qed (simp add: message_bytes.simps [of cid ret] chunk_bytes_def)
qed

lemma headers_whole_one: "headers_whole ret ((message_bytes cid ret @ rest) # sock)"
proof (induction "length ret" arbitrary: ret rule: less_induct)
  case less
  have l: "4 + length ret \<le> length (message_bytes cid ret)" by (rule length_message_bytes)
  show ?case
  proof (cases "length ret > CHUNKSIZ")
    case False
    with l show ?thesis by (simp add: headers_whole.simps [of ret] whole_def)
  next
    case True
    let ?m = "message_bytes cid (drop CHUNKSIZ ret)"
    have m: "message_bytes cid ret = chunk_bytes cid (CHUNKEXT + CHUNKSIZ) (take CHUNKSIZ ret) @ ?m"
      using True by (simp add: message_bytes.simps [of cid ret])
    have c: "length (chunk_bytes cid (CHUNKEXT + CHUNKSIZ) (take CHUNKSIZ ret)) = 4 + CHUNKSIZ"
      using True by (simp add: chunk_bytes_def)
    have "?m \<noteq> []" using length_message_bytes [of "drop CHUNKSIZ ret" cid] by auto
    then have "sock_drop CHUNKSIZ (sock_drop 2 (sock_drop 2 ((message_bytes cid ret @ rest) # sock))) = (?m @ rest) # sock"
      using c by (simp add: m)
    with less [of "drop CHUNKSIZ ret"] True l show ?thesis
      by (simp add: headers_whole.simps [of ret] whole_def)
  qed
qed

lemma read_reply_next:
  assumes "ret \<noteq> []" and "[] \<notin> set sock"
  shows "read_reply_loop acc (message_bytes cid ret # sock) = Some (acc @ ret, sock)"
proof -
  have "[] \<notin> set (message_bytes cid ret # sock)"
    using length_message_bytes [where ret = ret and cid = cid] assms(2) by auto
  from read_reply_message [OF this, where rest = "concat sock" and acc = acc and ret = ret and cid = cid]
    headers_whole_one [where rest = "[]"] assms sock_drop_0 [OF assms(2)]
  show ?thesis by simp
qed

section \<open>Properties\<close>

text \<open>
  C12. A reply arrives as it was sent: when libevent takes the writes, \<open>send_message\<close> queues
  bytes from which \<open>read_reply\<close> of the client reads exactly the reply, of any length but 0,
  over any socket that delivers these bytes without cutting a header, and leaves what
  follows them for the next read.
\<close>

theorem reply_roundtrip:
  assumes "\<And>k. bufferevent_write_ok E k" and "conns s con = Some c" and "ret \<noteq> []"
  shows "\<exists>s'. send_message E con ret s = Live (True, s') \<and>
    queued con (message_bytes (c_cid c) ret) s s' \<and>
    (\<forall>sock rest. [] \<notin> set sock \<longrightarrow> concat sock = message_bytes (c_cid c) ret @ rest \<longrightarrow> headers_whole ret sock \<longrightarrow>
       read_reply sock = Some ret)"
proof -
  obtain s' where s': "send_message E con ret s = Live (True, s')"
    "queued con (message_bytes (c_cid c) ret) s s'"
    using send_message_queues [OF assms(1,2)] by blast
  moreover have "read_reply sock = Some ret"
    if "[] \<notin> set sock" "concat sock = message_bytes (c_cid c) ret @ rest" "headers_whole ret sock" for sock rest
    using read_reply_message [OF that assms(3), of "[]"] by (auto simp: read_reply_def)
  ultimately show ?thesis by blast
qed

lemma reply_roundtrip_witness:
  "read_reply [[CHR 0x00, CHR 0x05, CHR 0x01, CHR 0x00] @ ''he'', ''llo'' @ ''next''] = Some ''hello''"
proof -
  let ?s = "set_con 0 (demo_con\<lparr>c_cid := 1\<rparr>) (demo_server [])"
  let ?sock = "[[CHR 0x00, CHR 0x05, CHR 0x01, CHR 0x00] @ ''he'', ''llo'' @ ''next'']"
  have "bufferevent_write_ok demo_env k" for k by (simp add: demo_env_def)
  moreover have "conns ?s 0 = Some (demo_con\<lparr>c_cid := 1\<rparr>)" "''hello'' \<noteq> []" by simp_all
  ultimately have "\<forall>sock rest. [] \<notin> set sock \<longrightarrow>
      concat sock = message_bytes (c_cid (demo_con\<lparr>c_cid := 1\<rparr>)) ''hello'' @ rest \<longrightarrow>
      headers_whole ''hello'' sock \<longrightarrow> read_reply sock = Some ''hello''"
    using reply_roundtrip by blast
  then have "[] \<notin> set ?sock \<longrightarrow>
      concat ?sock = message_bytes (c_cid (demo_con\<lparr>c_cid := 1\<rparr>)) ''hello'' @ ''next'' \<longrightarrow>
      headers_whole ''hello'' ?sock \<longrightarrow> read_reply ?sock = Some ''hello''"
    by blast
  moreover have "concat ?sock = message_bytes 1 ''hello'' @ ''next''"
    by (simp add: message_bytes.simps chunk_bytes_def store16_def htons_def char_of_def bit_0)
  moreover have "headers_whole ''hello'' ?sock" by (subst headers_whole.simps) (simp add: whole_def)
  ultimately show ?thesis by simp
qed

text \<open>
  A header that arrives in two pieces is an error, although the bytes are those of a good
  reply: \<open>read_reply\<close> reads a length or an id with one \<open>read\<close> and takes a short read for the
  end of the stream.
\<close>

theorem split_header_fails:
  "read_reply [take 1 (message_bytes cid (x # xs)), drop 1 (message_bytes cid (x # xs))] = None \<and>
   read_reply [message_bytes cid (x # xs)] = Some (x # xs)"
proof
  obtain y ys where m: "message_bytes cid (x # xs) = y # ys"
    using length_message_bytes [where ret = "x # xs" and cid = cid] by (cases "message_bytes cid (x # xs)") auto
  show "read_reply [take 1 (message_bytes cid (x # xs)), drop 1 (message_bytes cid (x # xs))] = None"
    by (simp add: read_reply_def read_reply_loop.simps m)
  show "read_reply [message_bytes cid (x # xs)] = Some (x # xs)"
    using read_reply_next [of "x # xs" "[]" "[]" cid] by (simp add: read_reply_def)
qed

end
