(* ===== verification/System.thy ===== *)
theory System
  imports Startup
begin

text \<open>
  The server as a state machine. An \<open>event\<close> is something libevent or the kernel brings to
  the process; \<open>enabled\<close> says when it can happen and \<open>handle\<close> is the code that runs for it.
  \<open>step\<close> is one event that is handled to its end, \<open>reachable\<close> what a server can get to.
  The invariant \<open>sys_ok\<close> holds in every reachable state.
\<close>

section \<open>Events\<close>

datatype event =
    Accept bool
  | Arrive addr string
  | Readable addr
  | Hangup addr
  | Flushed addr
  | Exits int int
  | Sigchld
  | Sighup
  | Timer addr
  | PipeData addr string
  | PipeError addr
  | Clock int

fun enabled :: "event \<Rightarrow> server \<Rightarrow> bool" where
  "enabled (Accept evread) s = True"
| "enabled (Arrive con bs) s = (conns s con \<noteq> None)"
| "enabled (Readable con) s =
     (case conns s con of None \<Rightarrow> False | Some c \<Rightarrow> c_watermark c \<le> length (c_in c))"
| "enabled (Hangup con) s = (conns s con \<noteq> None)"
| "enabled (Flushed con) s = (conns s con \<noteq> None)"
| "enabled (Exits pid ret) s = (pid \<in> set (kids s) \<and> pid \<notin> fst ` set (zombies s))"
| "enabled Sigchld s = True"
| "enabled Sighup s = True"
| "enabled (Timer p) s =
     (case procs s p of None \<Rightarrow> False | Some pr \<Rightarrow> p_heartbeat_timer pr)"
| "enabled (PipeData p bs) s = (case procs s p of None \<Rightarrow> False | Some pr \<Rightarrow> p_child_sockbuf pr)"
| "enabled (PipeError p) s = (case procs s p of None \<Rightarrow> False | Some pr \<Rightarrow> p_child_sockbuf pr)"
| "enabled (Clock t) s = (now s \<le> t)"

fun handle :: "env \<Rightarrow> event \<Rightarrow> server \<Rightarrow> server run" where
  "handle E (Accept evread) s = accept_cb E evread s"
| "handle E (Arrive con bs) s = deref conns con s (\<lambda>c. Live (set_con con (c\<lparr>c_in := c_in c @ bs\<rparr>) s))"
| "handle E (Readable con) s = read_cb E con s"
| "handle E (Hangup con) s = error_cb con s"
| "handle E (Flushed con) s = deref conns con s (\<lambda>c. Live (set_con con (c\<lparr>c_out := []\<rparr>) s))"
| "handle E (Exits pid ret) s = Live (s\<lparr>zombies := zombies s @ [(pid, ret)]\<rparr>)"
| "handle E Sigchld s = sigchld_cb E s"
| "handle E Sighup s = sighup_cb E s"
| "handle E (Timer p) s =
     deref procs p s (\<lambda>pr. heartbeat_cb E p (set_proc p (pr\<lparr>p_heartbeat_timer := False\<rparr>) s))"
| "handle E (PipeData p bs) s = child_read_cb E bs s"
| "handle E (PipeError p) s = child_error_cb p s"
| "handle E (Clock t) s = Live (s\<lparr>now := t\<rparr>)"

inductive step :: "env \<Rightarrow> server \<Rightarrow> event \<Rightarrow> server \<Rightarrow> bool" for E where
  step: "enabled ev s \<Longrightarrow> handle E ev s = Live s' \<Longrightarrow> step E s ev s'"

inductive reachable :: "env \<Rightarrow> server \<Rightarrow> server \<Rightarrow> bool" for E s0 where
  start: "reachable E s0 s0"
| after: "reachable E s0 s \<Longrightarrow> step E s ev s' \<Longrightarrow> reachable E s0 s'"

inductive_cases stepE [elim!]: "step E s ev s'"

inductive_simps step_simps: "step E s ev s'"

text \<open>A run as a function: the events in order, each of which must be possible.\<close>

primrec run_events :: "env \<Rightarrow> event list \<Rightarrow> server \<Rightarrow> server run option" where
  "run_events E [] s = Some (Live s)"
| "run_events E (ev # evs) s =
     (if \<not> enabled ev s then None
      else case handle E ev s of Dead h t \<Rightarrow> Some (Dead h t) | Live s' \<Rightarrow> run_events E evs s')"

lemma run_events_append:
  "run_events E (evs @ evs') s =
     (case run_events E evs s of Some (Live s') \<Rightarrow> run_events E evs' s' | r \<Rightarrow> r)"
  by (induction evs arbitrary: s) (auto split: outcome.split)

lemma reachable_run: "reachable E s0 s \<Longrightarrow> \<exists>evs. run_events E evs s0 = Some (Live s)"
proof (induction rule: reachable.induct)
  case start
  show ?case by (rule exI [of _ "[]"]) simp
next
  case (after s ev s')
  then obtain evs where "run_events E evs s0 = Some (Live s)" by blast
  with after.hyps(2) show ?case
    by (intro exI [of _ "evs @ [ev]"]) (auto simp: run_events_append)
qed

lemma run_reachable: "run_events E evs s = Some (Live s') \<Longrightarrow> reachable E s0 s \<Longrightarrow> reachable E s0 s'"
proof (induction evs arbitrary: s)
  case Nil
  then show ?case by simp
next
  case (Cons ev evs)
  then obtain t where t: "enabled ev s" "handle E ev s = Live t" "run_events E evs t = Some (Live s')"
    by (auto split: if_splits outcome.splits)
  then have "reachable E s0 t" using Cons.prems(2) by (blast intro: after step)
  with Cons.IH t(3) show ?case by blast
qed

section \<open>The invariant\<close>

definition sys_ok :: "server \<Rightarrow> bool" where
  "sys_ok s \<longleftrightarrow> srv_ok s \<and> idle s"

lemma idle_view:
  assumes "idle s" and "con_view s' = con_view s"
  shows "idle s'"
  unfolding idle_def
proof
  fix c
  assume "c \<in> ran (conns s')"
  then obtain a where c: "conns s' a = Some c" by (auto simp: ran_def)
  obtain c0 where "conns s a = Some c0" "c\<lparr>c_out := []\<rparr> = c0\<lparr>c_out := []\<rparr>"
    by (rule con_view_Some [OF fun_cong [OF assms(2)] c])
  with assms(1) show "con_ok c"
    using con_ok_cong [where c' = c and c = c0 and x = "[]"] by (auto simp: idle_def ran_def)
qed

lemma front_view:
  assumes "front s' = front s"
  shows "con_view s' = con_view s"
  using front_eqD(11) [OF assms] by (auto simp: con_view_def)

lemma sys_ok_front:
  assumes "idle s" and "srv_ok s'" and "front s' = front s"
  shows "sys_ok s'"
  using assms(2) idle_view [OF assms(1) front_view [OF assms(3)]] by (simp add: sys_ok_def)

lemma sys_ok_full:
  assumes "sys_ok s" and "full s' = full s"
  shows "sys_ok s'"
  using sys_ok_front [of s s'] srv_ok_full [OF assms(2)] front_core [OF full_core [OF assms(2)]] assms(1)
  by (simp add: sys_ok_def)

lemma sup_front:
  assumes "sup_inv s" and "acts_grow s s'" and "cfgs s' = cfgs s" and "srv_inv s'"
  shows "srv_ok s'"
  using sup_inv_same [OF assms(1-3)] assms(4) by (simp add: srv_ok_def)

text \<open>The parts of the invariant that a field does not occur in.\<close>

lemma other_parts:
  "registry_ok (s\<lparr>now := t\<rparr>) = registry_ok s" "sizes_ok (s\<lparr>now := t\<rparr>) = sizes_ok s"
  "kids_ok (s\<lparr>now := t\<rparr>) = kids_ok s" "addrs_ok (s\<lparr>now := t\<rparr>) = addrs_ok s"
  "conns_ok (s\<lparr>now := t\<rparr>) = conns_ok s"
  "registry_ok (s\<lparr>zombies := zs\<rparr>) = registry_ok s" "sizes_ok (s\<lparr>zombies := zs\<rparr>) = sizes_ok s"
  "addrs_ok (s\<lparr>zombies := zs\<rparr>) = addrs_ok s" "conns_ok (s\<lparr>zombies := zs\<rparr>) = conns_ok s"
  "registry_ok (s\<lparr>next_addr := n, conns := cs, client_con_list := l\<rparr>) = registry_ok s"
  "sizes_ok (s\<lparr>next_addr := n, conns := cs, client_con_list := l\<rparr>) = sizes_ok s"
  "kids_ok (s\<lparr>next_addr := n, conns := cs, client_con_list := l\<rparr>) = kids_ok s"
  by (simp_all add: registry_ok_def sizes_ok_def kids_ok_def addrs_ok_def conns_ok_def subs_live_def
      conn_live_def)

lemma other_acts:
  "acts (s\<lparr>now := t\<rparr>) = acts s" "acts (s\<lparr>zombies := zs\<rparr>) = acts s"
  "acts (s\<lparr>next_addr := n, conns := cs, client_con_list := l\<rparr>) = acts s"
  by (simp_all add: acts_def)

lemma sys_ok_parts: "sys_ok s \<longleftrightarrow> srv_inv s \<and> sup_inv s \<and> idle s"
  by (auto simp: sys_ok_def srv_ok_def)

lemma inv_new_con:
  assumes s: "srv_ok s" and i: "idle s" and c: "con_ok c"
  shows "sys_ok (s\<lparr>next_addr := Suc (next_addr s), conns := (conns s)(next_addr s \<mapsto> c),
    client_con_list := next_addr s # client_con_list s\<rparr>)" (is "sys_ok ?s")
proof -
  have inv: "srv_inv s" by (rule srv_okD [OF s])
  have f: "conns s (next_addr s) = None" by (rule next_addr_fresh(3) [OF inv])
  have c0: "conns_ok s" "addrs_ok s" using inv by (simp_all add: srv_inv_def)
  then have "next_addr s \<notin> set (client_con_list s)" using f by (auto simp: conns_ok_def)
  then have "conns_ok ?s" using c0(1) by (auto simp: conns_ok_def subs_live_def conn_live_def)
  moreover have "addrs_ok ?s" using c0(2) by (auto simp: addrs_ok_def less_Suc_eq)
  ultimately have "srv_inv ?s" using inv by (simp add: srv_inv_def other_parts)
  moreover have "sup_inv ?s"
    by (rule sup_inv_same [OF srv_okD(2) [OF s]]) (simp_all add: acts_grow_def other_acts)
  moreover have "idle ?s" using i c by (auto simp: idle_def ran_def split: if_splits)
  ultimately show ?thesis by (simp add: sys_ok_parts)
qed

lemma slog_sys:
  assumes "sys_ok s" and "\<And>s'. full s' = full s \<Longrightarrow> Q s'"
  shows "post (slog E m s) Q (cb_dead E)"
  by (rule post_mono [OF slog_full [OF _ assms(2)]]) (use assms(1) in \<open>simp_all add: sys_ok_def srv_ok_def cb_dead_def\<close>)

lemma sys_ok_ticked [simp]: "sys_ok (ticked s) = sys_ok s"
  by (simp add: sys_ok_def idle_def)

lemma sys_ok_close: "sys_ok s \<Longrightarrow> sys_ok (emit (EvClose fd) s)"
  by (rule sys_ok_front [of s], simp add: sys_ok_parts, rule sup_front [of s])
    (simp_all add: sys_ok_parts)

lemma accept_cb_post:
  assumes s: "sys_ok s"
  shows "post (accept_cb E evread s) sys_ok (cb_dead E)"
proof -
  have log: "post (slog E m t) sys_ok (cb_dead E)" if "sys_ok t" for m t
    by (rule slog_sys [OF that]) (use sys_ok_full that in blast)
  have shut: "post (bindO (slog E m t) (\<lambda>s. Live (emit (EvClose fd) s))) sys_ok (cb_dead E)"
    if "sys_ok t" for m t fd
    unfolding post_bind post.simps by (rule slog_sys [OF that]) (use sys_ok_close sys_ok_full that in blast)
  let ?t = "ticked (ticked (ticked s))"
  have "sys_ok (?t\<lparr>next_addr := Suc (next_addr ?t), conns := (conns ?t)(next_addr ?t \<mapsto> c),
    client_con_list := next_addr ?t # client_con_list ?t\<rparr>)" if "con_ok c" for c
    by (rule inv_new_con) (use s that in \<open>simp_all add: sys_ok_def idle_def\<close>)
  then show ?thesis
    using s log shut by (simp add: accept_cb_def Let_def con_ok_def)
qed

lemma sighup_cb_post:
  assumes s: "sys_ok s"
  shows "post (sighup_cb E s) sys_ok (cb_dead E)"
proof -
  have log: "post (slog E m t) sys_ok (cb_dead E)" if "sys_ok t" for m t
    by (rule slog_sys [OF that]) (use sys_ok_full that in blast)
  show ?thesis
    unfolding sighup_cb_def post_bind
    by (rule slog_sys [OF s])
      (use log sys_ok_full [OF s] in \<open>simp add: open_server_log_def split: if_splits\<close>)
qed

section \<open>Every event keeps the invariant\<close>

lemma timer_reset:
  assumes "sys_ok s" and "procs s p = Some pr"
  shows "sys_ok (set_proc p (pr\<lparr>p_heartbeat_timer := b\<rparr>) s)"
proof (rule sys_ok_front)
  have "srv_inv (set_proc p (pr\<lparr>p_heartbeat_timer := b\<rparr>) s)"
    by (rule inv_set_proc [where pr = pr]) (use assms in \<open>simp_all add: sys_ok_def srv_ok_def\<close>)
  then show "srv_ok (set_proc p (pr\<lparr>p_heartbeat_timer := b\<rparr>) s)"
    using assms(1) by (intro sup_front [of s]) (simp_all add: sys_ok_def srv_ok_def)
qed (use assms(1) in \<open>simp_all add: sys_ok_def\<close>)

lemma heartbeat_sys:
  assumes E: "fork_fresh E" and s: "sys_ok s" and p: "procs s p = Some pr"
  shows "post (heartbeat_cb E p s) sys_ok (cb_dead E)"
proof (rule post_mono [OF heartbeat_cb_post [OF E _ p]])
  show "srv_inv s" using s by (simp add: sys_ok_def srv_ok_def)
  fix s'
  assume h: "srv_inv s' \<and> front s' = front s \<and> heartbeat_effect s p pr s'"
  then have "acts_grow s s'" by (auto simp: heartbeat_effect_def acts_grow_def)
  with h s have "srv_ok s'"
    by (intro sup_front [of s]) (simp_all add: sys_ok_def srv_ok_def heartbeat_effect_def)
  with h s show "sys_ok s'" by (intro sys_ok_front [of s]) (simp_all add: sys_ok_def)
qed (simp add: cb_dead_def)

lemma sigchld_sys:
  assumes E: "fork_fresh E" and s: "sys_ok s"
  shows "post (sigchld_cb E s) sys_ok (cb_dead E)"
proof (rule post_mono [OF sigchld_cb_post [OF E]])
  show "srv_ok s" using s by (simp add: sys_ok_def)
  fix s'
  assume r: "srv_ok s' \<and> reap_chain E s s'"
  then obtain zs where "front s' = front (s\<lparr>zombies := zs\<rparr>)" using reap_chain_front by blast
  then have "con_view s' = con_view (s\<lparr>zombies := zs\<rparr>)" by (rule front_view)
  then have "con_view s' = con_view s" by (simp add: con_view_def fun_eq_iff)
  with r s show "sys_ok s'" using idle_view [of s s'] by (simp add: sys_ok_def)
qed (simp add: cb_dead_def)

lemma zombies_sys:
  assumes s: "sys_ok s" and k: "pid \<in> set (kids s)" "pid \<notin> fst ` set (zombies s)"
  shows "sys_ok (s\<lparr>zombies := zombies s @ [(pid, ret)]\<rparr>)" (is "sys_ok ?s")
proof -
  have inv: "srv_inv s" and sup: "sup_inv s" using s by (simp_all add: sys_ok_parts)
  then have "kids_ok ?s" using k by (auto simp: srv_inv_def kids_ok_def)
  with inv have "srv_inv ?s" by (simp add: srv_inv_def other_parts)
  moreover have "sup_inv ?s" by (rule sup_inv_same [OF sup]) (simp_all add: acts_grow_def other_acts)
  ultimately show ?thesis using s by (simp add: sys_ok_parts idle_def)
qed

lemma clock_sys:
  assumes s: "sys_ok s"
  shows "sys_ok (s\<lparr>now := t\<rparr>)" (is "sys_ok ?s")
proof -
  have inv: "srv_inv s" and sup: "sup_inv s" using s by (simp_all add: sys_ok_parts)
  then have "srv_inv ?s" by (simp add: srv_inv_def other_parts)
  moreover have "sup_inv ?s" by (rule sup_inv_same [OF sup]) (simp_all add: acts_grow_def other_acts)
  ultimately show ?thesis using s by (simp add: sys_ok_parts idle_def)
qed

lemma set_con_sys:
  assumes "sys_ok s" and "conns s con = Some c" and "con_ok c'"
  shows "sys_ok (set_con con c' s)"
  using assms srv_ok_set_con [of s con c'] by (auto simp: sys_ok_def idle_def ran_def)

lemma hangup_sys:
  assumes "sys_ok s" and "conns s con = Some c"
  shows "sys_ok (dropped con c s)"
  using assms srv_ok_dropped [of s con c] by (auto simp: sys_ok_def idle_def ran_def)

section \<open>All events\<close>

theorem handle_post:
  assumes E: "fork_fresh E" and s: "sys_ok s" and en: "enabled ev s"
  shows "post (handle E ev s) sys_ok (cb_dead E)"
proof (cases ev)
  case (Accept r)
  then show ?thesis using accept_cb_post [OF s] by simp
next
  case (Arrive con bs)
  then obtain c where c: "conns s con = Some c" using en by auto
  then have "con_ok (c\<lparr>c_in := c_in c @ bs\<rparr>)" using s by (auto simp: sys_ok_def idle_def ran_def con_ok_def)
  with Arrive c set_con_sys [OF s c] show ?thesis by (simp add: deref_def)
next
  case (Readable con)
  then have "conn_live con s" using en by (auto simp: conn_live_def split: option.splits)
  with read_cb_post [OF E, of s con] s Readable show ?thesis by (simp add: sys_ok_def [abs_def])
next
  case (Hangup con)
  then obtain c where c: "conns s con = Some c" using en by auto
  with Hangup hangup_sys [OF s c] show ?thesis by (simp add: error_cb_def drop_eval)
next
  case (Flushed con)
  then obtain c where c: "conns s con = Some c" using en by auto
  then have "con_ok c" using s by (auto simp: sys_ok_def idle_def ran_def)
  with Flushed c set_con_sys [OF s c] show ?thesis by (simp add: deref_def)
next
  case (Exits pid ret)
  then show ?thesis using zombies_sys [OF s] en by simp
next
  case Sigchld
  then show ?thesis using sigchld_sys [OF E s] by simp
next
  case Sighup
  then show ?thesis using sighup_cb_post [OF s] by simp
next
  case (Timer p)
  then obtain pr where p: "procs s p = Some pr" using en by (auto split: option.splits)
  then have "post (heartbeat_cb E p (set_proc p (pr\<lparr>p_heartbeat_timer := False\<rparr>) s)) sys_ok (cb_dead E)"
    by (intro heartbeat_sys [OF E timer_reset [OF s p]]) simp
  with Timer p show ?thesis by (simp add: deref_def)
next
  case (PipeData p bs)
  have "srv_inv s" using s by (simp add: sys_ok_def srv_ok_def)
  from post_mono [OF child_read_cb_post [OF this], of sys_ok "cb_dead E"] sys_ok_full [OF s]
  show ?thesis using PipeData by (simp add: cb_dead_def)
next
  case (PipeError p)
  then obtain pr where p: "procs s p = Some pr" using en by (auto split: option.splits)
  have i: "srv_inv s" using s by (simp add: sys_ok_def srv_ok_def)
  have "post (child_error_cb p s) sys_ok (cb_dead E)"
    by (rule post_mono [OF child_error_cb_post [OF i p]])
      (use s sup_front [of s] sys_ok_front [of s] in \<open>auto simp: sys_ok_def srv_ok_def\<close>)
  with PipeError show ?thesis by simp
next
  case (Clock t)
  then show ?thesis using clock_sys [OF s] by simp
qed

lemma step_ok: "fork_fresh E \<Longrightarrow> sys_ok s \<Longrightarrow> step E s ev s' \<Longrightarrow> sys_ok s'"
  using handle_post [of E s ev] by auto

lemma reachable_ok:
  assumes "reachable E s0 s" and "fork_fresh E" and "sys_ok s0"
  shows "sys_ok s"
  using assms(1)
proof (induction rule: reachable.induct)
  case start
  show ?case by (rule assms(3))
next
  case (after s ev s')
  from step_ok [OF assms(2) after.IH after.hyps(2)] show ?case .
qed

section \<open>The start of the server\<close>

definition dump_bad :: "env \<Rightarrow> bool" where
  "dump_bad E \<longleftrightarrow> (\<exists>buf obj t. tokener_parse E buf = Some obj \<and>
     t \<in> set (json_object_array_elems obj) \<and> group_bad t)"

definition begin_dead :: "env \<Rightarrow> halt \<Rightarrow> server \<Rightarrow> bool" where
  "begin_dead E h t \<longleftrightarrow> dead_ok h t \<or> h = Undefined \<and> dump_bad E"

lemma begin_dead_simps [simp]: "begin_dead E Aborted t" "begin_dead E (Exited n) t"
  "\<not> begin_dead E Hang t"
  by (simp_all add: begin_dead_def)

lemma sys_ok_peers: "sys_ok s \<Longrightarrow> srv_ok s' \<Longrightarrow> peers s' = peers s \<Longrightarrow> sys_ok s'"
  using idle_view [of s s'] peers_view [of s' s] by (simp add: sys_ok_def)

lemma load_dump_sys:
  assumes "fork_fresh E" and s: "sys_ok s"
  shows "post (load_dump E fname s) (\<lambda>(ok, s'). sys_ok s') (begin_dead E)"
proof (rule post_mono [OF load_dump_post [OF assms(1)]])
  show "srv_ok s" using s by (simp add: sys_ok_def)
  show "case x of (ok, s') \<Rightarrow> sys_ok s'"
    if "case x of (ok, s') \<Rightarrow> srv_ok s' \<and> peers s' = peers s" for x
    using that sys_ok_peers [OF s] by auto
qed (auto simp: begin_dead_def dump_bad_def)

lemma load_newest_sys:
  assumes "fork_fresh E" and "sys_ok s"
  shows "post (load_newest_dump E d dh s) sys_ok (begin_dead E)"
proof -
  have "post (bindO (load_dump E f s) (\<lambda>(ok, s). Live s)) sys_ok (begin_dead E)" for f
    unfolding post_bind by (rule post_mono [OF load_dump_sys [OF assms]]) auto
  then show ?thesis using assms(2) by (simp add: load_newest_dump_def Let_def split: option.split)
qed

lemma init_sys: "sys_ok (server_init opts init_server)"
proof -
  have "srv_inv (server_init opts init_server) = srv_inv init_server"
    by (simp add: srv_inv_def registry_ok_def sizes_ok_def kids_ok_def addrs_ok_def conns_ok_def
        server_init_def subs_live_def conn_live_def)
  moreover have "sup_inv (server_init opts init_server)" "idle (server_init opts init_server)"
    by (simp_all add: sup_inv_def idle_def server_init_def init_server_def)
  ultimately show ?thesis using inv_init by (simp add: sys_ok_parts)
qed

lemma server_begin_sys:
  assumes E: "fork_fresh E" and s: "sys_ok s"
  shows "post (server_begin E opts st dh s) sys_ok (begin_dead E)"
proof -
  have log: "post (slog E m t) sys_ok (begin_dead E)" if t: "sys_ok t" for m t
    by (rule post_mono [OF slog_full [where s = t and Q = sys_ok]])
      (use t sys_ok_full [OF t] in \<open>simp_all add: sys_ok_def srv_ok_def\<close>)
  have newest: "post (if b then load_newest_dump E d dh t else Live t)
      (\<lambda>s. post (slog E m s) sys_ok (begin_dead E)) (begin_dead E)" if t: "sys_ok t" for b d m t
    using t log post_mono [OF load_newest_sys [OF E t]] by simp
  have dump: "post (bindO (load_dump E f s) (\<lambda>(ok, s). if \<not> ok then Dead (Exited 1) s else Live s))
      sys_ok (begin_dead E)" for f
    unfolding post_bind by (rule post_mono [OF load_dump_sys [OF E s]]) auto
  show ?thesis
    unfolding server_begin_def post_bind
    by (rule post_mono [where Q = sys_ok]) (use s dump newest in \<open>auto split: option.split\<close>)
qed

end
