(* ===== verification/Queries.thy ===== *)
theory Queries
  imports Reply System
begin

text \<open>
  What the commands tell the client and change in the server, as properties of each: the
  bytes that are queued for the connection are those of a message (\<open>message_bytes\<close>) from
  which the client reads the JSON text back.
\<close>

section \<open>Answers\<close>

definition writes_ok :: "env \<Rightarrow> bool" where
  "writes_ok E \<longleftrightarrow> (\<forall>k. bufferevent_write_ok E k)"

definition answered :: "env \<Rightarrow> addr \<Rightarrow> json \<Rightarrow> server \<Rightarrow> server \<Rightarrow> bool" where
  "answered E con obj s s' \<longleftrightarrow>
     (\<exists>c. conns s con = Some c \<and> queued con (message_bytes (c_cid c) (to_json_string E obj)) s s')"

definition status_json :: "bool \<Rightarrow> string \<Rightarrow> json" where
  "status_json code msg = JObject [(''code'', JBool code), (''msg'', JString msg)]"

lemma answer_queues:
  assumes "writes_ok E" and "conn_live con s"
  shows "\<exists>s'. answer E con obj s = Live (True, s') \<and> answered E con obj s s'"
proof -
  obtain c where c: "conns s con = Some c" using assms(2) by (auto simp: conn_live_def)
  obtain s' where "send_message E con (to_json_string E obj) s = Live (True, s')"
    "queued con (message_bytes (c_cid c) (to_json_string E obj)) s s'"
    using send_message_queues [of E, OF _ c] assms(1) by (auto simp: writes_ok_def)
  with c show ?thesis by (auto simp: answer_def answered_def)
qed

lemma reply_queues:
  assumes "writes_ok E" and "conn_live con s"
  shows "\<exists>s'. reply E con code msg cr s = Live (cr, s') \<and> answered E con (status_json code msg) s s'"
proof -
  obtain c where c: "conns s con = Some c" using assms(2) by (auto simp: conn_live_def)
  obtain s' where "send_message E con (to_json_string E (status_json code msg)) s = Live (True, s')"
    "queued con (message_bytes (c_cid c) (to_json_string E (status_json code msg))) s s'"
    using send_message_queues [of E, OF _ c] assms(1) by (auto simp: writes_ok_def)
  with c show ?thesis by (auto simp: reply_def send_status_msg_def answered_def status_json_def)
qed

text \<open>The requests that name a group.\<close>

definition names_group :: "env \<Rightarrow> string \<Rightarrow> server \<Rightarrow> addr \<Rightarrow> child_config \<Rightarrow> bool" where
  "names_group E buf s a cc \<longleftrightarrow>
     (\<exists>obj n. tokener_parse E buf = Some obj \<and> json_object_is_type obj json_type_object \<and>
        json_object_object_get obj ''name'' = Some (JString n) \<and>
        child_config_find_by_name (cstr n) s = Some a \<and> cfgs s a = Some cc)"

section \<open>Properties\<close>

text \<open>
  \<open>LIST\<close> answers with the names of all groups, newest first, and changes nothing.
\<close>

theorem list_answers_names:
  assumes "srv_ok s" and "writes_ok E" and "conn_live con s"
  shows "\<exists>s'. c_list E con buf s = Live (True, s') \<and>
    answered E con (JArray (map (\<lambda>a. JString (the (cc_name (the (cfgs s a))))) (child_config_list s))) s s'"
  unfolding c_list_eval [OF srv_okD(1) [OF assms(1)]] by (rule answer_queues [OF assms(2,3)])

lemma demo_writes: "writes_ok demo_env"
  by (simp add: writes_ok_def demo_env_def)

lemma list_answers_names_witness:
  "\<exists>s'. c_list demo_env 0 [] (demo_server []) = Live (True, s') \<and>
     answered demo_env 0 (JArray [JString ''web'']) (demo_server []) s'"
  using list_answers_names [OF demo_ok demo_writes demo_conn, of "[]" "[]"] by (simp add: demo_zombies_def)

text \<open>
  \<open>GETC\<close> answers with the configuration of the group that is named, and changes nothing.
\<close>

theorem get_answers_config:
  assumes "writes_ok E" and "conn_live con s" and "names_group E buf s a cc"
  shows "\<exists>s'. c_getc E con buf s = Live (True, s') \<and> answered E con (child_config_json cc) s s'"
proof -
  from assms(3) have "c_getc E con buf s = answer E con (child_config_json cc) s"
    by (auto simp: names_group_def c_getc_def with_object_def with_name_def deref_def json_object_is_type_def)
  then show ?thesis using answer_queues [OF assms(1,2)] by simp
qed

lemma demo_names: "names_group demo_env req_web (demo_server zs) 1 demo_cc"
  by (simp add: names_group_def demo_env_def demo_parse_def json_object_is_type_def demo_find cstr_def)

lemma get_answers_config_witness:
  "\<exists>s'. c_getc demo_env 0 req_web (demo_server []) = Live (True, s') \<and>
     answered demo_env 0 (child_config_json demo_cc) (demo_server []) s'"
  by (rule get_answers_config [OF demo_writes demo_conn demo_names])

text \<open>
  \<open>PIDS\<close> answers with the pids of the processes of the group that is named, in the order
  of their slots, and changes nothing.
\<close>

theorem pids_answers_pids:
  assumes "srv_ok s" and "writes_ok E" and "conn_live con s" and "names_group E buf s a cc"
    and "Uninit \<notin> set (cc_childs cc)"
  shows "\<exists>s'. c_pids E con buf s = Live (True, s') \<and>
    answered E con (pids_json (group_pids s cc [0 ..< nat (cc_instances cc)])) s s'"
proof -
  from assms(4) obtain obj n where "tokener_parse E buf = Some obj" "json_object_is_type obj json_type_object"
      "json_object_object_get obj ''name'' = Some (JString n)"
      "child_config_find_by_name (cstr n) s = Some a" "cfgs s a = Some cc"
    by (auto simp: names_group_def)
  from c_pids_group [OF assms(1,3) this(1-3) _ _ this(5) assms(5)] this(4)
  have "c_pids E con buf s = answer E con (pids_json (group_pids s cc [0 ..< nat (cc_instances cc)])) s"
    by (simp add: json_object_is_type_def)
  then show ?thesis using answer_queues [OF assms(2,3)] by simp
qed

lemma demo_pids: "group_pids (demo_server zs) demo_cc [0 ..< 2] = [101, 102]"
  by (simp add: group_pids_def slot_ptrs_def map_filter_simps pid_of_def demo_proc_def upt_conv_Cons)

lemma pids_answers_pids_witness:
  "\<exists>s'. c_pids demo_env 0 req_web (demo_server []) = Live (True, s') \<and>
     answered demo_env 0 (pids_json [101, 102]) (demo_server []) s'"
  using pids_answers_pids [OF demo_ok demo_writes demo_conn demo_names, of "[]"] demo_pids [of "[]"]
  by (simp add: demo_zombies_def)

text \<open>
  C14. \<open>DELE\<close> takes the group that is named out of the registry and leaves its processes
  running: they keep their pids and their entries in the pid table, but belong to no group
  any more; the other groups and processes stay as they are.
\<close>

theorem delete_detaches:
  assumes "srv_ok s" and "conn_live con s" and "names_group E buf s a cc"
  shows "post (c_dele E con buf s)
    (\<lambda>(cr, s'). cr \<and> srv_ok s' \<and> child_config_list s' = remove1 a (child_config_list s) \<and>
       cfgs s' = (cfgs s)(a := None) \<and> acts s' = acts s \<and>
       procs s' = (\<lambda>p. map_option (\<lambda>pr. if p \<in> group_procs cc then pr\<lparr>p_child_config := None\<rparr> else pr)
         (procs s p))) dead_ok"
    (is "post _ ?Q _")
proof -
  from assms(3) obtain obj n where obj: "tokener_parse E buf = Some obj"
      "json_object_is_type obj json_type_object"
      "json_object_object_get obj ''name'' = Some (JString n)"
      "child_config_find_by_name (cstr n) s = Some a" and a: "cfgs s a = Some cc"
    by (auto simp: names_group_def)
  have d: "detach (group_procs cc) (procs s) =
      (\<lambda>p. map_option (\<lambda>pr. if p \<in> group_procs cc then pr\<lparr>p_child_config := None\<rparr> else pr) (procs s p))"
    by (auto simp: detach_def fun_eq_iff option.map_ident)
  have "post (answer E con o' s') ?Q dead_ok" if f: "full s' = full (deleted a cc s)" for o' s'
  proof -
    have ok: "srv_ok s'" using srv_ok_full [OF f] srv_ok_deleted [OF assms(1) a] by simp
    have live: "conn_live con s'"
      using conn_live_full [OF f] assms(2) by (simp add: deleted_def conn_live_def)
    show ?thesis
      unfolding answer_def post_bind
    proof (rule aborted_dead [OF send_message_full [OF srv_okD(1) [OF ok] live]])
      fix okb t
      assume "full t = full s'"
      then have f': "full t = full (deleted a cc s)" using f by simp
      show "post (case (okb, t) of (ok, s) \<Rightarrow> Live (True, s)) ?Q dead_ok"
        using srv_ok_full [OF f'] srv_ok_deleted [OF assms(1) a] core_eqD(1,2,4) [OF full_core [OF f']]
          full_acts [OF f'] d
        by (simp add: deleted_def acts_def [of "s\<lparr>child_config_list := _, child_config_hash := _, procs := _, cfgs := _\<rparr>"] acts_def [of s])
    qed
  qed
  from c_dele_group [OF assms(1) a this] obj
  show ?thesis by (simp add: c_dele_def with_object_def with_name_def json_object_is_type_def)
qed

lemma delete_detaches_witness:
  "post (c_dele demo_env 0 req_web (demo_server []))
     (\<lambda>(cr, s'). cr \<and> child_config_list s' = [] \<and> cfgs s' 1 = None \<and>
        p_child_config (the (procs s' 3)) = None \<and> p_pid (the (procs s' 3)) = 102) dead_ok"
  by (rule post_mono [OF delete_detaches [OF demo_ok demo_conn demo_names]])
    (auto simp: demo_zombies_def group_procs_def demo_proc_def)

text \<open>
  \<open>SUBS\<close> adds a subscription of this connection, with the events and the command id of
  the request, before the older ones, and confirms.
\<close>

theorem subscribe_adds:
  assumes "writes_ok E" and "conns s con = Some c"
    and "tokener_parse E buf = Some (JObject fs)" and "json_object_object_get (JObject fs) ''ident'' = Some (JInt i)"
  shows "\<exists>s'. c_subs E con buf s = Live (True, s') \<and>
    subscription_list s' =
      \<lparr>s_client = con, s_ident = word_of_int (json_object_get_int (JInt i)), s_cid = c_cid c\<rparr> # subscription_list s \<and>
    answered E con (status_json True ''success'') s (s'\<lparr>subscription_list := subscription_list s\<rparr>)"
proof -
  define u where
    "u = \<lparr>s_client = con, s_ident = word_of_int (json_object_get_int (JInt i)), s_cid = c_cid c\<rparr>"
  let ?t = "subscription_insert u s"
  have "conn_live con ?t" using assms(2) by (simp add: conn_live_def subscription_insert_def)
  then obtain s' where s': "reply E con True ''success'' True ?t = Live (True, s')"
    "answered E con (status_json True ''success'') ?t s'"
    using reply_queues [OF assms(1)] by blast
  from s'(2) obtain bs where q: "s' = ?t\<lparr>tick := tick s',
      conns := (conns s)(con \<mapsto> c\<lparr>c_out := c_out c @ message_bytes (c_cid c) bs\<rparr>)\<rparr>"
      "bs = to_json_string E (status_json True ''success'')"
    using assms(2) by (auto simp: answered_def queued_def subscription_insert_def)
  have "subscription_list s' = u # subscription_list s" by (subst q(1)) (simp add: subscription_insert_def)
  moreover have "s'\<lparr>subscription_list := subscription_list s\<rparr> = s\<lparr>tick := tick s',
      conns := (conns s)(con \<mapsto> c\<lparr>c_out := c_out c @ message_bytes (c_cid c) bs\<rparr>)\<rparr>"
    by (subst q(1)) (simp add: subscription_insert_def)
  then have "answered E con (status_json True ''success'') s (s'\<lparr>subscription_list := subscription_list s\<rparr>)"
    using assms(2) q(2) by (simp add: answered_def queued_def)
  moreover have "c_subs E con buf s = Live (True, s')"
    using assms(2-4) s'(1) by (simp add: c_subs_def with_object_def json_object_is_type_def deref_def
        Let_def u_def del: json_object_get_int.simps)
  ultimately show ?thesis unfolding u_def by blast
qed




lemma subscribe_adds_witness:
  "\<exists>s'. c_subs (demo_env\<lparr>tokener_parse := \<lambda>x. Some (JObject [(''ident'', JInt 5)])\<rparr>) 0 [] (demo_server [])
      = Live (True, s') \<and>
     subscription_list s' = [\<lparr>s_client = 0, s_ident = 5, s_cid = 0\<rparr>, \<lparr>s_client = 0, s_ident = 2, s_cid = 1\<rparr>]"
  using subscribe_adds [of "demo_env\<lparr>tokener_parse := \<lambda>x. Some (JObject [(''ident'', JInt 5)])\<rparr>"
      "demo_server []" 0 demo_con "[]" "[(''ident'', JInt 5)]" 5]
  by (force simp: writes_ok_def demo_env_def demo_con_def)

text \<open>
  \<open>EXIT\<close>: a server that may not exit answers that it is prohibited and goes on as it was;
  one that may never comes back from the command, it has exited (or aborted over a
  notification).
\<close>

theorem exit_obeys:
  assumes "srv_ok s" and "writes_ok E" and "conn_live con s"
  shows "if allow_exit s then (\<exists>h t. c_exit E con buf s = Dead h t \<and> dead_ok h t)
    else (\<exists>s'. c_exit E con buf s = Live (True, s') \<and>
      answered E con (status_json False ''prohibited'') s s')"
proof (cases "allow_exit s")
  case True
  with c_exit_ends [OF assms(1,3) True, of E buf "\<lambda>_. False"] show ?thesis
    by (cases "c_exit E con buf s") auto
next
  case False
  with reply_queues [OF assms(2,3), of False "''prohibited''" True] show ?thesis
    by (simp add: c_exit_def)
qed

lemma exit_obeys_witness:
  "\<exists>h t. c_exit demo_env 0 [] (demo_server []) = Dead h t \<and> dead_ok h t"
  using exit_obeys [OF demo_ok demo_writes demo_conn, of "[]" "[]"] by (simp add: demo_zombies_def)

end
