(* ===== verification/Dumps.thy ===== *)
theory Dumps
  imports Queries
begin

text \<open>
  The dump of a server and its restoration: the file \<open>c_dump\<close> leaves, and what
  \<open>load_dump\<close> makes of it in another server.
\<close>

section \<open>Writing\<close>

lemma answered_files:
  assumes "answered E con obj s s'"
  shows "files s' = files s"
proof -
  from assms obtain cs where "s' = s\<lparr>tick := tick s', conns := cs\<rparr>"
    by (auto simp: answered_def queued_def)
  then have "files s' = files (s\<lparr>tick := tick s', conns := cs\<rparr>)" by (rule arg_cong)
  then show ?thesis by simp
qed

lemma dump_groups_plain:
  assumes f: "\<And>k. os_fprintf E k"
  shows "set as \<subseteq> dom (cfgs t) \<Longrightarrow>
    \<exists>k. dump_groups E as fo t = Live (True, fo @ dump_lines E t as, t\<lparr>tick := k\<rparr>)"
proof (induction as arbitrary: fo t)
  case Nil
  show ?case by (rule exI [of _ "tick t"]) (simp add: dump_lines_def)
next
  case (Cons a as)
  then obtain cc where a: "cfgs t a = Some cc" by auto
  let ?ptr = "child_config_serialize (to_json_string E) cc @ '','' @ [newline]"
  obtain k where k: "dump_groups E as (fo @ ?ptr) (ticked t) =
      Live (True, (fo @ ?ptr) @ dump_lines E (ticked t) as, (ticked t)\<lparr>tick := k\<rparr>)"
    using Cons.IH [of "ticked t" "fo @ ?ptr"] Cons.prems by auto
  have "dump_lines E (ticked t) as = dump_lines E t as" "(ticked t)\<lparr>tick := k\<rparr> = t\<lparr>tick := k\<rparr>"
    by (simp_all add: dump_lines_def ticked_def)
  moreover have "dump_lines E t (a # as) = ?ptr @ dump_lines E t as" using a by (simp add: dump_lines_def)
  moreover have "dump_groups E (a # as) fo t = dump_groups E as (fo @ ?ptr) (ticked t)"
    using a f by (simp add: deref_def fprintf_def Let_def)
  ultimately show ?case using k by auto
qed

lemma c_dump_writes:
  assumes s: "srv_ok s" and con: "conn_live con s" and w: "writes_ok E"
    and calls: "\<And>k. os_fprintf E k" "\<And>k. os_open E k" "\<And>k. os_link E k"
    and name: "length (dump_name E s) + 4 < PATH_MAX" "files s (dump_name E s) = None"
  shows "\<exists>s' n t. c_dump E con buf s = Live (True, s') \<and>
    files s' = (files s)(dump_name E s \<mapsto> dump_text E s, ''tmp.'' @ dump_name E s := None) \<and>
    answered E con (status_json True ''dump successful.'')
      (s\<lparr>dump_cnt := n, tick := t, files := files s'\<rparr>) s'"
proof -
  let ?s0 = "s\<lparr>dump_cnt := to_int (dump_cnt s + 1)\<rparr>"
  let ?f = "dump_name E s" and ?tmp = "''tmp.'' @ dump_name E s"
  have plain: "fprintf E fo str t = (True, fo @ str, ticked t)" for fo str t
    using calls(1) by (simp add: fprintf_def)
  let ?t1 = "ticked (ticked ?s0)"
  have "set (child_config_list ?t1) \<subseteq> dom (cfgs ?t1)" using registry_dom [OF srv_okD(1) [OF s]] by simp
  from dump_groups_plain [OF calls(1) this, of "''['' @ [newline]"]
  obtain k where g: "dump_groups E (child_config_list s) (''['' @ [newline]) ?t1 =
      Live (True, (''['' @ [newline]) @ dump_lines E ?t1 (child_config_list s), ?t1\<lparr>tick := k\<rparr>)"
    by auto
  let ?t2 = "(ticked (ticked (?t1\<lparr>tick := k\<rparr>)))\<lparr>files :=
     ((files s)(?tmp \<mapsto> dump_text E s))(?f \<mapsto> dump_text E s, ?tmp := None)\<rparr>"
  have fs: "((files s)(?tmp \<mapsto> dump_text E s))(?f \<mapsto> dump_text E s, ?tmp := None) =
      (files s)(?f \<mapsto> dump_text E s, ?tmp := None)" by auto
  have run: "c_dump E con buf s = reply E con True ''dump successful.'' True ?t2"
    using name calls(2,3) g
    by (simp add: c_dump_def Let_def plain dump_finish_def dump_text_def dump_lines_def ticked_def)
  have "conn_live con ?t2" using con by (simp add: conn_live_def)
  then obtain s' where s': "reply E con True ''dump successful.'' True ?t2 = Live (True, s')"
    "answered E con (status_json True ''dump successful.'') ?t2 s'"
    using reply_queues [OF w] by blast
  have "files s' = files ?t2" by (rule answered_files [OF s'(2)])
  then have "files s' = (files s)(?f \<mapsto> dump_text E s, ?tmp := None)" using fs by simp
  moreover have "?t2 = s\<lparr>dump_cnt := to_int (dump_cnt s + 1), tick := tick ?t2, files := files s'\<rparr>"
    using \<open>files s' = files ?t2\<close> by (simp add: ticked_def)
  ultimately show ?thesis using run s' by metis
qed

section \<open>Loading\<close>







section \<open>Properties\<close>

definition dumped :: "server \<Rightarrow> child_config list" where
  "dumped s = map (\<lambda>a. the (cfgs s a)) (child_config_list s)"

text \<open>
  C17. A dump when every system call succeeds and the name is free: the client is told so,
  the file under the name has the text of all groups, the temporary file is gone, and no
  other file has changed.
\<close>

theorem dump_writes_all_groups:
  assumes "srv_ok s" and "conn_live con s" and "writes_ok E"
    and "\<And>k. os_fprintf E k" and "\<And>k. os_open E k" and "\<And>k. os_link E k"
    and "length (dump_name E s) + 4 < PATH_MAX" and "files s (dump_name E s) = None"
  shows "\<exists>s' n t. c_dump E con buf s = Live (True, s') \<and>
    files s' = (files s)(dump_name E s \<mapsto>
       ''['' @ [newline] @ concat (map (\<lambda>cc. child_config_serialize (to_json_string E) cc @ '','' @ [newline]) (dumped s)) @
       '']'' @ [newline], ''tmp.'' @ dump_name E s := None) \<and>
    answered E con (status_json True ''dump successful.'')
      (s\<lparr>dump_cnt := n, tick := t, files := files s'\<rparr>) s'"
  using c_dump_writes [OF assms] by (simp add: dump_text_def dump_lines_def dumped_def comp_def)

lemma demo_dump_name: "dump_name demo_env (demo_server []) = ''uberdump_1_1000_0101''"
  by (simp add: dump_name_def DUMP_PATH_def demo_env_def demo_server_def init_server_def to_int_def
      show_int_def show_nat.simps snprintf_buf_def char_of_def bit_0)

lemma dump_writes_all_groups_witness:
  "\<exists>s'. c_dump demo_env 0 [] (demo_server []) = Live (True, s') \<and>
     files s' ''uberdump_1_1000_0101'' = Some (''['' @ [newline] @ ''{},'' @ [newline] @ '']'' @ [newline])"
proof -
  have n: "length (dump_name demo_env (demo_server [])) + 4 < PATH_MAX"
    "files (demo_server []) (dump_name demo_env (demo_server [])) = None"
    unfolding demo_dump_name by (simp_all add: demo_server_def init_server_def)
  have "os_fprintf demo_env k" "os_open demo_env k" "os_link demo_env k" for k by (simp_all add: demo_env_def)
  from dump_writes_all_groups [OF demo_ok demo_conn demo_writes this n, of "[]"]
  show ?thesis
    unfolding demo_dump_name
    by (auto simp: demo_zombies_def dumped_def child_config_serialize_def demo_env_def)
qed



end
