(* ===== verification/Endtoend.thy ===== *)
theory Endtoend
  imports Tools Dumps
begin

text \<open>
  The commands of the user against the server: what \<open>getopt\<close> makes of an argument list, the
  request that reaches the server, and what the user is told.
\<close>

section \<open>Options\<close>

text \<open>Options with a value, as separate arguments.\<close>

definition pair_args :: "(char \<times> string) list \<Rightarrow> string list" where
  "pair_args ovs = concat (map (\<lambda>(c, v). [[CHR ''-'', c], v]) ovs)"

lemma getopt_pairs:
  "\<forall>(c, v) \<in> set ovs. short_option opts c = Some True \<and> c \<noteq> CHR ''-'' \<Longrightarrow>
   getopt_scan stop opts longs (pair_args ovs @ rest) =
     (let (os, ops) = getopt_scan stop opts longs rest in (ovs @ os, ops))"
proof (induction ovs)
  case Nil
  then show ?case by (simp add: pair_args_def)
next
  case (Cons o1 ovs)
  obtain c v where o1: "o1 = (c, v)" by (cases o1)
  have "\<not> is_operand [CHR ''-'', c]" "[CHR ''-'', c] \<noteq> ''--''"
    using Cons.prems o1 by (auto simp: is_operand_def)
  moreover have "short_option opts c = Some True" "c \<noteq> CHR ''-''" using Cons.prems o1 by auto
  ultimately show ?case
    using Cons o1 by (simp add: pair_args_def getopt_scan.simps(2) split: prod.splits)
qed

text \<open>Everything \<open>getopt\<close> hands out is part of an argument.\<close>

lemma short_cluster_cstr:
  "is_cstr cs \<Longrightarrow> list_all is_cstr rest \<Longrightarrow>
   list_all (\<lambda>o1. is_cstr (snd o1)) (fst (short_cluster opts cs rest)) \<and>
   list_all is_cstr (snd (short_cluster opts cs rest))"
  by (induction opts cs rest rule: short_cluster.induct)
    (auto simp: is_cstr_def split: option.split bool.split list.split prod.splits)

lemma is_cstr_tl: "is_cstr s \<Longrightarrow> is_cstr (tl s)"
  by (cases s) (auto simp: is_cstr_def)

lemma is_cstr_dropWhile: "is_cstr s \<Longrightarrow> is_cstr (dropWhile P s)"
  unfolding dropWhile_eq_drop by (rule is_cstr_drop)

lemma long_argument_cstr:
  assumes "is_cstr a" and "list_all is_cstr rest"
  shows "is_cstr (snd (fst (long_argument longs a rest))) \<and> list_all is_cstr (snd (long_argument longs a rest))"
proof -
  have "is_cstr (tl (dropWhile (\<lambda>c. c \<noteq> CHR ''='') a))"
    by (intro is_cstr_tl is_cstr_dropWhile assms(1))
  with assms(2) show ?thesis
    by (cases rest) (auto simp: long_argument_def Let_def split: option.split)
qed

lemma getopt_cstr:
  "list_all is_cstr args \<Longrightarrow>
   list_all (\<lambda>o1. is_cstr (snd o1)) (fst (getopt_scan stop opts longs args)) \<and>
   list_all is_cstr (snd (getopt_scan stop opts longs args))"
proof (induction stop opts longs args rule: getopt_scan.induct)
  case (1 stop opts longs)
  then show ?case by simp
next
  case (2 stop opts longs a rest)
  have a: "is_cstr a" "list_all is_cstr rest" using "2.prems" by simp_all
  consider "is_operand a" stop | "is_operand a" "\<not> stop" | "\<not> is_operand a" "a = ''--''"
    | "\<not> is_operand a" "a \<noteq> ''--''" "take 2 a = ''--''"
    | "\<not> is_operand a" "a \<noteq> ''--''" "take 2 a \<noteq> ''--''" by blast
  then show ?case
  proof cases
    case 1
    with a show ?thesis by (simp add: getopt_scan.simps(2))
  next
    case 2
    with a "2.IH"(1) show ?thesis by (simp add: getopt_scan.simps(2) split_def Let_def)
  next
    case 3
    with a show ?thesis by (simp add: getopt_scan.simps(2))
  next
    case 4
    obtain o1 r where l: "long_argument longs (drop 2 a) rest = (o1, r)" by fastforce
    have "is_cstr (snd o1)" "list_all is_cstr r"
      using long_argument_cstr [OF is_cstr_drop [OF a(1), of 2] a(2), of longs] l by simp_all
    with 4 l "2.IH"(2) [OF 4 l [symmetric] refl] show ?thesis
      by (simp add: getopt_scan.simps(2) split_def Let_def)
  next
    case 5
    obtain os r where l: "short_cluster opts (tl a) rest = (os, r)" by fastforce
    have "list_all (\<lambda>o1. is_cstr (snd o1)) os" "list_all is_cstr r"
      using short_cluster_cstr [OF is_cstr_tl [OF a(1)] a(2), of opts] l by simp_all
    with 5 l "2.IH"(3) [OF 5 l [symmetric] refl] show ?thesis
      by (simp add: getopt_scan.simps(2) split_def Let_def)
  qed
qed

section \<open>Requests\<close>

text \<open>A configuration the user asks for is one the server can read.\<close>

lemma start_option_wf:
  assumes "start_option o1 cc = Inr cc'" and "is_cstr (snd o1)"
    and "config_wf (cc\<lparr>cc_name := Some n, cc_age := 0\<rparr>)"
  shows "config_wf (cc'\<lparr>cc_name := Some n, cc_age := 0\<rparr>)"
  using assms by (auto simp: start_option_def Let_def config_wf_def child_config_status_from_string_def
      split: if_splits)

lemma run_options_error:
  "run_options start_option os cc = Inr cc' \<Longrightarrow> cc_error cc' = cc_error cc"
proof (induction os arbitrary: cc)
  case Nil
  then show ?case by simp
next
  case (Cons o1 os)
  then obtain cc1 where c: "start_option o1 cc = Inr cc1" "run_options start_option os cc1 = Inr cc'"
    by (auto split: sum.splits)
  have "cc_error cc1 = cc_error cc" using c(1) by (auto simp: start_option_def Let_def split: if_splits)
  with c(2) Cons.IH show ?case by simp
qed

lemma run_options_wf:
  "run_options start_option os cc = Inr cc' \<Longrightarrow> list_all (\<lambda>o1. is_cstr (snd o1)) os \<Longrightarrow>
   config_wf (cc\<lparr>cc_name := Some n, cc_age := 0\<rparr>) \<Longrightarrow> config_wf (cc'\<lparr>cc_name := Some n, cc_age := 0\<rparr>)"
proof (induction os arbitrary: cc)
  case Nil
  then show ?case by simp
next
  case (Cons o1 os)
  then obtain cc1 where "start_option o1 cc = Inr cc1" "run_options start_option os cc1 = Inr cc'"
    by (auto split: sum.splits)
  with Cons start_option_wf [of o1 cc cc1 n] show ?case by simp
qed

definition start_base :: child_config where
  "start_base = child_config_new\<lparr>cc_stdout := None, cc_stderr := None, cc_instances := 1,
     cc_status := STATUS_RUNNING, cc_killsig := 15\<rparr>"

lemma start_config_wf:
  assumes "start_config argv = Inr cc" and "list_all is_cstr argv" and "is_int (cc_age cc)"
  shows "config_wf cc"
proof -
  obtain os args where g: "getopt_long start_opts start_longopts argv = (os, args)" by fastforce
  with assms(1) obtain cc1 where run: "run_options start_option os start_base = Inr cc1"
    and args: "\<not> length args < 2" and cc: "cc = cc1\<lparr>cc_name := Some (hd args), cc_command := Some (tl args)\<rparr>"
    by (auto simp: start_config_def start_base_def split: if_splits sum.splits)
  have "list_all is_cstr (tl argv)" using assms(2) by (cases argv) auto
  then have os: "list_all (\<lambda>o1. is_cstr (snd o1)) os" "list_all is_cstr args"
    using getopt_cstr [of "tl argv"] g by (auto simp: getopt_long_def Let_def split: if_splits) 
      (metis fst_conv snd_conv)+
  then have n: "is_cstr (hd args)" "list_all is_cstr (tl args)" using args by (cases args; simp)+
  have "config_wf (start_base\<lparr>cc_name := Some (hd args), cc_age := 0\<rparr>)"
    using n by (simp add: start_base_def child_config_new_def config_wf_def)
  from run_options_wf [OF run os(1) this]
  have "config_wf (cc1\<lparr>cc_name := Some (hd args), cc_age := 0\<rparr>)" .
  with n assms(3) show ?thesis by (simp add: cc config_wf_def)
qed

text \<open>What a command puts on the wire when every write is taken in full.\<close>

definition full_writes :: "cli \<Rightarrow> bool" where
  "full_writes C \<longleftrightarrow> (\<forall>k n. cli_write C k n = n)"

lemma send_command_wire:
  assumes "full_writes C"
  shows "\<exists>k. send_command C cmd (Some pl) i =
    (True, i\<lparr>io_wire := (k, snd (io_wire i) @ request_bytes (1, cmd @ pl))\<rparr>)"
proof -
  have w: "cli_write C k n = n" for k n using assms by (simp add: full_writes_def)
  obtain k ws where "io_wire i = (k, ws)" by (cases "io_wire i")
  then show ?thesis
    using send_command_bytes [of "cli_write C" cmd "Some pl" k ws, OF w]
    by (auto simp: send_command_def request_bytes_def)
qed

lemma start_config_error: "start_config argv = Inr cc \<Longrightarrow> cc_error cc = 0"
  by (auto simp: start_config_def child_config_new_def dest!: run_options_error
      split: if_splits sum.splits prod.splits)

text \<open>What the server decodes of one request sent.\<close>

lemma receive_one:
  assumes "4 \<le> length buf" and "length buf \<le> CHUNKSIZ" and "concat segs = request_bytes (1, buf)"
  shows "fst (receive segs fresh_con) = [(1, buf)]"
  by (subst receive_sent [where rs = "[(1, buf)]"])
    (use assms in \<open>simp_all add: request_ok_def con_ok_def fresh_con_def\<close>)

text \<open>What \<open>start\<close> sends, and what a parser that reads back the printed configuration makes of it.\<close>

lemma start_sends:
  assumes "start_config argv = Inr cc" and "list_all is_cstr argv" and "is_int (cc_age cc)"
    and "cli_connect C" and "full_writes C" and "snd (io_wire i) = []"
    and "p (cli_print C (child_config_json cc)) = Some (child_config_json cc)"
  shows "\<exists>k. let b = child_config_serialize (cli_print C) cc;
      r = get_status_reply (cli_parse C) (cli_print C) (io_sock i) in
    cmd_start C argv i = Live (fst r, i\<lparr>io_wire := (k, request_bytes (1, ''SPWN'' @ b)), io_err := io_err i @ snd r\<rparr>) \<and>
    child_config_unserialize p b = Live (Some (config_image cc))"
proof -
  let ?b = "child_config_serialize (cli_print C) cc"
  obtain k where k: "send_command C ''SPWN'' (Some ?b) i =
      (True, i\<lparr>io_wire := (k, request_bytes (1, ''SPWN'' @ ?b))\<rparr>)"
    using send_command_wire [OF assms(5), of "''SPWN''" ?b i] assms(6) by auto
  have "is_int (cc_error cc)" using start_config_error [OF assms(1)] by simp
  with start_config_wf [OF assms(1-3)] have "child_config_from_json (child_config_json cc) = Live (Some (config_image cc))"
    by (rule from_json_config_json)
  then have "child_config_unserialize p ?b = Live (Some (config_image cc))"
    using assms(7) by (simp add: child_config_unserialize_def child_config_serialize_def
        json_object_is_type_def child_config_json_def [of cc] Let_def)
  with assms(1,4) k show ?thesis by (auto simp: cmd_start_def status_reply_def split_def Let_def)
qed

section \<open>Properties\<close>

text \<open>
  C30. The arguments of \<open>start\<close> after the name of the group are its command line, whatever
  they look like; the options before the name, here given as separate arguments, set the
  configuration in order.
\<close>

theorem start_passes_arguments:
  assumes "\<forall>(c, v) \<in> set ovs. short_option (tl start_opts) c = Some True"
    and "is_operand name" and "args \<noteq> []"
  shows "start_config (''start'' # pair_args ovs @ name # args) =
    (case run_options start_option ovs start_base of
       Inl e \<Rightarrow> Inl e
     | Inr cc \<Rightarrow> Inr (cc\<lparr>cc_name := Some name, cc_command := Some args\<rparr>))"
proof -
  have "\<forall>(c, v) \<in> set ovs. short_option (tl start_opts) c = Some True \<and> c \<noteq> CHR ''-''"
    using assms(1) by (auto simp: start_opts_def)
  from getopt_pairs [OF this, of True start_longopts "name # args"]
  have "getopt_long start_opts start_longopts (''start'' # pair_args ovs @ name # args) = (ovs, name # args)"
    using getopt_scan_stop [OF assms(2)] by (simp add: getopt_long_def start_opts_def)
  with assms(3) show ?thesis
    by (auto simp: start_config_def start_base_def not_less Suc_le_eq split: sum.split)
qed

lemma start_passes_arguments_witness:
  "start_config [''start'', ''-o'', ''/tmp/o'', ''db'', ''pg'', ''-i'', ''9''] =
     Inr (start_base\<lparr>cc_stdout := Some ''/tmp/o'', cc_name := Some ''db'', cc_command := Some [''pg'', ''-i'', ''9'']\<rparr>)"
  using start_passes_arguments [of "[(CHR ''o'', ''/tmp/o'')]" "''db''" "[''pg'', ''-i'', ''9'']"]
  by (simp add: pair_args_def start_opts_def is_operand_def start_option_def)

text \<open>
  A \<open>start\<close> that is accepted by the client reaches the server: its bytes, in whatever
  segments they arrive on a fresh connection, decode to the one request \<open>SPWN\<close> with the
  configuration, and on a JSON library that reads back what it printed the server gets the
  configuration the user asked for. The client's exit status is that of the status reply.
\<close>

theorem start_reaches_server:
  assumes "start_config argv = Inr cc" and "list_all is_cstr argv" and "is_int (cc_age cc)"
    and "cli_connect C" and "full_writes C" and "snd (io_wire i) = []"
    and "length (child_config_serialize (cli_print C) cc) + 4 \<le> CHUNKSIZ"
    and "cli_parse C (cli_print C (child_config_json cc)) = Some (child_config_json cc)"
  shows "\<exists>ret i'. cmd_start C argv i = Live (ret, i') \<and>
    ret = fst (get_status_reply (cli_parse C) (cli_print C) (io_sock i)) \<and>
    (\<forall>segs. concat segs = snd (io_wire i') \<longrightarrow>
       fst (receive segs fresh_con) = [(1, ''SPWN'' @ child_config_serialize (cli_print C) cc)]) \<and>
    child_config_unserialize (cli_parse C) (child_config_serialize (cli_print C) cc) =
      Live (Some (config_image cc))"
proof -
  let ?b = "child_config_serialize (cli_print C) cc"
  obtain k where "cmd_start C argv i =
      Live (fst (get_status_reply (cli_parse C) (cli_print C) (io_sock i)),
        i\<lparr>io_wire := (k, request_bytes (1, ''SPWN'' @ ?b)),
          io_err := io_err i @ snd (get_status_reply (cli_parse C) (cli_print C) (io_sock i))\<rparr>)"
    and "child_config_unserialize (cli_parse C) ?b = Live (Some (config_image cc))"
    using start_sends [OF assms(1-6), of "cli_parse C", OF assms(8)] by (auto simp: Let_def)
  moreover have "fst (receive segs fresh_con) = [(1, ''SPWN'' @ ?b)]"
    if "concat segs = request_bytes (1, ''SPWN'' @ ?b)" for segs
    by (rule receive_one) (use that assms(7) in simp_all)
  ultimately show ?thesis by simp
qed

definition demo_cli :: cli where
  "demo_cli =
     \<lparr>cli_parse = (\<lambda>x. Some (child_config_json (start_base\<lparr>cc_name := Some ''db'', cc_command := Some [''pg'']\<rparr>))),
      cli_print = (\<lambda>v. ''{db}''), cli_connect = True, cli_write = (\<lambda>k n. n), cli_strtod = (\<lambda>s. 0),
      cli_program = ''uber'', cli_strerror = ''No such file or directory''\<rparr>"

definition demo_io :: "string list \<Rightarrow> io" where
  "demo_io sock = \<lparr>io_out = [], io_err = [], io_wire = (0, []), io_sock = sock\<rparr>"

lemma start_reaches_server_witness:
  "\<exists>i'. cmd_start demo_cli [''start'', ''db'', ''pg''] (demo_io []) = Live (1, i') \<and>
     fst (receive [snd (io_wire i')] fresh_con) = [(1, ''SPWN{db}'')]"
proof -
  let ?cc = "start_base\<lparr>cc_name := Some ''db'', cc_command := Some [''pg'']\<rparr>"
  have c: "start_config [''start'', ''db'', ''pg''] = Inr ?cc"
    by (simp add: start_config_def getopt_long_def start_opts_def getopt_scan_stop is_operand_def start_base_def)
  have s: "get_status_reply (cli_parse demo_cli) (cli_print demo_cli) [] = parse_failed"
    by (simp add: get_status_reply_def read_reply_def read_reply_loop.simps)
  have "\<exists>ret i'. cmd_start demo_cli [''start'', ''db'', ''pg''] (demo_io []) = Live (ret, i') \<and>
    ret = fst (get_status_reply (cli_parse demo_cli) (cli_print demo_cli) (io_sock (demo_io []))) \<and>
    (\<forall>segs. concat segs = snd (io_wire i') \<longrightarrow>
       fst (receive segs fresh_con) = [(1, ''SPWN'' @ child_config_serialize (cli_print demo_cli) ?cc)]) \<and>
    child_config_unserialize (cli_parse demo_cli) (child_config_serialize (cli_print demo_cli) ?cc) =
      Live (Some (config_image ?cc))"
    by (rule start_reaches_server [OF c])
      (simp_all add: demo_cli_def demo_io_def full_writes_def is_cstr_def start_base_def
        child_config_new_def child_config_serialize_def)
  then obtain ret i' where r: "cmd_start demo_cli [''start'', ''db'', ''pg''] (demo_io []) = Live (ret, i')"
    "ret = fst (get_status_reply (cli_parse demo_cli) (cli_print demo_cli) [])"
    "\<And>segs. concat segs = snd (io_wire i') \<Longrightarrow> fst (receive segs fresh_con) = [(1, ''SPWN{db}'')]"
    by (auto simp: demo_io_def child_config_serialize_def demo_cli_def)
  from r(3) [of "[snd (io_wire i')]"] r(1,2) show ?thesis unfolding s by (simp add: parse_failed_def)
qed

text \<open>
  The exit status of \<open>start\<close>, \<open>update\<close>, \<open>dump\<close> and \<open>exit\<close> is 0 for every reply that is
  understood, also for one that says the command failed: then the message goes to the
  standard error and nothing else tells. Only a reply that is missing or malformed gives 1.
\<close>

theorem refused_exits_zero:
  assumes "read_reply sock = Some buf" and "parse (cstr buf) = Some obj"
    and "json_object_object_get obj ''code'' = Some c" and "json_object_object_get obj ''msg'' = Some (JString m)"
  shows "get_status_reply parse prt sock =
    (0, if json_object_get_boolean c then [] else ''Error: '' @ cstr m @ [newline])"
  using assms by (simp add: get_status_reply_def json_text_def)

lemma refused_exits_zero_witness:
  "get_status_reply (\<lambda>x. Some (status_json False ''name exists'')) (\<lambda>v. []) [message_bytes 1 ''x''] =
     (0, ''Error: name exists'' @ [newline])"
proof -
  have "read_reply [message_bytes 1 ''x''] = Some ''x''"
    using read_reply_next [of "''x''" "[]" "[]" 1] by (simp add: read_reply_def)
  from refused_exits_zero [OF this, of "\<lambda>x. Some (status_json False ''name exists'')"]
  show ?thesis by (simp add: status_json_def cstr_def)
qed





text \<open>
  Client and server agree on what \<open>kill\<close> asks for: the server reads from the object the
  client builds the name, the signal unless it was not given (then its own choice \<open>d\<close>
  stands), and the index, of which -1 means all.
\<close>

theorem kill_request_is_understood:
  assumes "is_int idx" and "is_int sig"
  shows "json_object_object_get (kill_object n idx sig) ''name'' = Some (JString n) \<and>
    get_int_or (kill_object n idx sig) ''sig'' d = (if sig = -1 then d else sig) \<and>
    get_int_or (kill_object n idx sig) ''index'' (-1) = idx"
  using get_int_JInt [OF assms(1)] get_int_JInt [OF assms(2)]
  by (auto simp: kill_object_def get_int_or_def json_object_is_type_def simp del: json_object_get_int.simps)

lemma kill_request_is_understood_witness:
  "get_int_or (kill_object ''web'' 1 (-1)) ''sig'' 15 = 15 \<and> get_int_or (kill_object ''web'' 1 (-1)) ''index'' (-1) = 1"
  using kill_request_is_understood [of 1 "-1" "''web''" 15] by (simp add: is_int_def)


end
