(* ===== verification/Exchange.thy ===== *)
theory Exchange
  imports Endtoend
begin

text \<open>
  A command of the user from end to end: the client sends its request, the bytes arrive at
  the server, \<open>read_cb\<close> runs the command, and the client prints what comes back. The two
  programs share nothing but the bytes; the JSON library is the same on both sides.
\<close>

section \<open>One request\<close>

text \<open>A connection on which nothing has been said yet, and the server once a request is in.\<close>

definition quiet :: "client_con \<Rightarrow> bool" where
  "quiet c \<longleftrightarrow> con_ok c \<and> c_len c = 0 \<and> c_in c = [] \<and> c_out c = []"

definition incoming :: "addr \<Rightarrow> client_con \<Rightarrow> string \<Rightarrow> server \<Rightarrow> server" where
  "incoming con c bs s = set_con con (arrive bs c) s"

text \<open>The server when the command runs: the connection knows its id.\<close>

definition asked :: "addr \<Rightarrow> client_con \<Rightarrow> server \<Rightarrow> server" where
  "asked con c s = set_con con (c\<lparr>c_cid := 1, c_watermark := 2\<rparr>) s"

abbreviation waiting :: "client_con \<Rightarrow> client_con" where
  "waiting c \<equiv> c\<lparr>c_watermark := 2, c_cid := 0\<rparr>"

lemma quiet_requests:
  assumes c: "quiet c" and r: "request_ok (1, buf)"
  shows "requests (arrive (request_bytes (1, buf)) c) =
    ([(buf, c\<lparr>c_cid := 1, c_watermark := 2\<rparr>)], Wait (waiting c))"
proof -
  let ?c = "arrive (request_bytes (1, buf)) c"
  have q: "con_ok ?c" "c_len ?c = 0" "c_in ?c = request_bytes (1, buf) @ []"
    using c by (simp_all add: quiet_def)
  have e: "?c\<lparr>c_in := [], c_cid := 1, c_watermark := 2\<rparr> = c\<lparr>c_cid := 1, c_watermark := 2\<rparr>"
    using c by (cases c) (simp add: arrive_def quiet_def)
  have "read_turn ?c = Run buf (c\<lparr>c_cid := 1, c_watermark := 2\<rparr>)"
    using read_turn_request [OF r q] e by simp
  moreover have "read_turn (waiting c) = More (waiting c)"
    by (rule read_turn_wait) (use c in \<open>simp_all add: quiet_def\<close>)
  moreover have "con_ok (waiting c)" using c by (simp add: con_ok_def quiet_def)
  ultimately show ?thesis using q(1) by (simp add: requests_step [of ?c] requests_step [of "waiting c"])
qed

lemma asked_ok:
  assumes "srv_ok s" and "conns s con = Some c"
  shows "srv_ok (asked con c s)" "conn_live con (asked con c s)"
    "conns (asked con c s) con = Some (c\<lparr>c_cid := 1, c_watermark := 2\<rparr>)"
  using assms by (simp_all add: asked_def srv_ok_set_con conn_live_def)

lemma one_request:
  assumes E: "fork_fresh E" and s: "srv_ok s" and c: "conns s con = Some c" "quiet c"
    and r: "request_ok (1, buf)"
  shows "read_cb E con (incoming con c (request_bytes (1, buf)) s) =
    bindO (run_server_command E buf con (asked con c s)) (\<lambda>(cr, s).
      if \<not> cr then Live s
      else deref conns con s (\<lambda>d. Live (set_con con ((waiting c)\<lparr>c_out := c_out d\<rparr>) s)))"
proof -
  let ?c = "arrive (request_bytes (1, buf)) c" and ?s = "incoming con c (request_bytes (1, buf)) s"
  have i: "srv_ok ?s" "conns ?s con = Some ?c" "con_ok ?c"
    using s c by (simp_all add: incoming_def srv_ok_set_con quiet_def)
  have out: "c_out ?c = []" using c by (simp add: quiet_def)
  have d: "set_con con ((c\<lparr>c_cid := 1, c_watermark := 2\<rparr>)\<lparr>c_out := c_out ?c\<rparr>) ?s = asked con c s"
    using c by (cases c) (simp add: incoming_def asked_def set_con_def quiet_def arrive_def)
  have w: "deref conns con (set_con con (d\<lparr>c_cid := 0\<rparr>) t)
      (\<lambda>e. Live (set_con con ((waiting c)\<lparr>c_out := c_out e\<rparr>) (set_con con (d\<lparr>c_cid := 0\<rparr>) t))) =
      Live (set_con con ((waiting c)\<lparr>c_out := c_out d\<rparr>) t)" for d t
    by (simp add: deref_def set_con_def)
  have "serve E con (Wait (waiting c)) [(buf, c\<lparr>c_cid := 1, c_watermark := 2\<rparr>)] ?s =
      bindO (run_server_command E buf con (asked con c s)) (\<lambda>(cr, s). if \<not> cr then Live s
        else deref conns con s (\<lambda>d. stop_at E con (Wait (waiting c)) (set_con con (d\<lparr>c_cid := 0\<rparr>) s)))"
    unfolding serve.simps deref_def i(2) option.case fst_conv snd_conv d ..
  also have "\<dots> = bindO (run_server_command E buf con (asked con c s)) (\<lambda>(cr, s). if \<not> cr then Live s
        else deref conns con s (\<lambda>d. Live (set_con con ((waiting c)\<lparr>c_out := c_out d\<rparr>) s)))"
    unfolding stop_at.simps w ..
  finally show ?thesis
    unfolding read_cb_serve [OF E i] quiet_requests [OF c(2) r] fst_conv snd_conv .
qed

text \<open>A request whose name is in the table runs the handler of that name.\<close>

lemma find_entry: "distinct (map fst xs) \<Longrightarrow> (n, f) \<in> set xs \<Longrightarrow> List.find (\<lambda>x. fst x = n) xs = Some (n, f)"
  by (induction xs) force+

lemma commands_distinct: "distinct (map fst commands)"
  by (simp add: commands_def)

lemma command_entries:
  "(''KILL'', c_kill) \<in> set commands" "(''LIST'', c_list) \<in> set commands" "(''SPWN'', c_spwn) \<in> set commands"
  unfolding commands_def by (intro list.set_intros)+

lemma command_request:
  assumes "(n, f) \<in> set commands" and "is_cstr b"
  shows "run_server_command E (n @ b) con s =
    bindO (f E con b s) (\<lambda>(cr, s).
      if \<not> cr then bindO (drop_client_connection con s) (\<lambda>s. Live (cr, s)) else Live (cr, s))"
proof -
  have n: "is_cstr n" "length n = 4" using commands_names [OF assms(1)] by simp_all
  then have "take 4 (cstr (n @ b)) = n" using assms(2) by simp
  then have "bsearch (command_compar (n @ b)) commands = Some (n, f)"
    unfolding find_command using find_entry [OF commands_distinct assms(1)] by simp
  with assms(2) n(2) show ?thesis by (simp add: run_server_command_def)
qed

lemma command_exchange:
  assumes E: "fork_fresh E" and s: "srv_ok s" and c: "conns s con = Some c" "quiet c"
    and f: "(n, f) \<in> set commands" and b: "is_cstr b" "length b + 4 \<le> CHUNKSIZ"
    and run: "post (f E con b (asked con c s)) (\<lambda>(cr, t). cr \<and> conn_live con t \<and> (\<forall>x. Q (set_con con x t))) dead_ok"
  shows "post (read_cb E con (incoming con c (request_bytes (1, n @ b)) s)) Q dead_ok"
proof -
  have r: "request_ok (1, n @ b)" using b(2) commands_names [OF f] by (simp add: request_ok_def)
  have "post (deref conns con t (\<lambda>d. Live (set_con con ((waiting c)\<lparr>c_out := c_out d\<rparr>) t))) Q dead_ok"
    if "conn_live con t" "\<forall>x. Q (set_con con x t)" for t
    using that by (auto simp: conn_live_def deref_def)
  then show ?thesis
    unfolding one_request [OF E s c r] command_request [OF f b(1)] post_bind
    by (intro post_mono [OF run]) auto
qed

section \<open>list\<close>

text \<open>A command that answers, on the way through \<open>read_cb\<close>.\<close>

lemma answered_exchange:
  assumes E: "fork_fresh E" and s: "srv_ok s" and c: "conns s con = Some c" "quiet c"
    and r: "request_ok (1, buf)"
    and run: "run_server_command E buf con (asked con c s) = Live (True, t)"
    and ans: "answered E con obj (asked con c s) t"
  shows "\<exists>k. read_cb E con (incoming con c (request_bytes (1, buf)) s) =
    Live (set_con con ((waiting c)\<lparr>c_out := message_bytes 1 (to_json_string E obj)\<rparr>) (s\<lparr>tick := k\<rparr>))"
proof -
  let ?m = "message_bytes 1 (to_json_string E obj)"
  from ans asked_ok [OF s c(1)] have t: "t = (asked con c s)\<lparr>tick := tick t,
      conns := (conns (asked con c s))(con \<mapsto> (c\<lparr>c_cid := 1, c_watermark := 2\<rparr>)\<lparr>c_out := c_out c @ ?m\<rparr>)\<rparr>"
    by (simp add: answered_def queued_def)
  define k where "k = tick t"
  have "conns t con = Some ((c\<lparr>c_cid := 1, c_watermark := 2\<rparr>)\<lparr>c_out := ?m\<rparr>)"
    using c(2) by (subst t) (simp add: quiet_def)
  moreover have "set_con con x t = set_con con x (s\<lparr>tick := k\<rparr>)" for x
    unfolding k_def by (subst t) (simp add: asked_def set_con_def)
  ultimately have "read_cb E con (incoming con c (request_bytes (1, buf)) s) =
      Live (set_con con ((waiting c)\<lparr>c_out := ?m\<rparr>) (s\<lparr>tick := k\<rparr>))"
    unfolding one_request [OF E s c r] run by (simp add: deref_def)
  then show ?thesis by blast
qed

lemma list_lines_strings:
  "list_lines C (map JString ns) i = Live (0, say (concat (map (\<lambda>n. cstr n @ [newline]) ns)) i)"
  by (induction ns arbitrary: i) (simp_all add: say_def json_text_def)

text \<open>The names of the groups in the order of the list, newest first.\<close>

definition group_names :: "server \<Rightarrow> string list" where
  "group_names s = map (\<lambda>a. the (cc_name (the (cfgs s a)))) (child_config_list s)"

lemma group_names_asked: "group_names (asked con c s) = group_names s"
  by (simp add: group_names_def asked_def set_con_def)

lemma group_names_cstr:
  assumes "srv_ok s" and "n \<in> set (group_names s)"
  shows "is_cstr n"
proof -
  have s: "srv_inv s" by (rule srv_okD(1) [OF assms(1)])
  obtain a where a: "a \<in> set (child_config_list s)" "n = the (cc_name (the (cfgs s a)))"
    using assms(2) by (auto simp: group_names_def)
  with s obtain cc where cc: "cfgs s a = Some cc" by (auto simp: srv_inv_def registry_ok_def)
  with inv_sizes [OF s cc] a(2) show ?thesis by (auto simp: config_wf_def)
qed

lemma list_request:
  assumes s: "srv_ok s" and con: "conn_live con s" and E: "writes_ok E"
  shows "\<exists>t. run_server_command E ''LIST'' con s = Live (True, t) \<and>
    answered E con (JArray (map JString (group_names s))) s t"
proof -
  show ?thesis
    using answer_queues [OF E con, of "JArray (map JString (group_names s))"]
      command_request [OF command_entries(2), of "[]" E con s]
    by (auto simp: c_list_eval [OF srv_okD(1) [OF s]] group_names_def comp_def)
qed

lemma cmd_list_reply:
  assumes C: "cli_connect C" "full_writes C" and w: "snd (io_wire i) = []"
    and sock: "[] \<notin> set (io_sock i)" "concat (io_sock i) = message_bytes 1 text @ rest"
      "headers_whole text (io_sock i)" "text \<noteq> []"
    and parse: "cli_parse C (cstr text) = Some (JArray (map JString ns))" and ns: "list_all is_cstr ns"
  shows "\<exists>i'. cmd_list C [''list''] i = Live (0, i') \<and> snd (io_wire i') = request_bytes (1, ''LIST'') \<and>
    io_out i' = io_out i @ concat (map (\<lambda>n. n @ [newline]) ns) \<and> io_err i' = io_err i"
proof -
  have wr: "cli_write C k n = n" for k n using C(2) by (simp add: full_writes_def)
  obtain k where k: "io_wire i = (k, [])" using w by (cases "io_wire i") auto
  let ?w = "(k + 3, request_bytes (1, ''LIST''))"
  have send: "send_command C ''LIST'' None i = (True, i\<lparr>io_wire := ?w\<rparr>)"
    using send_command_bytes [of "cli_write C" "''LIST''" None k "[]", OF wr] k
    by (simp add: send_command_def request_bytes_def)
  have "reply_from (i\<lparr>io_wire := ?w\<rparr>) =
      Some (text, i\<lparr>io_wire := ?w, io_sock := sock_drop (length (message_bytes 1 text)) (io_sock i)\<rparr>)"
    using read_reply_message [OF sock, of "[]"] by (simp add: reply_from_def)
  moreover have "concat (map (\<lambda>n. cstr n @ [newline]) ns) = concat (map (\<lambda>n. n @ [newline]) ns)"
    using ns by (intro arg_cong [where f = concat]) (simp add: list_all_iff)
  ultimately show ?thesis
    using C(1) send parse
    by (simp add: cmd_list_def json_object_is_type_def list_lines_strings say_def)
qed

text \<open>
  C27. \<open>uber list\<close> prints the names of the server's groups, newest first, one per line, and
  exits 0: the bytes the client sends are those on which the server's \<open>read_cb\<close>, on any
  connection with nothing pending, queues a reply and changes nothing else; from any socket
  that delivers the reply without cutting a header the client prints exactly the names. What
  is assumed of the JSON library is that it reads back the array of strings it printed.
\<close>

theorem list_prints_groups:
  assumes "fork_fresh E" and "writes_ok E" and "srv_ok s" and "conns s con = Some c" and "quiet c"
    and "cli_connect C" and "full_writes C"
    and "text = to_json_string E (JArray (map JString (group_names s)))" and "text \<noteq> []"
    and "cli_parse C (cstr text) = Some (JArray (map JString (group_names s)))"
  shows "\<exists>d k. read_cb E con (incoming con c (request_bytes (1, ''LIST'')) s) =
      Live (set_con con d (s\<lparr>tick := k\<rparr>)) \<and> d\<lparr>c_out := []\<rparr> = c\<lparr>c_watermark := 2, c_cid := 0\<rparr> \<and>
    c_out d = message_bytes 1 text \<and>
    (\<forall>i rest. snd (io_wire i) = [] \<longrightarrow> [] \<notin> set (io_sock i) \<longrightarrow> concat (io_sock i) = c_out d @ rest \<longrightarrow>
       headers_whole text (io_sock i) \<longrightarrow>
       (\<exists>i'. cmd_list C [''list''] i = Live (0, i') \<and> snd (io_wire i') = request_bytes (1, ''LIST'') \<and>
          io_out i' = io_out i @ concat (map (\<lambda>n. n @ [newline]) (group_names s)) \<and> io_err i' = io_err i))"
proof -
  note q = asked_ok [OF assms(3,4)]
  obtain t where t: "run_server_command E ''LIST'' con (asked con c s) = Live (True, t)"
    "answered E con (JArray (map JString (group_names s))) (asked con c s) t"
    using list_request [OF q(1,2) assms(2)] by (auto simp: group_names_asked)
  have r: "request_ok (1, ''LIST'')" by (simp add: request_ok_def)
  obtain k where k: "read_cb E con (incoming con c (request_bytes (1, ''LIST'')) s) =
      Live (set_con con ((waiting c)\<lparr>c_out := message_bytes 1 text\<rparr>) (s\<lparr>tick := k\<rparr>))"
    using answered_exchange [OF assms(1,3,4,5) r t] by (auto simp: assms(8))
  have "list_all is_cstr (group_names s)" using group_names_cstr [OF assms(3)] by (simp add: list_all_iff)
  note list = cmd_list_reply [OF assms(6,7) _ _ _ _ assms(9,10) this]
  have "c_out c = []" using assms(5) by (simp add: quiet_def)
  then show ?thesis
    by (intro exI [of _ "(waiting c)\<lparr>c_out := message_bytes 1 text\<rparr>"] exI [of _ k] conjI k)
      (simp_all add: list)
qed

lemma demo_quiet: "quiet (demo_con\<lparr>c_watermark := 2\<rparr>)"
  by (simp add: quiet_def con_ok_def demo_con_def)

lemma list_prints_groups_witness:
  "\<exists>i'. cmd_list (demo_cli\<lparr>cli_parse := \<lambda>x. Some (JArray [JString ''web''])\<rparr>) [''list'']
       (demo_io [message_bytes 1 ''{}'']) = Live (0, i') \<and> io_out i' = ''web'' @ [newline]"
proof -
  let ?C = "demo_cli\<lparr>cli_parse := \<lambda>x. Some (JArray [JString ''web''])\<rparr>" and ?c = "demo_con\<lparr>c_watermark := 2\<rparr>"
  let ?s = "set_con 0 ?c (demo_server [])"
  have s: "srv_ok ?s" "conns ?s 0 = Some ?c"
    using demo_ok [of "[]"] by (simp_all add: srv_ok_set_con demo_zombies_def)
  have n: "group_names ?s = [''web'']" by (simp add: group_names_def set_con_def)
  have "message_bytes 1 ''{}'' \<noteq> []" using length_message_bytes [of "''{}''" 1] by auto
  then have ne: "[] \<notin> set (io_sock (demo_io [message_bytes 1 ''{}'']))" by (auto simp: demo_io_def)
  have C: "cli_connect ?C" "full_writes ?C" "''{}'' = to_json_string demo_env (JArray (map JString (group_names ?s)))"
    "''{}'' \<noteq> []" "cli_parse ?C (cstr ''{}'') = Some (JArray (map JString (group_names ?s)))"
    unfolding n by (simp_all add: demo_cli_def full_writes_def demo_env_def)
  obtain d :: client_con where d: "c_out d = message_bytes 1 ''{}''" and list: "\<forall>i rest. snd (io_wire i) = [] \<longrightarrow> [] \<notin> set (io_sock i) \<longrightarrow>
      concat (io_sock i) = c_out d @ rest \<longrightarrow> headers_whole ''{}'' (io_sock i) \<longrightarrow>
      (\<exists>i'. cmd_list ?C [''list''] i = Live (0, i') \<and> snd (io_wire i') = request_bytes (1, ''LIST'') \<and>
         io_out i' = io_out i @ concat (map (\<lambda>n. n @ [newline]) [''web'']) \<and> io_err i' = io_err i)"
    using list_prints_groups [OF demo_fork demo_writes s demo_quiet C] unfolding n by blast
  show ?thesis
    using list [rule_format, OF _ ne, of "[]"] d headers_whole_one [of "''{}''" 1 "[]" "[]"] by (auto simp: demo_io_def)
qed

section \<open>start\<close>

lemma started_asked: "started cc (asked con c s) s' \<longleftrightarrow> started cc s s'"
  by (simp add: started_def asked_def set_con_def)

lemma started_set_con: "started cc s (set_con con x s') \<longleftrightarrow> started cc s s'"
  by (simp add: started_def set_con_def failed_def acts_def)

text \<open>A request that starts a group, and one that is refused, on the way through \<open>read_cb\<close>.\<close>

lemma start_exchange:
  assumes E: "fork_fresh E" and w: "writes_ok E" and s: "srv_ok s"
    and c: "conns s con = Some c" "quiet c"
    and b: "is_cstr b" "length b + 4 \<le> CHUNKSIZ"
    and u: "child_config_unserialize (tokener_parse E) b = Live (Some cc)"
  shows "if start_accepts s cc
    then post (read_cb E con (incoming con c (request_bytes (1, ''SPWN'' @ b)) s))
      (\<lambda>s'. srv_ok s' \<and> started (start_defaults cc) s s') dead_ok
    else \<exists>msg k. read_cb E con (incoming con c (request_bytes (1, ''SPWN'' @ b)) s) =
      Live (set_con con ((waiting c)\<lparr>c_out := message_bytes 1 (to_json_string E (status_json False msg))\<rparr>)
        (s\<lparr>tick := k\<rparr>))"
proof -
  note q = asked_ok [OF s c(1)]
  note spwn = command_entries(3)
  have r: "request_ok (1, ''SPWN'' @ b)" using b(2) by (simp add: request_ok_def)
  have acc: "start_accepts (asked con c s) cc = start_accepts s cc"
    by (simp add: start_accepts_def asked_def set_con_def)
  show ?thesis
  proof (cases "start_accepts s cc")
    case False
    then obtain msg where msg: "c_spwn E con b (asked con c s) = reply E con False msg True (asked con c s)"
      using c_spwn_accepts [OF srv_okD(1) [OF q(1)] u, of con] acc by auto
    obtain t where t: "reply E con False msg True (asked con c s) = Live (True, t)"
      "answered E con (status_json False msg) (asked con c s) t"
      using reply_queues [OF w q(2)] by blast
    have "run_server_command E (''SPWN'' @ b) con (asked con c s) = Live (True, t)"
      unfolding command_request [OF spwn b(1)] msg t(1) by simp
    from answered_exchange [OF E s c r this t(2)] False show ?thesis by auto
  next
    case True
    have wf: "config_wf (start_defaults cc)" using unserialize_wf [OF u] by (simp add: wf_start_defaults)
    have "0 \<le> cc_instances (start_defaults cc)" using True by (simp add: start_accepts_def)
    from c_spwn_create_post [OF E q(1,2) wf this] c_spwn_accepts [OF srv_okD(1) [OF q(1)] u, of con] True acc
    have run: "post (c_spwn E con b (asked con c s)) (\<lambda>(cr, t). cr \<and> srv_ok t \<and>
        peers t = peers (asked con c s) \<and> started (start_defaults cc) (asked con c s) t) dead_ok" by auto
    let ?Q = "\<lambda>s'. srv_ok s' \<and> started (start_defaults cc) s s'"
    have "post (c_spwn E con b (asked con c s)) (\<lambda>(cr, t). cr \<and> conn_live con t \<and> (\<forall>x. ?Q (set_con con x t))) dead_ok"
    proof (rule post_mono [OF run])
      fix x :: "bool \<times> server"
      assume "case x of (cr, t) \<Rightarrow> cr \<and> srv_ok t \<and> peers t = peers (asked con c s) \<and>
        started (start_defaults cc) (asked con c s) t"
      moreover from this have "conn_live con (snd x)"
        using peers_conn_live [of "snd x" "asked con c s" con] q(2) by (cases x) simp
      ultimately show "case x of (cr, t) \<Rightarrow> cr \<and> conn_live con t \<and> (\<forall>x. ?Q (set_con con x t))"
        by (cases x) (auto simp: conn_live_def srv_ok_set_con started_set_con started_asked)
    qed
    from command_exchange [where Q = ?Q, OF E s c spwn b this] True show ?thesis by simp
  qed
qed

text \<open>
  C28. A \<open>start\<close> of the user, from the command line to the running processes: the bytes the
  client sends make the server's \<open>read_cb\<close> create the group with the configuration of the
  options and start all its processes if the name is free and the number of instances
  allowed, and otherwise answer with an error and change nothing. What is assumed of the JSON
  library is that the server reads back the configuration the client printed.
\<close>

theorem start_runs_group:
  assumes "start_config argv = Inr cc" and "list_all is_cstr argv" and "is_int (cc_age cc)"
    and "cli_connect C" and "full_writes C" and "snd (io_wire i) = []"
    and "b = child_config_serialize (cli_print C) cc" and "is_cstr b" and "length b + 4 \<le> CHUNKSIZ"
    and "tokener_parse E (cli_print C (child_config_json cc)) = Some (child_config_json cc)"
    and "fork_fresh E" and "writes_ok E" and "srv_ok s" and "conns s con = Some c" and "quiet c"
  shows "\<exists>ret i'. cmd_start C argv i = Live (ret, i') \<and>
    (if start_accepts s (config_image cc)
     then post (read_cb E con (incoming con c (snd (io_wire i')) s))
       (\<lambda>s'. srv_ok s' \<and> started (start_defaults (config_image cc)) s s') dead_ok
     else \<exists>msg d k. read_cb E con (incoming con c (snd (io_wire i')) s) = Live (set_con con d (s\<lparr>tick := k\<rparr>)) \<and>
       c_out d = message_bytes 1 (to_json_string E (status_json False msg)))"
proof -
  obtain k where k: "cmd_start C argv i =
      Live (fst (get_status_reply (cli_parse C) (cli_print C) (io_sock i)),
        i\<lparr>io_wire := (k, request_bytes (1, ''SPWN'' @ b)),
          io_err := io_err i @ snd (get_status_reply (cli_parse C) (cli_print C) (io_sock i))\<rparr>)"
    and u: "child_config_unserialize (tokener_parse E) b = Live (Some (config_image cc))"
    using start_sends [OF assms(1-6), of "tokener_parse E", OF assms(10)] by (auto simp: Let_def assms(7))
  show ?thesis
    using start_exchange [OF assms(11-15,8,9) u] unfolding k
    by (cases "start_accepts s (config_image cc)") fastforce+
qed

lemma start_runs_group_witness:
  "\<exists>ret i'. cmd_start demo_cli [''start'', ''db'', ''pg''] (demo_io []) = Live (ret, i') \<and>
     post (read_cb (demo_env\<lparr>tokener_parse := cli_parse demo_cli\<rparr>) 0
        (incoming 0 (demo_con\<lparr>c_watermark := 2\<rparr>) (snd (io_wire i')) (set_con 0 (demo_con\<lparr>c_watermark := 2\<rparr>) (demo_server []))))
       (\<lambda>s'. srv_ok s' \<and> child_config_list s' = [4, 1]) dead_ok"
proof -
  let ?cc = "start_base\<lparr>cc_name := Some ''db'', cc_command := Some [''pg'']\<rparr>"
  let ?c = "demo_con\<lparr>c_watermark := 2\<rparr>" and ?E = "demo_env\<lparr>tokener_parse := cli_parse demo_cli\<rparr>"
  let ?s = "set_con 0 ?c (demo_server [])"
  have c: "start_config [''start'', ''db'', ''pg''] = Inr ?cc"
    by (simp add: start_config_def getopt_long_def start_opts_def getopt_scan_stop is_operand_def start_base_def)
  have s: "srv_ok ?s" "conns ?s 0 = Some ?c"
    using demo_ok [of "[]"] by (simp_all add: srv_ok_set_con demo_zombies_def)
  have E: "fork_fresh ?E" "writes_ok ?E" using demo_fork demo_writes by (simp_all add: fork_fresh_def writes_ok_def)
  have acc: "start_accepts ?s (config_image ?cc)"
    by (auto simp: start_accepts_def start_defaults_def config_image_def start_base_def set_con_def split: if_splits)
  have "\<exists>ret i'. cmd_start demo_cli [''start'', ''db'', ''pg''] (demo_io []) = Live (ret, i') \<and>
    (if start_accepts ?s (config_image ?cc)
     then post (read_cb ?E 0 (incoming 0 ?c (snd (io_wire i')) ?s))
       (\<lambda>s'. srv_ok s' \<and> started (start_defaults (config_image ?cc)) ?s s') dead_ok
     else \<exists>msg d k. read_cb ?E 0 (incoming 0 ?c (snd (io_wire i')) ?s) = Live (set_con 0 d (?s\<lparr>tick := k\<rparr>)) \<and>
       c_out d = message_bytes 1 (to_json_string ?E (status_json False msg)))"
    by (rule start_runs_group [OF c _ _ _ _ _ _ _ _ _ E s demo_quiet, where b = "''{db}''"])
      (simp_all add: demo_cli_def demo_io_def full_writes_def is_cstr_def start_base_def
        child_config_new_def child_config_serialize_def)
  then obtain ret i' where r: "cmd_start demo_cli [''start'', ''db'', ''pg''] (demo_io []) = Live (ret, i')"
    and p: "post (read_cb ?E 0 (incoming 0 ?c (snd (io_wire i')) ?s))
      (\<lambda>s'. srv_ok s' \<and> started (start_defaults (config_image ?cc)) ?s s') dead_ok"
    using acc by auto
  have "post (read_cb ?E 0 (incoming 0 ?c (snd (io_wire i')) ?s)) (\<lambda>s'. srv_ok s' \<and> child_config_list s' = [4, 1]) dead_ok"
    by (rule post_mono [OF p]) (auto simp: started_def set_con_def)
  with r show ?thesis by blast
qed

section \<open>kill\<close>

lemma kill_options_int:
  "run_options kill_option os st = Inr st' \<Longrightarrow> is_int (fst st) \<Longrightarrow> is_int (snd st) \<Longrightarrow>
   is_int (fst st') \<and> is_int (snd st')"
proof (induction os arbitrary: st)
  case (Cons o1 os)
  then obtain st1 where "kill_option o1 st = Inr st1" "run_options kill_option os st1 = Inr st'"
    by (auto split: sum.splits)
  with Cons show ?case by (auto simp: kill_option_def split: if_splits)
qed simp

lemma print_pids_wire:
  "post (print_pids C refused i) (\<lambda>(ret, i'). io_wire i' = io_wire i) (\<lambda>h i'. io_wire i' = io_wire i)"
proof -
  have "io_wire (fold (\<lambda>e. say (f e)) es j) = io_wire j" for f and es :: "json list" and j :: io
    by (induction es arbitrary: j) (simp_all add: say_def)
  then show ?thesis
    by (auto simp: print_pids_def reply_from_def fails_def complain_def split: option.split)
qed

lemma kill_exchange:
  assumes E: "fork_fresh E" and s: "srv_ok s" and c: "conns s con = Some c" "quiet c"
    and b: "is_cstr b" "length b + 4 \<le> CHUNKSIZ" and int: "is_int idx" "is_int sig" and n: "is_cstr n"
    and obj: "tokener_parse E b = Some (kill_object n idx sig)"
    and a: "child_config_find_by_name n s = Some a" "cfgs s a = Some cc"
  shows "post (read_cb E con (incoming con c (request_bytes (1, ''KILL'' @ b)) s))
    (\<lambda>s'. cfgs s' = cfgs s \<and> procs s' = procs s \<and>
      acts s' = acts s @ map (\<lambda>p. EvKill p (if sig = -1 then cc_killsig cc else sig))
        (group_pids s cc (kill_slots idx cc))) dead_ok" (is "post _ ?Q _")
proof (rule command_exchange [OF E s c command_entries(1) b])
  note q = asked_ok [OF s c(1)]
  note k = kill_request_is_understood [OF int, of n "cc_killsig cc"]
  have a': "child_config_find_by_name n (asked con c s) = Some a" "cfgs (asked con c s) a = Some cc"
    "group_pids (asked con c s) cc = group_pids s cc" "acts (asked con c s) = acts s"
    "cfgs (asked con c s) = cfgs s" "procs (asked con c s) = procs s"
    using a by (simp_all add: asked_def set_con_def child_config_find_by_name_def group_pids_def acts_def fun_eq_iff pid_of_def)
  have "json_object_is_type (kill_object n idx sig) json_type_object" by (simp add: kill_object_def json_object_is_type_def)
  from c_kill_group [OF q(1,2) n obj this k [THEN conjunct1] _ _ a'(1,2)] n k
  have run: "post (c_kill E con b (asked con c s)) (\<lambda>(cr, t). cr \<and> core t = core (asked con c s) \<and>
      acts t = acts s @ map (\<lambda>p. EvKill p (if sig = -1 then cc_killsig cc else sig)) (group_pids s cc (kill_slots idx cc))) dead_ok"
    by (simp add: json_object_is_type_def a'(3,4))
  show "post (c_kill E con b (asked con c s)) (\<lambda>(cr, t). cr \<and> conn_live con t \<and> (\<forall>x. ?Q (set_con con x t))) dead_ok"
  proof (rule post_mono [OF run])
    fix x :: "bool \<times> server"
    assume x: "case x of (cr, t) \<Rightarrow> cr \<and> core t = core (asked con c s) \<and>
      acts t = acts s @ map (\<lambda>p. EvKill p (if sig = -1 then cc_killsig cc else sig)) (group_pids s cc (kill_slots idx cc))"
    obtain cr t where t: "x = (cr, t)" by (cases x)
    with x have core: "core t = core (asked con c s)" by simp
    have "conn_live con t" using core_conn_live [OF core] q(2) by simp
    moreover have "cfgs t = cfgs s" "procs t = procs s" using core_eqD(1,4) [OF core] a'(5,6) by simp_all
    ultimately show "case x of (cr, t) \<Rightarrow> cr \<and> conn_live con t \<and> (\<forall>x. ?Q (set_con con x t))"
      using x t by (simp add: set_con_def acts_def)
  qed
qed

text \<open>
  C13. A \<open>kill\<close> of the user reaches the processes that are meant: the client's request makes the
  server's \<open>read_cb\<close> send the signal of the option \<open>-s\<close>, or that of the group when there is none,
  to the process of the slot of the option \<open>-i\<close>, or to all running processes of the group
  when there is none, and to no other; groups and processes stay as they are. What is assumed
  of the JSON library is that the server reads back the object the client printed.
\<close>

theorem kill_reaches_processes:
  assumes "getopt_long kill_opts kill_longopts argv = (os, [n])" and "run_options kill_option os (-1, -1) = Inr (idx, sig)"
    and "cli_connect C" and "full_writes C" and "snd (io_wire i) = []" and "is_cstr n"
    and "b = cli_print C (kill_object n idx sig)" and "is_cstr b" and "length b + 4 \<le> CHUNKSIZ"
    and "tokener_parse E b = Some (kill_object n idx sig)"
    and "fork_fresh E" and "srv_ok s" and "conns s con = Some c" and "quiet c"
    and "child_config_find_by_name n s = Some a" and "cfgs s a = Some cc"
  shows "\<exists>w. post (cmd_kill C argv i) (\<lambda>(ret, i'). snd (io_wire i') = w) (\<lambda>h i'. snd (io_wire i') = w) \<and>
    post (read_cb E con (incoming con c w s))
      (\<lambda>s'. cfgs s' = cfgs s \<and> procs s' = procs s \<and>
        acts s' = acts s @ map (\<lambda>p. EvKill p (if sig = -1 then cc_killsig cc else sig))
          (group_pids s cc (kill_slots idx cc))) dead_ok"
proof (intro exI conjI)
  obtain k where k: "send_command C ''KILL'' (Some b) i =
      (True, i\<lparr>io_wire := (k, request_bytes (1, ''KILL'' @ b))\<rparr>)"
    using send_command_wire [OF assms(4), of "''KILL''" b i] assms(5) by auto
  have "cmd_kill C argv i = print_pids C ''Command failed.'' (i\<lparr>io_wire := (k, request_bytes (1, ''KILL'' @ b))\<rparr>)"
    using assms(1-3) k by (simp add: cmd_kill_def assms(7) [symmetric])
  then show "post (cmd_kill C argv i) (\<lambda>(ret, i'). snd (io_wire i') = request_bytes (1, ''KILL'' @ b))
      (\<lambda>h i'. snd (io_wire i') = request_bytes (1, ''KILL'' @ b))"
    using print_pids_wire [of C "''Command failed.''" "i\<lparr>io_wire := (k, request_bytes (1, ''KILL'' @ b))\<rparr>"]
    by (auto elim: post_mono)
  have "is_int idx \<and> is_int sig" using kill_options_int [OF assms(2)] by (simp add: is_int_def)
  then show "post (read_cb E con (incoming con c (request_bytes (1, ''KILL'' @ b)) s))
      (\<lambda>s'. cfgs s' = cfgs s \<and> procs s' = procs s \<and>
        acts s' = acts s @ map (\<lambda>p. EvKill p (if sig = -1 then cc_killsig cc else sig))
          (group_pids s cc (kill_slots idx cc))) dead_ok"
    by (intro kill_exchange [OF assms(11-14,8,9) _ _ assms(6,10,15,16)]) simp_all
qed

lemma kill_reaches_processes_witness:
  "\<exists>w. post (cmd_kill demo_cli [''kill'', ''web'', ''-i'', ''1''] (demo_io []))
       (\<lambda>(ret, i'). snd (io_wire i') = w) (\<lambda>h i'. snd (io_wire i') = w) \<and>
     post (read_cb (demo_env\<lparr>tokener_parse := \<lambda>x. Some (kill_object ''web'' 1 (-1))\<rparr>) 0
        (incoming 0 (demo_con\<lparr>c_watermark := 2\<rparr>) w (set_con 0 (demo_con\<lparr>c_watermark := 2\<rparr>) (demo_server []))))
       (\<lambda>s'. acts s' = [EvKill 102 15]) dead_ok"
proof -
  let ?c = "demo_con\<lparr>c_watermark := 2\<rparr>" and ?E = "demo_env\<lparr>tokener_parse := \<lambda>x. Some (kill_object ''web'' 1 (-1))\<rparr>"
  let ?s = "set_con 0 ?c (demo_server [])"
  have g: "getopt_long kill_opts kill_longopts [''kill'', ''web'', ''-i'', ''1''] = ([(CHR ''i'', ''1'')], [''web''])"
    by (simp add: getopt_long_def kill_opts_def getopt_scan.simps is_operand_def)
  have o: "run_options kill_option [(CHR ''i'', ''1'')] (-1, -1) = Inr (1, -1)"
    using strtol_value_show_int [of 1] by (simp add: kill_option_def strtol_def to_int_def show_int_def show_nat.simps char_of_def bit_0)
  have C: "cli_connect demo_cli" "full_writes demo_cli" "snd (io_wire (demo_io [])) = []" "is_cstr ''web''"
    "''{db}'' = cli_print demo_cli (kill_object ''web'' 1 (-1))" "is_cstr ''{db}''" "length ''{db}'' + 4 \<le> CHUNKSIZ"
    "tokener_parse ?E ''{db}'' = Some (kill_object ''web'' 1 (-1))"
    by (simp_all add: demo_cli_def demo_io_def full_writes_def is_cstr_def)
  have E: "fork_fresh ?E" using demo_fork by (simp add: fork_fresh_def)
  have s: "srv_ok ?s" "conns ?s 0 = Some ?c"
    using demo_ok [of "[]"] by (simp_all add: srv_ok_set_con demo_zombies_def)
  have a: "child_config_find_by_name ''web'' ?s = Some 1" "cfgs ?s 1 = Some demo_cc"
    using demo_find [of "[]"] by (simp_all add: set_con_def child_config_find_by_name_def)
  have p: "group_pids ?s demo_cc (kill_slots 1 demo_cc) = [102]" "acts ?s = []"
    by (simp_all add: group_pids_def kill_slots_def slot_ptrs_def map_filter_simps pid_of_def demo_proc_def set_con_def acts_def)
  from kill_reaches_processes [OF g o C E s demo_quiet a]
  show ?thesis unfolding p by (auto elim!: post_mono)
qed

end
