(* ===== verification/Notify.thy ===== *)
theory Notify
  imports Queries
begin

text \<open>
  Notifications: what \<open>send_notification\<close> queues for whom. The bytes of a notification are
  those of a reply in one chunk, so that a client reads both the same way.
\<close>

definition news :: "16 word \<Rightarrow> string \<Rightarrow> subscription list \<Rightarrow> addr \<Rightarrow> string" where
  "news n ret us con =
     concat (map (\<lambda>u. message_bytes (s_cid u) ret)
       (filter (\<lambda>u. s_client u = con \<and> s_ident u AND n \<noteq> 0) us))"

definition deliver :: "16 word \<Rightarrow> string \<Rightarrow> subscription list \<Rightarrow> server \<Rightarrow> server" where
  "deliver n ret us s =
     s\<lparr>conns := \<lambda>con. map_option (\<lambda>c. c\<lparr>c_out := c_out c @ news n ret us con\<rparr>) (conns s con)\<rparr>"

lemma con_same: "c\<lparr>c_out := c_out c\<rparr> = (c :: client_con)"
  by simp

lemma deliver_Nil [simp]: "deliver n ret [] s = s"
  by (simp add: deliver_def news_def map_option.id [unfolded id_def])

lemma news_Cons: "news n ret (u # us) con = news n ret [u] con @ news n ret us con"
  by (simp add: news_def)

lemma deliver_Cons: "deliver n ret us ((deliver n ret [u] s)\<lparr>tick := k\<rparr>) = (deliver n ret (u # us) s)\<lparr>tick := k\<rparr>"
  unfolding deliver_def news_Cons [of n ret u us] by (cases s) (simp add: option.map_comp comp_def)

lemma deliver_live: "conn_live con ((deliver n ret us s)\<lparr>tick := k\<rparr>) = conn_live con s"
  by (simp add: conn_live_def deliver_def)

lemma notify_one_queues:
  assumes w: "writes_ok E" and l: "length ret \<le> CHUNKSIZ" and c: "conn_live (s_client u) s"
  shows "\<exists>k. notify_one E n ret u s = Live ((deliver n ret [u] s)\<lparr>tick := k\<rparr>)"
proof (cases "s_ident u AND n = 0")
  case True
  then have "notify_one E n ret u s = Live ((deliver n ret [u] s)\<lparr>tick := tick s\<rparr>)"
    by (simp add: notify_one_def deliver_def news_def map_option.id [unfolded id_def])
  then show ?thesis by blast
next
  case False
  obtain c where c: "conns s (s_client u) = Some c" using c by (auto simp: conn_live_def)
  have ok: "bufferevent_write_ok E k" for k using w by (simp add: writes_ok_def)
  have m: "message_bytes (s_cid u) ret =
      store16 (htons (of_nat (length ret))) @ store16 (s_cid u) @ ret"
    using l by (simp add: message_bytes.simps [of _ ret] chunk_bytes_def)
  have "notify_one E n ret u s =
      Live (s\<lparr>tick := Suc (Suc (Suc (tick s))), conns := (conns s)(s_client u \<mapsto>
        c\<lparr>c_out := c_out c @ message_bytes (s_cid u) ret\<rparr>)\<rparr>)"
    using False c ok by (simp add: notify_one_def bufferevent_write_def ticked_def m)
  also have "\<dots> = Live ((deliver n ret [u] s)\<lparr>tick := Suc (Suc (Suc (tick s)))\<rparr>)"
    using False c by (cases s) (auto simp: deliver_def news_def fun_eq_iff map_option.id [unfolded id_def] option.map_ident)
  finally show ?thesis by blast
qed

lemma notify_all_queues:
  assumes "writes_ok E" and "length ret \<le> CHUNKSIZ"
  shows "\<forall>u \<in> set us. conn_live (s_client u) s \<Longrightarrow>
    \<exists>k. foldO (notify_one E n ret) us s = Live ((deliver n ret us s)\<lparr>tick := k\<rparr>)"
proof (induction us arbitrary: s)
  case Nil
  have "s = s\<lparr>tick := tick s\<rparr>" by simp
  then show ?case by (metis deliver_Nil foldO.simps(1))
next
  case (Cons u us)
  then obtain k where k: "notify_one E n ret u s = Live ((deliver n ret [u] s)\<lparr>tick := k\<rparr>)"
    using notify_one_queues [OF assms, of u s n] by auto
  have "\<forall>v \<in> set us. conn_live (s_client v) ((deliver n ret [u] s)\<lparr>tick := k\<rparr>)"
    using Cons.prems by (simp add: deliver_live)
  from Cons.IH [OF this] k show ?case by (auto simp: deliver_Cons)
qed

text \<open>
  C29. A notification reaches exactly the subscribers of its kind: when libevent takes the
  writes, it is queued once for every subscription that asked for one of its kinds, under the
  command id of that subscription, in the order of the list of subscriptions; nothing else
  changes. One that is longer than a chunk aborts the server.
\<close>

theorem notifications_reach_subscribers:
  assumes "writes_ok E" and "subs_live s"
  shows "if length ret \<le> CHUNKSIZ
    then \<exists>s'. send_notification E n ret s = Live s' \<and>
      s' = (deliver n ret (subscription_list s) s)\<lparr>tick := tick s'\<rparr>
    else send_notification E n ret s = Dead Aborted s"
proof (cases "length ret \<le> CHUNKSIZ")
  case True
  obtain k where "foldO (notify_one E n ret) (subscription_list s) s =
      Live ((deliver n ret (subscription_list s) s)\<lparr>tick := k\<rparr>)"
    using notify_all_queues [OF assms(1) True] assms(2) unfolding subs_live_def by blast
  with True show ?thesis by (simp add: send_notification_def)
qed (simp add: send_notification_def)

lemma notifications_reach_subscribers_witness:
  "\<exists>s' c. send_notification demo_env SUBS_STATUS ''up'' (demo_server []) = Live s' \<and> conns s' 0 = Some c \<and>
     c_out c = c_out demo_con @ message_bytes 1 ''up''"
proof -
  have "subs_live (demo_server [])" by (simp add: subs_live_def conn_live_def)
  from notifications_reach_subscribers [OF demo_writes this, of "''up''" SUBS_STATUS]
  obtain s' where s': "send_notification demo_env SUBS_STATUS ''up'' (demo_server []) = Live s'"
    "s' = (deliver SUBS_STATUS ''up'' (subscription_list (demo_server [])) (demo_server []))\<lparr>tick := tick s'\<rparr>"
    by auto
  have "conns s' 0 = Some (demo_con\<lparr>c_out := c_out demo_con @ message_bytes 1 ''up''\<rparr>)"
    by (subst s'(2)) (simp add: deliver_def news_def)
  with s'(1) show ?thesis by auto
qed

end
