(* ===== verification/Child.thy ===== *)
theory Child
  imports Supervise
begin

text \<open>
  The process after \<open>fork\<close>, between the server and the command it is to run
  (\<open>spawn_child\<close>, \<open>spawn_child_setids\<close> and \<open>spawn_child_log\<close> in cmd_server.c): its credentials,
  its descriptors, and the end of the socket pair on which it reports a failure to the
  server. This is what happens in the child of an \<open>EvChild\<close> effect. The user and group
  databases, the outcome of \<open>chdir\<close>, \<open>open\<close> and \<open>execv\<close> and the texts of \<open>strerror\<close> are
  parameters; the calls that set ids follow POSIX, where user 0 is the privileged one.
\<close>

section \<open>Credentials\<close>

record creds =
  ruid :: "32 word"
  euid :: "32 word"
  suid :: "32 word"
  rgid :: "32 word"
  egid :: "32 word"
  sgid :: "32 word"
  groups :: "32 word list"

definition setuid :: "32 word \<Rightarrow> creds \<Rightarrow> creds option" where
  "setuid u c =
     (if euid c = 0 then Some (c\<lparr>ruid := u, euid := u, suid := u\<rparr>)
      else if u = ruid c \<or> u = suid c then Some (c\<lparr>euid := u\<rparr>) else None)"

definition seteuid :: "32 word \<Rightarrow> creds \<Rightarrow> creds option" where
  "seteuid u c =
     (if euid c = 0 \<or> u = ruid c \<or> u = euid c \<or> u = suid c then Some (c\<lparr>euid := u\<rparr>) else None)"

definition setgid :: "32 word \<Rightarrow> creds \<Rightarrow> creds option" where
  "setgid g c =
     (if euid c = 0 then Some (c\<lparr>rgid := g, egid := g, sgid := g\<rparr>)
      else if g = rgid c \<or> g = sgid c then Some (c\<lparr>egid := g\<rparr>) else None)"

definition setegid :: "32 word \<Rightarrow> creds \<Rightarrow> creds option" where
  "setegid g c =
     (if euid c = 0 \<or> g = rgid c \<or> g = egid c \<or> g = sgid c then Some (c\<lparr>egid := g\<rparr>) else None)"

section \<open>The forked process\<close>

text \<open>A descriptor is a log file, the report end of the socket pair, or one of the server's.\<close>

datatype descriptor = File string | Report | Inherited

record forked =
  fk_cred :: creds
  fk_cwd :: "string option"
  fk_fds :: "descriptor option list"
  fk_report :: string
  fk_errno :: int
  fk_leader :: bool

record host =
  getpwnam :: "string \<Rightarrow> 32 word option"
  getgrnam :: "string \<Rightarrow> 32 word option"
  chdir_ok :: "string \<Rightarrow> bool"
  open_ok :: "string \<Rightarrow> bool"
  execv_ok :: "string \<Rightarrow> string list \<Rightarrow> bool"
  errno_after :: "string \<Rightarrow> int \<Rightarrow> int"
  strerror :: "int \<Rightarrow> string"

text \<open>A call that fails leaves its \<open>errno\<close>.\<close>

definition sys_fails :: "host \<Rightarrow> string \<Rightarrow> forked \<Rightarrow> forked" where
  "sys_fails H func f = f\<lparr>fk_errno := errno_after H func (fk_errno f)\<rparr>"

definition fd_close :: "nat \<Rightarrow> forked \<Rightarrow> forked" where
  "fd_close n f = f\<lparr>fk_fds := (fk_fds f)[n := None]\<rparr>"

text \<open>\<open>open\<close> takes the lowest free descriptor.\<close>

definition fd_open :: "string \<Rightarrow> forked \<Rightarrow> nat \<times> forked" where
  "fd_open path f =
     (let n = length (takeWhile (\<lambda>d. d \<noteq> None) (fk_fds f))
      in (n, f\<lparr>fk_fds := take n (fk_fds f) @ [Some (File path)] @ drop (Suc n) (fk_fds f)\<rparr>))"

definition fd_dup2 :: "nat \<Rightarrow> nat \<Rightarrow> forked \<Rightarrow> forked" where
  "fd_dup2 a b f = (if fk_fds f ! a = None then f else f\<lparr>fk_fds := (fk_fds f)[b := fk_fds f ! a]\<rparr>)"

definition fd_write :: "nat \<Rightarrow> string \<Rightarrow> forked \<Rightarrow> forked" where
  "fd_write n bs f =
     (if n < length (fk_fds f) \<and> fk_fds f ! n = Some Report then f\<lparr>fk_report := fk_report f @ bs\<rparr> else f)"

section \<open>spawn_child\<close>

abbreviation (input) quote :: string where "quote \<equiv> [CHR 0x22]"

text \<open>A message that fills the buffer is sent with its terminating NUL.\<close>

definition spawn_child_log :: "host \<Rightarrow> child_config \<Rightarrow> string \<Rightarrow> nat \<Rightarrow> forked \<Rightarrow> forked" where
  "spawn_child_log H cc func fd f =
     (let msg = ''spawn failed for '' @ quote @ fmt_s (cc_name cc) @ quote @ '': '' @ func @
            (if fk_errno f \<noteq> 0 then '': '' @ strerror H (fk_errno f) else '' failed'') @ [newline];
          r = min (length msg) 1024
      in fd_write fd (take r (snprintf_buf 1024 msg @ [NUL])) f)"

definition give_up :: "host \<Rightarrow> child_config \<Rightarrow> string \<Rightarrow> nat \<Rightarrow> forked \<Rightarrow> (forked, 'a) outcome" where
  "give_up H cc func pfd f = Dead (Exited 1) (spawn_child_log H cc func pfd f)"

text \<open>A call of the \<open>setuid\<close> family that has to succeed, and one that has to fail.\<close>

definition must_set ::
  "host \<Rightarrow> child_config \<Rightarrow> string \<Rightarrow> nat \<Rightarrow> (creds \<Rightarrow> creds option) \<Rightarrow> forked \<Rightarrow> (forked, forked) outcome" where
  "must_set H cc func pfd set_id f =
     (case set_id (fk_cred f) of
        None \<Rightarrow> give_up H cc func pfd (sys_fails H func f)
      | Some c \<Rightarrow> Live (f\<lparr>fk_cred := c\<rparr>))"

definition must_fail ::
  "host \<Rightarrow> child_config \<Rightarrow> string \<Rightarrow> nat \<Rightarrow> (creds \<Rightarrow> creds option) \<Rightarrow> forked \<Rightarrow> (forked, forked) outcome" where
  "must_fail H cc func pfd set_id f =
     (case set_id (fk_cred f) of
        None \<Rightarrow> Live (sys_fails H func f)
      | Some c \<Rightarrow> give_up H cc func pfd (f\<lparr>fk_cred := c\<rparr>))"

definition setids_gid :: "host \<Rightarrow> child_config \<Rightarrow> nat \<Rightarrow> forked \<Rightarrow> (forked, forked) outcome" where
  "setids_gid H cc pfd f =
     (if cc_gid cc \<noteq> -1
      then bindO (must_set H cc ''setgid'' pfd (setgid (word_of_int (cc_gid cc))) f)
             (must_set H cc ''setegid'' pfd (setegid (word_of_int (cc_gid cc))))
      else Live f)"

definition setids_uid :: "host \<Rightarrow> child_config \<Rightarrow> nat \<Rightarrow> forked \<Rightarrow> (forked, forked) outcome" where
  "setids_uid H cc pfd f =
     (if cc_uid cc \<noteq> -1
      then bindO (must_set H cc ''setuid'' pfd (setuid (word_of_int (cc_uid cc))) f) (\<lambda>f.
           bindO (must_set H cc ''seteuid'' pfd (seteuid (word_of_int (cc_uid cc))) f) (\<lambda>f.
           if cc_uid cc \<noteq> 0 then must_fail H cc ''setuid'' pfd (setuid 0) f else Live f))
      else Live f)"

definition spawn_child_setids :: "host \<Rightarrow> child_config \<Rightarrow> nat \<Rightarrow> forked \<Rightarrow> (forked, child_config \<times> forked) outcome" where
  "spawn_child_setids H cc pfd f =
     (case (case cc_username cc of
              None \<Rightarrow> Some cc
            | Some u \<Rightarrow> map_option (\<lambda>uid. cc\<lparr>cc_uid := sint uid\<rparr>) (getpwnam H u)) of
        None \<Rightarrow> give_up H cc ''getpwnam'' pfd (sys_fails H ''getpwnam'' f)
      | Some cc \<Rightarrow>
          (case (case cc_groupname cc of
                   None \<Rightarrow> Some cc
                 | Some g \<Rightarrow> map_option (\<lambda>gid. cc\<lparr>cc_gid := sint gid\<rparr>) (getgrnam H g)) of
             None \<Rightarrow> give_up H cc ''getgrnam'' pfd (sys_fails H ''getgrnam'' f)
           | Some cc \<Rightarrow>
               bindO (setids_gid H cc pfd f) (\<lambda>f.
               bindO (setids_uid H cc pfd f) (\<lambda>f.
               bindO (if cc_gid cc > 0 then must_fail H cc ''setgid'' pfd (setgid 0) f else Live f) (\<lambda>f.
               Live (cc, f))))))"

text \<open>
  One stream: the file name with the instance number, then \<open>open\<close>, \<open>dup2\<close> and \<open>close\<close>.
  After a failed \<open>open\<close> the other two fail as well and the start goes on.
\<close>

definition open_stream :: "host \<Rightarrow> child_config \<Rightarrow> string option \<Rightarrow> string \<Rightarrow> nat \<Rightarrow> string \<Rightarrow> nat \<Rightarrow> forked
    \<Rightarrow> (forked, forked) outcome" where
  "open_stream H cc path num target func pfd f =
     (case path of
        None \<Rightarrow> Live f
      | Some path \<Rightarrow>
          bindO (at_state f (replace_str (path @ [NUL]) ''%(NUM)'' num)) (\<lambda>m.
          if \<not> open_ok H (cstr m) then Live (spawn_child_log H cc func pfd (sys_fails H func f))
          else let (fd, f) = fd_open (cstr m) f
               in Live (fd_close fd (fd_dup2 fd target f))))"

text \<open>
  The value is the image that runs: the path, the arguments, and the process with the
  close-on-exec descriptors gone.
\<close>

definition execv :: "host \<Rightarrow> string \<Rightarrow> string list \<Rightarrow> forked \<Rightarrow> (string \<times> string list \<times> forked) option" where
  "execv H path argv f =
     (if execv_ok H path argv
      then Some (path, argv, f\<lparr>fk_fds := map (\<lambda>d. if d = Some Report then None else d) (fk_fds f)\<rparr>)
      else None)"

definition enter_dir :: "host \<Rightarrow> child_config \<Rightarrow> nat \<Rightarrow> forked \<Rightarrow> (forked, forked) outcome" where
  "enter_dir H cc pfd f =
     (case cc_dir cc of
        None \<Rightarrow> Live f
      | Some d \<Rightarrow> if \<not> chdir_ok H d then give_up H cc ''chdir'' pfd (sys_fails H ''chdir'' f)
                 else Live (f\<lparr>fk_cwd := Some d\<rparr>))"

definition exec_command :: "host \<Rightarrow> child_config \<Rightarrow> nat \<Rightarrow> forked
    \<Rightarrow> (forked, string \<times> string list \<times> forked) outcome" where
  "exec_command H cc pfd f =
     (let f = f\<lparr>fk_leader := True\<rparr>
      in case cc_command cc of
           None \<Rightarrow> Dead Undefined f
         | Some argv \<Rightarrow>
             (case (if argv = [] then None else execv H (hd argv) argv f) of
                None \<Rightarrow> give_up H cc ''execv'' pfd (sys_fails H ''execv'' f)
              | Some img \<Rightarrow> Live img))"

definition spawn_child :: "host \<Rightarrow> child_config \<Rightarrow> nat \<Rightarrow> nat \<Rightarrow> forked
    \<Rightarrow> (forked, string \<times> string list \<times> forked) outcome" where
  "spawn_child H cc inst pfd f =
     (let instance_str = snprintf_buf 5 (show_int (int inst))
      in bindO (spawn_child_setids H cc pfd f) (\<lambda>(cc, f).
         bindO (enter_dir H cc pfd f) (\<lambda>f.
         bindO (open_stream H cc (cc_stdout cc) instance_str 1 ''open (stdout)'' pfd
                  (fd_close 2 (fd_close 1 (fd_close 0 f)))) (\<lambda>f.
         bindO (open_stream H cc (cc_stderr cc) instance_str 2 ''open (stderr)'' pfd f) (\<lambda>f.
         exec_command H cc pfd f)))))"

section \<open>Credentials of the command\<close>

text \<open>The ids the group asks for: those of its user and group name, else its numbers.\<close>

definition target_uid :: "host \<Rightarrow> child_config \<Rightarrow> int option" where
  "target_uid H cc =
     (case cc_username cc of None \<Rightarrow> Some (cc_uid cc) | Some u \<Rightarrow> map_option sint (getpwnam H u))"

definition target_gid :: "host \<Rightarrow> child_config \<Rightarrow> int option" where
  "target_gid H cc =
     (case cc_groupname cc of None \<Rightarrow> Some (cc_gid cc) | Some g \<Rightarrow> map_option sint (getgrnam H g))"

lemma groups_kept:
  "setuid u c = Some c' \<Longrightarrow> groups c' = groups c"
  "seteuid u c = Some c' \<Longrightarrow> groups c' = groups c"
  "setgid g c = Some c' \<Longrightarrow> groups c' = groups c"
  "setegid g c = Some c' \<Longrightarrow> groups c' = groups c"
  by (auto simp: setuid_def seteuid_def setgid_def setegid_def split: if_splits)

lemma bindO_LiveE:
  assumes "bindO m k = Live y"
  obtains x where "m = Live x" and "k x = Live y"
  using assms by (cases m) auto

lemma must_set_Live:
  "must_set H cc func pfd g f = Live f' \<longleftrightarrow> (\<exists>c. g (fk_cred f) = Some c \<and> f' = f\<lparr>fk_cred := c\<rparr>)"
  by (auto simp: must_set_def give_up_def split: option.split)

lemma must_fail_Live:
  "must_fail H cc func pfd g f = Live f' \<longleftrightarrow> g (fk_cred f) = None \<and> f' = sys_fails H func f"
  by (auto simp: must_fail_def give_up_def split: option.split)

lemma sys_fails_simps [simp]:
  "fk_cred (sys_fails H func f) = fk_cred f" "fk_fds (sys_fails H func f) = fk_fds f"
  "fk_report (sys_fails H func f) = fk_report f" "fk_cwd (sys_fails H func f) = fk_cwd f"
  by (simp_all add: sys_fails_def)

text \<open>What the user part and the group part leave of the credentials.\<close>

definition uid_set :: "int \<Rightarrow> creds \<Rightarrow> creds \<Rightarrow> bool" where
  "uid_set u c c' \<longleftrightarrow>
     rgid c' = rgid c \<and> egid c' = egid c \<and> sgid c' = sgid c \<and> groups c' = groups c \<and>
     (if u = -1 then c' = c
      else euid c' = word_of_int u \<and> (euid c = 0 \<longrightarrow> ruid c' = word_of_int u \<and> suid c' = word_of_int u) \<and>
           (u \<noteq> 0 \<longrightarrow> setuid 0 c' = None))"

definition gid_set :: "int \<Rightarrow> creds \<Rightarrow> creds \<Rightarrow> bool" where
  "gid_set g c c' \<longleftrightarrow>
     ruid c' = ruid c \<and> euid c' = euid c \<and> suid c' = suid c \<and> groups c' = groups c \<and>
     (if g = -1 then c' = c
      else egid c' = word_of_int g \<and> (euid c = 0 \<longrightarrow> rgid c' = word_of_int g \<and> sgid c' = word_of_int g))"

lemma setids_gid_Live:
  "setids_gid H cc pfd f = Live f' \<Longrightarrow>
   gid_set (cc_gid cc) (fk_cred f) (fk_cred f') \<and> fk_fds f' = fk_fds f \<and> fk_report f' = fk_report f"
  by (auto simp: setids_gid_def gid_set_def bindO_Live_iff must_set_Live setgid_def setegid_def split: if_splits)

lemma setids_uid_Live:
  assumes "setids_uid H cc pfd f = Live f'"
  shows "uid_set (cc_uid cc) (fk_cred f) (fk_cred f') \<and> fk_fds f' = fk_fds f \<and> fk_report f' = fk_report f"
proof (cases "cc_uid cc = -1")
  case True
  with assms show ?thesis by (simp add: setids_uid_def uid_set_def)
next
  case False
  let ?u = "word_of_int (cc_uid cc) :: 32 word"
  from False assms obtain c1 c2 where c: "setuid ?u (fk_cred f) = Some c1" "seteuid ?u c1 = Some c2"
    and r: "cc_uid cc \<noteq> 0 \<longrightarrow> setuid 0 c2 = None"
    and f': "fk_cred f' = c2" "fk_fds f' = fk_fds f" "fk_report f' = fk_report f"
    by (cases "cc_uid cc = 0") (auto simp: setids_uid_def bindO_Live_iff must_set_Live must_fail_Live)
  have "euid c2 = ?u" "euid (fk_cred f) = 0 \<longrightarrow> ruid c2 = ?u \<and> suid c2 = ?u"
    "rgid c2 = rgid (fk_cred f)" "egid c2 = egid (fk_cred f)" "sgid c2 = sgid (fk_cred f)"
    "groups c2 = groups (fk_cred f)"
    using c by (auto simp: setuid_def seteuid_def split: if_splits)
  with False r f' show ?thesis by (simp add: uid_set_def)
qed

lemma setids_Live:
  assumes "spawn_child_setids H cc pfd f = Live (cc', f')"
  obtains u g c where "target_uid H cc = Some u" and "target_gid H cc = Some g"
    and "cc' = cc\<lparr>cc_uid := u, cc_gid := g\<rparr>"
    and "gid_set g (fk_cred f) c" and "uid_set u c (fk_cred f')"
    and "0 < g \<longrightarrow> setgid 0 (fk_cred f') = None"
    and "fk_fds f' = fk_fds f" and "fk_report f' = fk_report f"
proof -
  obtain u where u: "target_uid H cc = Some u"
    using assms by (auto simp: spawn_child_setids_def target_uid_def give_up_def split: option.splits)
  obtain g where g: "target_gid H cc = Some g"
    using assms u by (auto simp: spawn_child_setids_def target_uid_def target_gid_def give_up_def
        split: option.splits)
  let ?cc = "cc\<lparr>cc_uid := u, cc_gid := g\<rparr>"
  have cc: "(case cc_groupname cc1 of None \<Rightarrow> Some cc1
      | Some g \<Rightarrow> map_option (\<lambda>gid. cc1\<lparr>cc_gid := sint gid\<rparr>) (getgrnam H g)) = Some ?cc"
    if "cc1 = cc\<lparr>cc_uid := u\<rparr>" for cc1
    using g that by (cases cc) (auto simp: target_gid_def split: option.splits)
  have "(case cc_username cc of None \<Rightarrow> Some cc
      | Some u \<Rightarrow> map_option (\<lambda>uid. cc\<lparr>cc_uid := sint uid\<rparr>) (getpwnam H u)) = Some (cc\<lparr>cc_uid := u\<rparr>)"
    using u by (cases cc) (auto simp: target_uid_def split: option.splits)
  with assms have "bindO (setids_gid H ?cc pfd f) (\<lambda>f.
      bindO (setids_uid H ?cc pfd f) (\<lambda>f.
      bindO (if cc_gid ?cc > 0 then must_fail H ?cc ''setgid'' pfd (setgid 0) f else Live f) (\<lambda>f.
      Live (?cc, f)))) = Live (cc', f')"
    unfolding spawn_child_setids_def by (simp only: option.case cc [OF refl])
  then obtain f1 f2 where f: "setids_gid H ?cc pfd f = Live f1" "setids_uid H ?cc pfd f1 = Live f2"
    "cc' = ?cc" "0 < g \<longrightarrow> setgid 0 (fk_cred f2) = None"
    "fk_cred f' = fk_cred f2" "fk_fds f' = fk_fds f2" "fk_report f' = fk_report f2"
    by (auto simp: bindO_Live_iff must_fail_Live split: if_splits)
  show thesis
    by (rule that [OF u g f(3), of "fk_cred f1"])
      (use f setids_gid_Live [OF f(1)] setids_uid_Live [OF f(2)] in simp_all)
qed

section \<open>Streams of the command\<close>


lemma instance_str: "inst < 10000 \<Longrightarrow> snprintf_buf 5 (show_int (int inst)) = show_nat inst"
  using show_nat_length [of inst 3] by (simp add: snprintf_buf_def show_int_def)





lemma enter_dir_Live:
  "enter_dir H cc pfd f = Live f' \<longleftrightarrow>
   pred_option (chdir_ok H) (cc_dir cc) \<and>
   f' = f\<lparr>fk_cwd := (case cc_dir cc of None \<Rightarrow> fk_cwd f | Some d \<Rightarrow> Some d)\<rparr>"
  by (auto simp: enter_dir_def give_up_def split: option.splits)

lemma exec_command_Live:
  "exec_command H cc pfd f = Live (path, argv, f') \<longleftrightarrow>
   cc_command cc = Some argv \<and> argv \<noteq> [] \<and> path = hd argv \<and> execv_ok H path argv \<and>
   f' = f\<lparr>fk_leader := True, fk_fds := map (\<lambda>d. if d = Some Report then None else d) (fk_fds f)\<rparr>"
  by (auto simp: exec_command_def execv_def give_up_def Let_def split: option.splits if_splits)

lemma open_stream_cred:
  "open_stream H cc p num n func pfd f = Live f' \<Longrightarrow> fk_cred f' = fk_cred f \<and> fk_cwd f' = fk_cwd f"
  by (auto simp: open_stream_def fd_open_def fd_close_def fd_dup2_def spawn_child_log_def
      fd_write_def Let_def elim!: bindO_LiveE split: option.splits if_splits)

lemma spawn_child_cred:
  assumes "spawn_child H cc inst pfd f = Live (path, argv, f')"
  obtains cc1 f1 where "spawn_child_setids H cc pfd f = Live (cc1, f1)" and "fk_cred f' = fk_cred f1"
proof -
  let ?num = "snprintf_buf 5 (show_int (int inst))"
  from assms obtain cc1 f1 f2 f3 f4 where f: "spawn_child_setids H cc pfd f = Live (cc1, f1)"
    "enter_dir H cc1 pfd f1 = Live f2"
    "open_stream H cc1 (cc_stdout cc1) ?num 1 ''open (stdout)'' pfd (fd_close 2 (fd_close 1 (fd_close 0 f2))) = Live f3"
    "open_stream H cc1 (cc_stderr cc1) ?num 2 ''open (stderr)'' pfd f3 = Live f4"
    "exec_command H cc1 pfd f4 = Live (path, argv, f')"
    unfolding spawn_child_def Let_def by (elim bindO_LiveE) (clarsimp elim!: bindO_LiveE)
  have "fk_cred f' = fk_cred f1"
    using f(2,5) open_stream_cred [OF f(3)] open_stream_cred [OF f(4)]
    by (simp add: enter_dir_Live exec_command_Live fd_close_def)
  with f(1) that show thesis by blast
qed

section \<open>Properties\<close>

text \<open>
  C33. A command runs under the ids of its group: when it runs, the effective user and group
  are those the group names, for a server that runs as root also the real and saved ones,
  and neither user 0 nor group 0 can be had back. What the group does not name stays as it
  is. So do the supplementary groups, always: a command that runs as an unprivileged user
  keeps those of the server.
\<close>

theorem command_runs_as_group_user:
  assumes "spawn_child H cc inst pfd f = Live (path, argv, f')"
  shows "\<exists>u g. target_uid H cc = Some u \<and> target_gid H cc = Some g \<and>
    (u \<noteq> -1 \<longrightarrow> euid (fk_cred f') = word_of_int u) \<and> (g \<noteq> -1 \<longrightarrow> egid (fk_cred f') = word_of_int g) \<and>
    (euid (fk_cred f) = 0 \<longrightarrow>
       (u \<noteq> -1 \<longrightarrow> ruid (fk_cred f') = word_of_int u \<and> suid (fk_cred f') = word_of_int u) \<and>
       (g \<noteq> -1 \<longrightarrow> rgid (fk_cred f') = word_of_int g \<and> sgid (fk_cred f') = word_of_int g)) \<and>
    (u \<noteq> -1 \<and> u \<noteq> 0 \<longrightarrow> setuid 0 (fk_cred f') = None) \<and>
    (0 < g \<longrightarrow> setgid 0 (fk_cred f') = None) \<and>
    (u = -1 \<and> g = -1 \<longrightarrow> fk_cred f' = fk_cred f) \<and>
    groups (fk_cred f') = groups (fk_cred f)"
proof -
  obtain cc1 f1 where 1: "spawn_child_setids H cc pfd f = Live (cc1, f1)" "fk_cred f' = fk_cred f1"
    by (rule spawn_child_cred [OF assms])
  obtain u g c where "target_uid H cc = Some u" "target_gid H cc = Some g"
    "gid_set g (fk_cred f) c" "uid_set u c (fk_cred f1)" "0 < g \<longrightarrow> setgid 0 (fk_cred f1) = None"
    by (rule setids_Live [OF 1(1)])
  with 1(2) show ?thesis
    by (intro exI [of _ u] exI [of _ g]) (auto simp: gid_set_def uid_set_def split: if_splits)
qed

definition demo_host :: host where
  "demo_host =
     \<lparr>getpwnam = (\<lambda>n. if n = ''www'' then Some 33 else None), getgrnam = (\<lambda>n. None), chdir_ok = (\<lambda>d. True),
      open_ok = (\<lambda>p. True), execv_ok = (\<lambda>p a. p = ''/bin/web''), errno_after = (\<lambda>c e. 1),
      strerror = (\<lambda>e. ''Operation not permitted'')\<rparr>"

definition root_creds :: creds where
  "root_creds = \<lparr>ruid = 0, euid = 0, suid = 0, rgid = 0, egid = 0, sgid = 0, groups = [0, 4]\<rparr>"

definition demo_forked :: forked where
  "demo_forked = \<lparr>fk_cred = root_creds, fk_cwd = None,
     fk_fds = [Some Inherited, Some Inherited, Some Inherited, Some Report], fk_report = [], fk_errno = 0,
     fk_leader = False\<rparr>"

definition web_cc :: child_config where
  "web_cc = child_config_new\<lparr>cc_name := Some ''web'', cc_command := Some [''/bin/web'', ''-p''],
     cc_username := Some ''www'', cc_stdout := Some ''/log/web.%(NUM)''\<rparr>"

lemma web_runs:
  "\<exists>f'. spawn_child demo_host web_cc 7 3 demo_forked = Live (''/bin/web'', [''/bin/web'', ''-p''], f')"
  by (simp add: spawn_child_def spawn_child_setids_def web_cc_def demo_host_def demo_forked_def root_creds_def
      child_config_new_def setids_gid_def setids_uid_def must_set_def must_fail_def setuid_def seteuid_def
      enter_dir_def open_stream_def replace_str_def mem_write_def instance_str exec_command_def execv_def
      sys_fails_def show_nat.simps [of 7] cstr_def fd_open_def fd_close_def fd_dup2_def Let_def)

lemma command_runs_as_group_user_witness:
  "\<exists>f'. spawn_child demo_host web_cc 7 3 demo_forked = Live (''/bin/web'', [''/bin/web'', ''-p''], f') \<and>
     euid (fk_cred f') = 33 \<and> setuid 0 (fk_cred f') = None \<and> groups (fk_cred f') = [0, 4]"
proof -
  obtain f' where f': "spawn_child demo_host web_cc 7 3 demo_forked = Live (''/bin/web'', [''/bin/web'', ''-p''], f')"
    using web_runs by blast
  have "target_uid demo_host web_cc = Some 33"
    by (simp add: target_uid_def web_cc_def demo_host_def child_config_new_def)
  with command_runs_as_group_user [OF f'] f' show ?thesis
    by (auto simp: demo_forked_def root_creds_def)
qed



lemma spawn_child_log_reports:
  assumes "pfd < length (fk_fds f)" and "fk_fds f ! pfd = Some Report"
  shows "fk_report (spawn_child_log H cc func pfd f) \<noteq> fk_report f"
  using assms by (simp add: spawn_child_log_def fd_write_def Let_def snprintf_buf_def)

lemma must_fail_dies:
  "g (fk_cred f) = Some c \<Longrightarrow>
   must_fail H cc func pfd g f = Dead (Exited 1) (spawn_child_log H cc func pfd (f\<lparr>fk_cred := c\<rparr>))"
  by (simp add: must_fail_def give_up_def)

text \<open>
  C37. A group that names a group id but no user, or user 0, cannot be started by a server
  that runs as root: the check that group 0 cannot be had back succeeds in getting it, and
  every such child reports a failed \<open>setgid\<close> and exits before its command.
\<close>

theorem gid_alone_never_starts:
  assumes "euid (fk_cred f) = 0" and "target_uid H cc \<in> {Some (-1), Some 0}"
    and "target_gid H cc = Some g" and "0 < g"
    and "pfd < length (fk_fds f)" and "fk_fds f ! pfd = Some Report"
  shows "\<exists>f'. spawn_child H cc inst pfd f = Dead (Exited 1) f' \<and> fk_report f' \<noteq> fk_report f"
proof -
  from assms(2) obtain u where u: "target_uid H cc = Some u" "u = -1 \<or> u = 0" by auto
  have 1: "(case cc_username cc of None \<Rightarrow> Some cc
      | Some u \<Rightarrow> map_option (\<lambda>uid. cc\<lparr>cc_uid := sint uid\<rparr>) (getpwnam H u)) = Some (cc\<lparr>cc_uid := u\<rparr>)"
    using u by (cases cc) (auto simp: target_uid_def split: option.splits)
  let ?cc = "cc\<lparr>cc_uid := u, cc_gid := g\<rparr>"
  have 2: "(case cc_groupname cc1 of None \<Rightarrow> Some cc1
      | Some g \<Rightarrow> map_option (\<lambda>gid. cc1\<lparr>cc_gid := sint gid\<rparr>) (getgrnam H g)) = Some ?cc"
    if "cc1 = cc\<lparr>cc_uid := u\<rparr>" for cc1
    using assms(3) that by (cases cc) (auto simp: target_gid_def split: option.splits)
  let ?g = "word_of_int g :: 32 word"
  let ?c1 = "(fk_cred f)\<lparr>rgid := ?g, egid := ?g, sgid := ?g\<rparr>"
  have gid: "setids_gid H ?cc pfd f = Live (f\<lparr>fk_cred := ?c1\<rparr>)"
    using assms(1,4) by (simp add: setids_gid_def must_set_def setgid_def setegid_def)
  obtain f2 where f2: "setids_uid H ?cc pfd (f\<lparr>fk_cred := ?c1\<rparr>) = Live f2" "euid (fk_cred f2) = 0"
    "fk_fds f2 = fk_fds f" "fk_report f2 = fk_report f"
    using assms(1) u(2) by (auto simp: setids_uid_def must_set_def setuid_def seteuid_def)
  obtain c where c: "setgid 0 (fk_cred f2) = Some c" using f2(2) by (simp add: setgid_def)
  have "spawn_child_setids H cc pfd f =
      Dead (Exited 1) (spawn_child_log H ?cc ''setgid'' pfd (f2\<lparr>fk_cred := c\<rparr>))"
    unfolding spawn_child_setids_def 1 option.case 2 [OF refl] gid bindO.simps f2(1)
    using must_fail_dies [where g = "setgid 0", OF c, of H ?cc "''setgid''" pfd] assms(4) by simp
  then have "spawn_child H cc inst pfd f =
      Dead (Exited 1) (spawn_child_log H ?cc ''setgid'' pfd (f2\<lparr>fk_cred := c\<rparr>))"
    by (simp add: spawn_child_def)
  moreover have "fk_report (spawn_child_log H ?cc ''setgid'' pfd (f2\<lparr>fk_cred := c\<rparr>)) \<noteq> fk_report f"
    using spawn_child_log_reports [of pfd "f2\<lparr>fk_cred := c\<rparr>" H ?cc "''setgid''"] assms(5,6) f2(3,4) by simp
  ultimately show ?thesis by blast
qed

lemma gid_alone_never_starts_witness:
  "\<exists>f'. spawn_child demo_host (web_cc\<lparr>cc_username := None, cc_gid := 33\<rparr>) 7 3 demo_forked = Dead (Exited 1) f' \<and>
     fk_report f' \<noteq> fk_report demo_forked"
  by (rule gid_alone_never_starts [where g = 33])
    (simp_all add: target_uid_def target_gid_def web_cc_def child_config_new_def demo_forked_def root_creds_def)

end
