(* ===== verification/Runs.thy ===== *)
theory Runs
  imports Prelude
begin

text \<open>
  Runs of a component as sequences of operations or events, each of which may be refused. The
  two locales are the interfaces the components provide: an invariant every step keeps, and a
  simulation of an abstract step by a concrete one; their lemmas lift both to whole runs.
\<close>

fun run :: "('e \<Rightarrow> 's \<Rightarrow> 's option) \<Rightarrow> 'e list \<Rightarrow> 's \<Rightarrow> 's option" where
  "run step [] s = Some s"
| "run step (e # es) s = (case step e s of None \<Rightarrow> None | Some s' \<Rightarrow> run step es s')"

fun_cases run_ConsE: "run step (e # es) s = Some s'"

lemma run_append: "run step (es @ es') s = Option.bind (run step es s) (run step es')"
  by (induction es arbitrary: s) (auto split: option.split)

locale invariant =
  fixes step :: "'e \<Rightarrow> 's \<Rightarrow> 's option"
    and inv :: "'s \<Rightarrow> bool"
  assumes step_inv: "inv s \<Longrightarrow> step e s = Some s' \<Longrightarrow> inv s'"
begin

lemma run_inv: "inv s \<Longrightarrow> run step es s = Some s' \<Longrightarrow> inv s'"
  by (induction es arbitrary: s) (auto elim!: run_ConsE intro: step_inv split: option.splits)

end

locale simulation =
  fixes cstep :: "'e \<Rightarrow> 's \<Rightarrow> 's option"
    and astep :: "'e \<Rightarrow> 'a \<Rightarrow> 'a option"
    and rel :: "'s \<Rightarrow> 'a \<Rightarrow> bool"
  assumes step_sim: "rel s a \<Longrightarrow> astep e a = Some a' \<Longrightarrow> \<exists>s'. cstep e s = Some s' \<and> rel s' a'"
begin

lemma run_sim: "rel s a \<Longrightarrow> run astep es a = Some a' \<Longrightarrow> \<exists>s'. run cstep es s = Some s' \<and> rel s' a'"
proof (induction es arbitrary: s a)
  case Nil
  then show ?case by simp
next
  case (Cons e es)
  then obtain b where "astep e a = Some b" "run astep es b = Some a'" by (auto split: option.splits)
  with Cons step_sim show ?case by fastforce
qed

end

end
