(* ===== verification/Links.thy ===== *)
theory Links
  imports Config Runs "HOL-Library.Monad_Syntax"
begin

text \<open>
  What the four families of macros in compat/queue.h share. Their memory has pointer
  variables, which are the heads and the next fields of the elements; some families also keep
  in each element the address of the pointer variable that points to it, and in each head the
  address of the last pointer variable. Heads are numbered; one memory stands for the elements
  of one type. The section on lists says when such a memory holds lists, one predicate per
  kind of field; the two locales carry the proofs that are the same for every family.
\<close>

section \<open>Memory and loops\<close>

text \<open>A pointer variable, that is what \<open>struct type **\<close> points to.\<close>

datatype link = Head nat | Next addr

text \<open>
  The elements a loop \<open>for (var = ...; var; var = next)\<close> visits; a cycle keeps it going for ever,
  which is \<open>None\<close>. The safe loop reads the successor before its body runs, which may change the
  memory; the body of a removing loop removes the elements that match.
\<close>

partial_function (option) visits :: "(addr \<Rightarrow> addr option) \<Rightarrow> addr option \<Rightarrow> addr list option" where
  "visits nxt var =
     (case var of
        None \<Rightarrow> Some []
      | Some e \<Rightarrow> do { es \<leftarrow> visits nxt (nxt e); Some (e # es) })"

partial_function (option) safe_loop ::
    "(addr \<Rightarrow> 'm \<Rightarrow> addr option) \<Rightarrow> (addr \<Rightarrow> 'm \<Rightarrow> 'm option) \<Rightarrow> addr option \<Rightarrow> 'm \<Rightarrow> 'm option" where
  "safe_loop nxt body var m =
     (case var of
        None \<Rightarrow> Some m
      | Some e \<Rightarrow>
          (let tvar = nxt e m in do { m \<leftarrow> body e m; safe_loop nxt body tvar m }))"

definition if_matches :: "(addr \<Rightarrow> bool) \<Rightarrow> (addr \<Rightarrow> 'm \<Rightarrow> 'm option) \<Rightarrow> addr \<Rightarrow> 'm \<Rightarrow> 'm option" where
  "if_matches P remove e m = (if P e then remove e m else Some m)"

lemma if_matches_simps [simp]:
  "P e \<Longrightarrow> if_matches P remove e m = remove e m" "\<not> P e \<Longrightarrow> if_matches P remove e m = Some m"
  by (simp_all add: if_matches_def)

section \<open>Lists\<close>

text \<open>From link \<open>l\<close> on, the next fields lead through \<open>xs\<close>; a path ends in \<open>NULL\<close>.\<close>

primrec reach :: "(link \<Rightarrow> addr option) \<Rightarrow> link \<Rightarrow> addr list \<Rightarrow> bool" where
  "reach p l [] \<longleftrightarrow> True"
| "reach p l (x # xs) \<longleftrightarrow> p l = Some x \<and> reach p (Next x) xs"

primrec path :: "(link \<Rightarrow> addr option) \<Rightarrow> link \<Rightarrow> addr list \<Rightarrow> bool" where
  "path p l [] \<longleftrightarrow> p l = None"
| "path p l (x # xs) \<longleftrightarrow> p l = Some x \<and> path p (Next x) xs"

primrec backs :: "(addr \<Rightarrow> link) \<Rightarrow> link \<Rightarrow> addr list \<Rightarrow> bool" where
  "backs b l [] \<longleftrightarrow> True"
| "backs b l (x # xs) \<longleftrightarrow> b x = l \<and> backs b (Next x) xs"

text \<open>The last pointer variable of a list, and those before it.\<close>

primrec last_link :: "link \<Rightarrow> addr list \<Rightarrow> link" where
  "last_link l [] = l"
| "last_link l (x # xs) = last_link (Next x) xs"

primrec inner :: "link \<Rightarrow> addr list \<Rightarrow> link set" where
  "inner l [] = {}"
| "inner l (x # xs) = insert l (inner (Next x) xs)"

definition first :: "addr list \<Rightarrow> addr option" where
  "first xs = (case xs of [] \<Rightarrow> None | x # _ \<Rightarrow> Some x)"

lemma first_simps [simp]: "first [] = None" "first (x # xs) = Some x"
  by (simp_all add: first_def)

lemma first_None [simp]: "first xs = None \<longleftrightarrow> xs = []"
  by (cases xs) simp_all

named_theorems links \<open>how lists in memory split, and which updates they do not see\<close>

lemma last_link_append [links]: "last_link l (xs @ ys) = last_link (last_link l xs) ys"
  by (induction xs arbitrary: l) simp_all

lemma path_append [links]: "path p l (xs @ ys) \<longleftrightarrow> reach p l xs \<and> path p (last_link l xs) ys"
  by (induction xs arbitrary: l) simp_all

lemma reach_append [links]: "reach p l (xs @ ys) \<longleftrightarrow> reach p l xs \<and> reach p (last_link l xs) ys"
  by (induction xs arbitrary: l) simp_all

lemma backs_append [links]: "backs b l (xs @ ys) \<longleftrightarrow> backs b l xs \<and> backs b (last_link l xs) ys"
  by (induction xs arbitrary: l) simp_all

lemma inner_subset: "inner l xs \<subseteq> insert l (Next ` set xs)"
  by (induction xs arbitrary: l) auto

lemma last_link_cases: "last_link l xs = (if xs = [] then l else Next (last xs))"
  by (induction xs arbitrary: l) simp_all

lemma last_link_in: "last_link l xs \<in> insert l (Next ` set xs)"
  by (simp add: last_link_cases)

lemma inner_next [links]: "x \<notin> set xs \<Longrightarrow> Next x \<notin> inner (Head h) xs"
  using inner_subset [of "Head h" xs] by auto

lemma inner_head [links]: "k \<noteq> h \<Longrightarrow> Head k \<notin> inner (Head h) xs"
  using inner_subset [of "Head h" xs] by auto

lemma link_image [links]: "Next x \<in> Next ` A \<longleftrightarrow> x \<in> A" "Head h \<notin> Next ` A"
  "Head h \<in> Head ` H \<longleftrightarrow> h \<in> H" "Next x \<notin> Head ` H"
  by auto

lemma last_link_next [links]:
  assumes "x \<notin> set xs"
  shows "last_link (Head h) xs \<noteq> Next x" "Next x \<noteq> last_link (Head h) xs"
  using assms last_link_in [of "Head h" xs] by auto

lemma last_link_head [links]:
  "last_link (Head h) xs = Head k \<longleftrightarrow> xs = [] \<and> h = k" "Head k = last_link (Head h) xs \<longleftrightarrow> xs = [] \<and> h = k"
  by (auto simp: last_link_cases)

lemma last_link_image [links]:
  "set xs \<subseteq> A \<Longrightarrow> last_link (Head h) xs \<in> Next ` A \<longleftrightarrow> xs \<noteq> []"
  "set xs \<inter> A = {} \<Longrightarrow> last_link (Head h) xs \<notin> Next ` A"
  by (auto simp: last_link_cases disjoint_iff subset_iff)

lemma inner_last_link: "distinct xs \<Longrightarrow> l \<notin> Next ` set xs \<Longrightarrow> last_link l xs \<notin> inner l xs"
proof (induction xs arbitrary: l)
  case (Cons x xs)
  moreover have "last_link (Next x) xs \<noteq> l" using last_link_in [of "Next x" xs] Cons.prems(2) by auto
  moreover have "Next x \<notin> Next ` set xs" using Cons.prems(1) by auto
  ultimately show ?case by simp
qed simp

lemma inner_last_head [links]: "distinct xs \<Longrightarrow> last_link (Head h) xs \<notin> inner (Head h) xs"
  by (rule inner_last_link) auto

lemma reach_update [links]: "k \<notin> inner l xs \<Longrightarrow> reach (p(k := v)) l xs = reach p l xs"
  by (induction xs arbitrary: l) auto

lemma path_update [links]: "k \<noteq> l \<Longrightarrow> k \<notin> Next ` set xs \<Longrightarrow> path (p(k := v)) l xs = path p l xs"
  by (induction xs arbitrary: l) auto

lemma backs_update [links]: "e \<notin> set xs \<Longrightarrow> backs (b(e := k)) l xs = backs b l xs"
  by (induction xs arbitrary: l) auto

lemma path_end [links]:
  assumes "distinct xs"
  shows "path (p(last_link (Head h) xs := None)) (Head h) xs \<longleftrightarrow> reach p (Head h) xs"
  using path_append [of "p(last_link (Head h) xs := None)" "Head h" xs "[]"] assms by (simp add: links)

lemma path_frame:
  "path p l xs \<Longrightarrow> (\<And>k. k \<in> insert l (Next ` set xs) \<Longrightarrow> p' k = p k) \<Longrightarrow> path p' l xs"
  by (induction xs arbitrary: l) auto

lemma backs_frame: "backs b l xs \<Longrightarrow> (\<And>x. x \<in> set xs \<Longrightarrow> b' x = b x) \<Longrightarrow> backs b' l xs"
  by (induction xs arbitrary: l) auto

text \<open>Outside of a set two memories agree.\<close>

definition off :: "'k set \<Rightarrow> ('k \<Rightarrow> 'v) \<Rightarrow> ('k \<Rightarrow> 'v) \<Rightarrow> bool" where
  "off S f g \<longleftrightarrow> (\<forall>k. k \<notin> S \<longrightarrow> g k = f k)"

lemma off_same [links]: "off S f f"
  by (simp add: off_def)

lemma off_trans: "off S f g \<Longrightarrow> off T g k \<Longrightarrow> T \<subseteq> S \<Longrightarrow> off S f k"
  by (fastforce simp: off_def)

lemma off_update [links]: "k \<in> S \<Longrightarrow> off S f (g(k := v)) = off S f g"
  by (auto simp: off_def)

lemma path_first: "path p l xs \<Longrightarrow> p l = first xs"
  by (cases xs) simp_all

lemma path_reach: "path p l xs \<Longrightarrow> reach p l xs"
  by (induction xs arbitrary: l) simp_all

lemma path_last: "path p l xs \<Longrightarrow> p (last_link l xs) = None"
  by (induction xs arbitrary: l) simp_all

lemma visits_path: "path p l xs \<Longrightarrow> visits (\<lambda>e. p (Next e)) (p l) = Some xs"
  by (induction xs arbitrary: l) (simp_all add: visits.simps)

section \<open>Operations on lists\<close>

text \<open>The table of the operations that each family has.\<close>

datatype family = SLIST | LIST | STAILQ | TAILQ

datatype list_op =
    Insert_head nat addr
  | Insert_tail nat addr
  | Insert_after nat addr addr
  | Insert_before nat addr addr
  | Remove_head nat
  | Remove_after nat addr
  | Remove nat addr
  | Remove_where nat "addr \<Rightarrow> bool"
  | Remove_where_reverse nat "addr \<Rightarrow> bool"
  | Concat nat nat
  | Swap nat nat

fun offers :: "family \<Rightarrow> list_op \<Rightarrow> bool" where
  "offers F (Insert_before h x e) \<longleftrightarrow> F \<in> {LIST, TAILQ}"
| "offers F (Insert_tail h e) \<longleftrightarrow> F \<in> {STAILQ, TAILQ}"
| "offers F (Concat h k) \<longleftrightarrow> F \<in> {STAILQ, TAILQ}"
| "offers F (Remove_after h x) \<longleftrightarrow> F \<in> {SLIST, STAILQ}"
| "offers F (Remove_head h) \<longleftrightarrow> F \<in> {SLIST, STAILQ}"
| "offers F (Remove_where_reverse h P) \<longleftrightarrow> F = TAILQ"
| "offers F op1 \<longleftrightarrow> True"

text \<open>
  What the operations mean: \<open>None\<close> where an element is not where the operation needs it, which
  is not a use of the macros.
\<close>

fun insert_after :: "addr \<Rightarrow> addr \<Rightarrow> addr list \<Rightarrow> addr list" where
  "insert_after x e [] = []"
| "insert_after x e (y # ys) = (if y = x then y # e # ys else y # insert_after x e ys)"

fun insert_before :: "addr \<Rightarrow> addr \<Rightarrow> addr list \<Rightarrow> addr list" where
  "insert_before x e [] = []"
| "insert_before x e (y # ys) = (if y = x then e # y # ys else y # insert_before x e ys)"

fun remove_after :: "addr \<Rightarrow> addr list \<Rightarrow> addr list" where
  "remove_after x [] = []"
| "remove_after x (y # ys) = (if y = x then y # tl ys else y # remove_after x ys)"

definition fresh_in :: "(nat \<Rightarrow> addr list) \<Rightarrow> addr \<Rightarrow> bool" where
  "fresh_in L e \<longleftrightarrow> (\<forall>h. e \<notin> set (L h))"

fun list_spec :: "list_op \<Rightarrow> (nat \<Rightarrow> addr list) \<Rightarrow> (nat \<Rightarrow> addr list) option" where
  "list_spec (Insert_head h e) L = (if fresh_in L e then Some (L(h := e # L h)) else None)"
| "list_spec (Insert_tail h e) L = (if fresh_in L e then Some (L(h := L h @ [e])) else None)"
| "list_spec (Insert_after h x e) L =
     (if fresh_in L e \<and> x \<in> set (L h) then Some (L(h := insert_after x e (L h))) else None)"
| "list_spec (Insert_before h x e) L =
     (if fresh_in L e \<and> x \<in> set (L h) then Some (L(h := insert_before x e (L h))) else None)"
| "list_spec (Remove_head h) L = (if L h = [] then None else Some (L(h := tl (L h))))"
| "list_spec (Remove_after h x) L =
     (if x \<in> set (L h) \<and> x \<noteq> last (L h) then Some (L(h := remove_after x (L h))) else None)"
| "list_spec (Remove h x) L = (if x \<in> set (L h) then Some (L(h := remove1 x (L h))) else None)"
| "list_spec (Remove_where h P) L = Some (L(h := filter (\<lambda>x. \<not> P x) (L h)))"
| "list_spec (Remove_where_reverse h P) L = Some (L(h := filter (\<lambda>x. \<not> P x) (L h)))"
| "list_spec (Concat h k) L = (if h = k then None else Some (L(h := L h @ L k, k := [])))"
| "list_spec (Swap h k) L = Some (L(h := L k, k := L h))"

definition spec_step :: "family \<Rightarrow> list_op \<Rightarrow> (nat \<Rightarrow> addr list) \<Rightarrow> (nat \<Rightarrow> addr list) option" where
  "spec_step F op1 L = (if offers F op1 then list_spec op1 L else None)"

lemma insert_after_split [simp]:
  "x \<notin> set ys \<Longrightarrow> insert_after x e (ys @ x # zs) = ys @ x # e # zs"
  by (induction ys) auto

lemma insert_before_split [simp]:
  "x \<notin> set ys \<Longrightarrow> insert_before x e (ys @ x # zs) = ys @ e # x # zs"
  by (induction ys) auto

lemma remove_after_split [simp]:
  "x \<notin> set ys \<Longrightarrow> remove_after x (ys @ x # zs) = ys @ x # tl zs"
  by (induction ys) auto

lemma remove1_split [simp]: "x \<notin> set ys \<Longrightarrow> remove1 x (ys @ x # zs) = ys @ zs"
  by (simp add: remove1_append)

section \<open>Several lists\<close>

text \<open>No element is in two places.\<close>

definition apart :: "(nat \<Rightarrow> addr list) \<Rightarrow> bool" where
  "apart L \<longleftrightarrow> (\<forall>h. distinct (L h)) \<and> (\<forall>h k. h \<noteq> k \<longrightarrow> set (L h) \<inter> set (L k) = {})"

definition holds :: "('m \<Rightarrow> nat \<Rightarrow> addr list \<Rightarrow> bool) \<Rightarrow> 'm \<Rightarrow> (nat \<Rightarrow> addr list) \<Rightarrow> bool" where
  "holds Q m L \<longleftrightarrow> apart L \<and> (\<forall>h. Q m h (L h))"

lemma apart_empty: "apart (\<lambda>h. [])"
  by (simp add: apart_def)

lemma apart_distinct: "apart L \<Longrightarrow> distinct (L h)"
  by (simp add: apart_def)

lemma apart_in: "apart L \<Longrightarrow> x \<in> set (L h) \<Longrightarrow> x \<in> set (L k) \<Longrightarrow> k = h"
  by (auto simp: apart_def)

lemma apart_update:
  assumes "apart L" and "distinct xs" and "\<And>x. x \<in> set xs \<Longrightarrow> x \<in> set (L h) \<or> fresh_in L x"
  shows "apart (L(h := xs))"
  using assms unfolding apart_def fresh_in_def disjoint_iff by (metis fun_upd_apply)

lemma apart_swap: "apart L \<Longrightarrow> apart (L(h := L k, k := L h))"
  unfolding apart_def disjoint_iff by (metis fun_upd_apply)

lemma apart_concat: "apart L \<Longrightarrow> h \<noteq> k \<Longrightarrow> apart (L(h := L h @ L k, k := []))"
  by (auto simp: apart_def)

text \<open>
  A family: the fields that hold a list, and the part of the memory that lists from some heads
  and over some elements occupy; what is written there leaves the other lists alone.
\<close>

definition inside ::
    "('m \<Rightarrow> nat \<Rightarrow> addr list \<Rightarrow> bool) \<Rightarrow> (nat set \<Rightarrow> addr set \<Rightarrow> 'm \<Rightarrow> 'm \<Rightarrow> bool) \<Rightarrow>
     nat \<Rightarrow> addr set \<Rightarrow> 'm \<Rightarrow> 'm \<Rightarrow> addr list \<Rightarrow> bool" where
  "inside Q changes h A m0 m xs \<longleftrightarrow> Q m h xs \<and> distinct xs \<and> set xs \<subseteq> A \<and> changes {h} A m0 m"

locale queue_family =
  fixes Q :: "'m \<Rightarrow> nat \<Rightarrow> addr list \<Rightarrow> bool"
    and changes :: "nat set \<Rightarrow> addr set \<Rightarrow> 'm \<Rightarrow> 'm \<Rightarrow> bool"
  assumes frame: "Q m k xs \<Longrightarrow> changes H A m m' \<Longrightarrow> k \<notin> H \<Longrightarrow> set xs \<inter> A = {} \<Longrightarrow> Q m' k xs"
    and changes_refl: "changes H A m m"
    and changes_trans: "changes H A m m' \<Longrightarrow> changes H B m' m'' \<Longrightarrow> B \<subseteq> A \<Longrightarrow> changes H A m m''"
begin

lemma holds_same: "holds Q m L \<Longrightarrow> Q m h (L h)" "holds Q m L \<Longrightarrow> distinct (L h)"
  by (simp_all add: holds_def apart_distinct)

lemma holds_update:
  assumes m: "holds Q m L" and m': "Q m' h xs" "changes {h} A m m'"
    and A: "\<And>x. x \<in> A \<Longrightarrow> x \<in> set (L h) \<or> fresh_in L x" and xs: "distinct xs" "set xs \<subseteq> A"
  shows "holds Q m' (L(h := xs))"
  unfolding holds_def
proof (intro conjI allI)
  have L: "apart L" using m by (simp add: holds_def)
  show "apart (L(h := xs))" by (rule apart_update [OF L xs(1)]) (use A xs(2) in blast)
  fix k
  show "Q m' k ((L(h := xs)) k)"
  proof (cases "k = h")
    case False
    have "set (L k) \<inter> A = {}" using A False apart_in [OF L, of _ k h] by (fastforce simp: fresh_in_def)
    with False frame [OF holds_same(1) [OF m] m'(2)] show ?thesis by simp
  qed (simp add: m')
qed

lemma holds_two:
  assumes m: "holds Q m L" and m': "Q m' h (L' h)" "Q m' k (L' k)" "changes {h, k} (set (L h) \<union> set (L k)) m m'"
    and L': "apart L'" "\<And>j. j \<noteq> h \<Longrightarrow> j \<noteq> k \<Longrightarrow> L' j = L j"
  shows "holds Q m' L'"
  unfolding holds_def
proof (intro conjI allI)
  fix j
  show "Q m' j (L' j)"
  proof (cases "j = h \<or> j = k")
    case False
    with m have "set (L j) \<inter> (set (L h) \<union> set (L k)) = {}" by (auto simp: holds_def apart_def)
    with False frame [OF holds_same(1) [OF m] m'(3)] L'(2) show ?thesis by simp
  qed (use m' in auto)
qed (rule L'(1))

lemma inside_start: "Q m h xs \<Longrightarrow> distinct xs \<Longrightarrow> inside Q changes h (set xs) m m xs"
  by (simp add: inside_def changes_refl)

lemma inside_remove:
  "inside Q changes h A m0 m (ys @ x # zs) \<Longrightarrow> Q m' h (ys @ zs) \<Longrightarrow>
   changes {h} (set (ys @ x # zs)) m m' \<Longrightarrow> inside Q changes h A m0 m' (ys @ zs)"
  by (auto simp: inside_def elim: changes_trans)

end

text \<open>
  A removing loop: it reads where it goes next before an element is removed, so that cutting
  the list under it does no harm.
\<close>

locale removing_loop =
  fixes R :: "'m \<Rightarrow> addr list \<Rightarrow> bool"
    and nxt :: "addr \<Rightarrow> 'm \<Rightarrow> addr option"
    and remove :: "addr \<Rightarrow> 'm \<Rightarrow> 'm option"
  assumes next_element: "R m (ys @ x # xs) \<Longrightarrow> nxt x m = first xs"
    and removes: "R m (ys @ x # xs) \<Longrightarrow> \<exists>m'. remove x m = Some m' \<and> R m' (ys @ xs)"
begin

lemma loop_from:
  "R m (ys @ xs) \<Longrightarrow>
   \<exists>m'. safe_loop nxt (if_matches P remove) (first xs) m = Some m' \<and> R m' (ys @ filter (\<lambda>x. \<not> P x) xs)"
proof (induction xs arbitrary: ys m)
  case Nil
  then show ?case by (simp add: safe_loop.simps)
next
  case (Cons x xs)
  have nxt: "nxt x m = first xs" by (rule next_element [OF Cons.prems])
  show ?case
  proof (cases "P x")
    case True
    from removes [OF Cons.prems] obtain m1 where m1: "remove x m = Some m1" "R m1 (ys @ xs)" by blast
    from Cons.IH [OF m1(2)] True m1(1) nxt show ?thesis by (subst safe_loop.simps) simp
  next
    case False
    from Cons.prems have "R m ((ys @ [x]) @ xs)" by simp
    from Cons.IH [OF this] False nxt show ?thesis by (subst safe_loop.simps) simp
  qed
qed

lemma loop:
  "R m xs \<Longrightarrow>
   \<exists>m'. safe_loop nxt (if_matches P remove) (first xs) m = Some m' \<and> R m' (filter (\<lambda>x. \<not> P x) xs)"
  using loop_from [of m "[]" xs P] by simp

end

text \<open>
  The macros of a family: what each that it has makes of one list, or of two for \<open>Concat\<close> and
  \<open>Swap\<close>, within the memory of these lists. Then they refine the operations on lists.
\<close>

locale queue_macros = queue_family Q changes
  for Q :: "'m \<Rightarrow> nat \<Rightarrow> addr list \<Rightarrow> bool" and changes :: "nat set \<Rightarrow> addr set \<Rightarrow> 'm \<Rightarrow> 'm \<Rightarrow> bool" +
  fixes F :: family
    and step :: "list_op \<Rightarrow> 'm \<Rightarrow> 'm option"
  assumes insert_head: "Q m h xs \<Longrightarrow> e \<notin> set xs \<Longrightarrow> distinct xs \<Longrightarrow>
      \<exists>m'. step (Insert_head h e) m = Some m' \<and> Q m' h (e # xs) \<and> changes {h} (insert e (set xs)) m m'"
    and insert_tail: "offers F (Insert_tail h e) \<Longrightarrow> Q m h xs \<Longrightarrow> e \<notin> set xs \<Longrightarrow> distinct xs \<Longrightarrow>
      \<exists>m'. step (Insert_tail h e) m = Some m' \<and> Q m' h (xs @ [e]) \<and> changes {h} (insert e (set xs)) m m'"
    and insert_after: "Q m h (ys @ x # zs) \<Longrightarrow> e \<notin> set (ys @ x # zs) \<Longrightarrow> distinct (ys @ x # zs) \<Longrightarrow>
      \<exists>m'. step (Insert_after h x e) m = Some m' \<and> Q m' h (ys @ x # e # zs) \<and>
        changes {h} (insert e (set (ys @ x # zs))) m m'"
    and insert_before: "offers F (Insert_before h x e) \<Longrightarrow>
      Q m h (ys @ x # zs) \<Longrightarrow> e \<notin> set (ys @ x # zs) \<Longrightarrow> distinct (ys @ x # zs) \<Longrightarrow>
      \<exists>m'. step (Insert_before h x e) m = Some m' \<and> Q m' h (ys @ e # x # zs) \<and>
        changes {h} (insert e (set (ys @ x # zs))) m m'"
    and remove_head: "offers F (Remove_head h) \<Longrightarrow> Q m h (x # xs) \<Longrightarrow> distinct (x # xs) \<Longrightarrow>
      \<exists>m'. step (Remove_head h) m = Some m' \<and> Q m' h xs \<and> changes {h} (set (x # xs)) m m'"
    and remove_after: "offers F (Remove_after h x) \<Longrightarrow> Q m h (ys @ x # y # zs) \<Longrightarrow> distinct (ys @ x # y # zs) \<Longrightarrow>
      \<exists>m'. step (Remove_after h x) m = Some m' \<and> Q m' h (ys @ x # zs) \<and>
        changes {h} (set (ys @ x # y # zs)) m m'"
    and remove: "Q m h (ys @ x # zs) \<Longrightarrow> distinct (ys @ x # zs) \<Longrightarrow>
      \<exists>m'. step (Remove h x) m = Some m' \<and> Q m' h (ys @ zs) \<and> changes {h} (set (ys @ x # zs)) m m'"
    and remove_where: "Q m h xs \<Longrightarrow> distinct xs \<Longrightarrow>
      \<exists>m'. step (Remove_where h P) m = Some m' \<and> inside Q changes h (set xs) m m' (filter (\<lambda>x. \<not> P x) xs)"
    and remove_where_reverse: "offers F (Remove_where_reverse h P) \<Longrightarrow> Q m h xs \<Longrightarrow> distinct xs \<Longrightarrow>
      \<exists>m'. step (Remove_where_reverse h P) m = Some m' \<and>
        inside Q changes h (set xs) m m' (filter (\<lambda>x. \<not> P x) xs)"
    and concat: "offers F (Concat h k) \<Longrightarrow> h \<noteq> k \<Longrightarrow> Q m h xs \<Longrightarrow> Q m k ys \<Longrightarrow> distinct (xs @ ys) \<Longrightarrow>
      \<exists>m'. step (Concat h k) m = Some m' \<and> Q m' h (xs @ ys) \<and> Q m' k [] \<and>
        changes {h, k} (set xs \<union> set ys) m m'"
    and swap: "h \<noteq> k \<Longrightarrow> Q m h xs \<Longrightarrow> Q m k ys \<Longrightarrow> distinct (xs @ ys) \<Longrightarrow>
      \<exists>m'. step (Swap h k) m = Some m' \<and> Q m' h ys \<and> Q m' k xs \<and> changes {h, k} (set xs \<union> set ys) m m'"
    and swap_same: "Q m h xs \<Longrightarrow> distinct xs \<Longrightarrow>
      \<exists>m'. step (Swap h h) m = Some m' \<and> Q m' h xs \<and> changes {h} (set xs) m m'"
begin

text \<open>An operation on one list, as it is and around an element of it.\<close>

lemma one_list:
  assumes "holds Q m L"
    and "Q m h (L h) \<Longrightarrow> distinct (L h) \<Longrightarrow> \<exists>m'. r = Some m' \<and> Q m' h xs \<and> changes {h} A m m'"
    and "distinct xs" and "set xs \<subseteq> A" and "\<And>x. x \<in> A \<Longrightarrow> x \<in> set (L h) \<or> fresh_in L x"
  shows "\<exists>m'. r = Some m' \<and> holds Q m' (L(h := xs))"
  using assms(2) [OF holds_same [OF assms(1)]] holds_update [OF assms(1) _ _ assms(5,3,4)] by blast

lemma one_list_at:
  assumes m: "holds Q m L" and x: "x \<in> set (L h)"
    and at: "\<And>ys zs. L h = ys @ x # zs \<Longrightarrow> x \<notin> set ys \<Longrightarrow> Q m h (ys @ x # zs) \<Longrightarrow> distinct (ys @ x # zs) \<Longrightarrow>
      distinct xs \<and> set xs \<subseteq> A \<and> (\<exists>m'. r = Some m' \<and> Q m' h xs \<and> changes {h} A m m')"
    and A: "\<And>x. x \<in> A \<Longrightarrow> x \<in> set (L h) \<or> fresh_in L x"
  shows "\<exists>m'. r = Some m' \<and> holds Q m' (L(h := xs))"
proof -
  from split_list_first [OF x] obtain ys zs where s: "L h = ys @ x # zs" "x \<notin> set ys" by blast
  from at [OF s] holds_same [OF m, of h] s(1) have
    "distinct xs \<and> set xs \<subseteq> A \<and> (\<exists>m'. r = Some m' \<and> Q m' h xs \<and> changes {h} A m m')" by simp
  with one_list [OF m _ _ _ A] show ?thesis by blast
qed

lemma two_lists:
  assumes m: "holds Q m L"
    and "Q m h (L h) \<Longrightarrow> Q m k (L k) \<Longrightarrow> distinct (L h @ L k) \<Longrightarrow>
      \<exists>m'. r = Some m' \<and> Q m' h (L' h) \<and> Q m' k (L' k) \<and> changes {h, k} (set (L h) \<union> set (L k)) m m'"
    and "h \<noteq> k" and "apart L'" and "\<And>j. j \<noteq> h \<Longrightarrow> j \<noteq> k \<Longrightarrow> L' j = L j"
  shows "\<exists>m'. r = Some m' \<and> holds Q m' L'"
proof -
  have "distinct (L h @ L k)" using m assms(3) by (simp add: holds_def apart_def)
  from assms(2) [OF holds_same(1) [OF m] holds_same(1) [OF m] this] holds_two [OF m _ _ _ assms(4,5)]
  show ?thesis by blast
qed

text \<open>Each operation refines its meaning on lists.\<close>

lemma refine_insert_head:
  assumes m: "holds Q m L" and F: "offers F (Insert_head h e)" and L': "list_spec (Insert_head h e) L = Some L'"
  shows "\<exists>m'. step (Insert_head h e) m = Some m' \<and> holds Q m' L'"
proof -
  have L: "apart L" using m by (simp add: holds_def)
  from L' have e: "fresh_in L e" "L' = L(h := e # L h)" by (simp_all split: if_splits)
  then have n: "e \<notin> set (L h)" by (simp add: fresh_in_def)
  show ?thesis
    unfolding e(2)
    by (rule one_list [OF m insert_head]) (use n e(1) apart_distinct [OF L] in auto)
qed

lemma refine_insert_tail:
  assumes m: "holds Q m L" and F: "offers F (Insert_tail h e)" and L': "list_spec (Insert_tail h e) L = Some L'"
  shows "\<exists>m'. step (Insert_tail h e) m = Some m' \<and> holds Q m' L'"
proof -
  have L: "apart L" using m by (simp add: holds_def)
  from L' have e: "fresh_in L e" "L' = L(h := L h @ [e])" by (simp_all split: if_splits)
  then have n: "e \<notin> set (L h)" by (simp add: fresh_in_def)
  show ?thesis
    unfolding e(2)
    by (rule one_list [OF m insert_tail]) (use F n e(1) apart_distinct [OF L] in auto)
qed

lemma refine_insert_after:
  assumes m: "holds Q m L" and F: "offers F (Insert_after h x e)" and L': "list_spec (Insert_after h x e) L = Some L'"
  shows "\<exists>m'. step (Insert_after h x e) m = Some m' \<and> holds Q m' L'"
proof -
  have L: "apart L" using m by (simp add: holds_def)
  from L' have e: "fresh_in L e" "x \<in> set (L h)" "L' = L(h := insert_after x e (L h))"
    by (simp_all split: if_splits)
  then have n: "e \<notin> set (L h)" by (simp add: fresh_in_def)
  show ?thesis
    unfolding e(3)
    by (rule one_list_at [OF m e(2), where A = "insert e (set (L h))"])
      (use insert_after n e(1) in auto)
qed

lemma refine_insert_before:
  assumes m: "holds Q m L" and F: "offers F (Insert_before h x e)" and L': "list_spec (Insert_before h x e) L = Some L'"
  shows "\<exists>m'. step (Insert_before h x e) m = Some m' \<and> holds Q m' L'"
proof -
  have L: "apart L" using m by (simp add: holds_def)
  from L' have e: "fresh_in L e" "x \<in> set (L h)" "L' = L(h := insert_before x e (L h))"
    by (simp_all split: if_splits)
  then have n: "e \<notin> set (L h)" by (simp add: fresh_in_def)
  show ?thesis
    unfolding e(3)
    by (rule one_list_at [OF m e(2), where A = "insert e (set (L h))"])
      (use insert_before F n e(1) in auto)
qed

lemma refine_remove_head:
  assumes m: "holds Q m L" and F: "offers F (Remove_head h)" and L': "list_spec (Remove_head h) L = Some L'"
  shows "\<exists>m'. step (Remove_head h) m = Some m' \<and> holds Q m' L'"
proof -
  have L: "apart L" using m by (simp add: holds_def)
  from L' obtain x xs where x: "L h = x # xs" "L' = L(h := xs)" by (cases "L h") (simp_all split: if_splits)
  show ?thesis
    unfolding x(2)
    by (rule one_list [OF m, where A = "set (L h)"])
      (use remove_head F x(1) apart_distinct [OF L, of h] in auto)
qed

lemma refine_remove_after:
  assumes m: "holds Q m L" and F: "offers F (Remove_after h x)" and L': "list_spec (Remove_after h x) L = Some L'"
  shows "\<exists>m'. step (Remove_after h x) m = Some m' \<and> holds Q m' L'"
proof -
  have L: "apart L" using m by (simp add: holds_def)
  from L' have x: "x \<in> set (L h)" "x \<noteq> last (L h)" "L' = L(h := remove_after x (L h))"
    by (simp_all split: if_splits)
  show ?thesis
    unfolding x(3)
  proof (rule one_list_at [OF m x(1), where A = "set (L h)"])
    fix ys zs
    assume s: "L h = ys @ x # zs" "x \<notin> set ys" "Q m h (ys @ x # zs)" "distinct (ys @ x # zs)"
    with x(2) obtain z zs' where "zs = z # zs'" by (cases zs) auto
    with s F remove_after [of h x m ys z zs'] show
      "distinct (remove_after x (L h)) \<and> set (remove_after x (L h)) \<subseteq> set (L h) \<and>
       (\<exists>m'. step (Remove_after h x) m = Some m' \<and> Q m' h (remove_after x (L h)) \<and> changes {h} (set (L h)) m m')"
      by auto
  qed simp
qed

lemma refine_remove:
  assumes m: "holds Q m L" and F: "offers F (Remove h x)" and L': "list_spec (Remove h x) L = Some L'"
  shows "\<exists>m'. step (Remove h x) m = Some m' \<and> holds Q m' L'"
proof -
  have L: "apart L" using m by (simp add: holds_def)
  from L' have x: "x \<in> set (L h)" "L' = L(h := remove1 x (L h))" by (simp_all split: if_splits)
  show ?thesis
    unfolding x(2)
    by (rule one_list_at [OF m x(1), where A = "set (L h)"]) (use remove in auto)
qed

lemma refine_remove_where:
  assumes m: "holds Q m L" and F: "offers F (Remove_where h P)" and L': "list_spec (Remove_where h P) L = Some L'"
  shows "\<exists>m'. step (Remove_where h P) m = Some m' \<and> holds Q m' L'"
proof -
  have L: "apart L" using m by (simp add: holds_def)
  from L' have x: "L' = L(h := filter (\<lambda>x. \<not> P x) (L h))" by simp
  show ?thesis
    unfolding x
    by (rule one_list [OF m, where A = "set (L h)"])
      (use remove_where apart_distinct [OF L] in \<open>fastforce simp: inside_def\<close>)+
qed

lemma refine_remove_where_reverse:
  assumes m: "holds Q m L" and F: "offers F (Remove_where_reverse h P)" and L': "list_spec (Remove_where_reverse h P) L = Some L'"
  shows "\<exists>m'. step (Remove_where_reverse h P) m = Some m' \<and> holds Q m' L'"
proof -
  have L: "apart L" using m by (simp add: holds_def)
  from L' have x: "L' = L(h := filter (\<lambda>x. \<not> P x) (L h))" by simp
  show ?thesis
    unfolding x
    by (rule one_list [OF m, where A = "set (L h)"])
      (use remove_where_reverse F apart_distinct [OF L] in \<open>fastforce simp: inside_def\<close>)+
qed

lemma refine_concat:
  assumes m: "holds Q m L" and F: "offers F (Concat h k)" and L': "list_spec (Concat h k) L = Some L'"
  shows "\<exists>m'. step (Concat h k) m = Some m' \<and> holds Q m' L'"
proof -
  have L: "apart L" using m by (simp add: holds_def)
  from L' have k: "h \<noteq> k" "L' = L(h := L h @ L k, k := [])" by (simp_all split: if_splits)
  show ?thesis
    unfolding k(2)
    by (rule two_lists [OF m _ k(1) apart_concat [OF L k(1)]]) (use concat F k(1) in auto)
qed

lemma refine_swap:
  assumes m: "holds Q m L" and F: "offers F (Swap h k)" and L': "list_spec (Swap h k) L = Some L'"
  shows "\<exists>m'. step (Swap h k) m = Some m' \<and> holds Q m' L'"
proof -
  have L: "apart L" using m by (simp add: holds_def)
  from L' have k: "L' = L(h := L k, k := L h)" by simp
  show ?thesis
  proof (cases "h = k")
    case True
    have "\<exists>m'. step (Swap h h) m = Some m' \<and> holds Q m' (L(h := L h))"
      by (rule one_list [OF m swap_same]) (use apart_distinct [OF L] in auto)
    with k True show ?thesis by simp
  next
    case False
    show ?thesis
      unfolding k
      by (rule two_lists [OF m _ False apart_swap [OF L]]) (use swap False in auto)
  qed
qed

lemmas refine_ops = refine_insert_head
  refine_insert_tail
  refine_insert_after
  refine_insert_before
  refine_remove_head
  refine_remove_after
  refine_remove
  refine_remove_where
  refine_remove_where_reverse
  refine_concat
  refine_swap

lemma refines:
  assumes "holds Q m L" and "spec_step F op1 L = Some L'"
  shows "\<exists>m'. step op1 m = Some m' \<and> holds Q m' L'"
proof -
  have "offers F op1" and "list_spec op1 L = Some L'"
    using assms(2) by (simp_all add: spec_step_def split: if_splits)
  with assms(1) show ?thesis by (cases op1) (simp_all only: refine_ops)
qed

end

sublocale queue_macros \<subseteq> simulation step "spec_step F" "holds Q"
  by unfold_locales (rule refines)

end
