(* ===== verification/Queue.thy ===== *)
theory Queue
  imports Links
begin

text \<open>
  The LIST macros of compat/queue.h, which are the lists of the program, on the memory they
  work on: the pointer variables and the \<open>le_prev\<close> fields, each the address of the pointer
  variable that points to its element. Elsewhere a list of the program is a HOL list with the
  newest element first; this theory is why.
\<close>

section \<open>The macros\<close>

record links =
  ptr :: "link \<Rightarrow> addr option"
  le_prev :: "addr \<Rightarrow> link"

definition LIST_FIRST :: "nat \<Rightarrow> links \<Rightarrow> addr option" where
  "LIST_FIRST h m = ptr m (Head h)"

definition LIST_EMPTY :: "nat \<Rightarrow> links \<Rightarrow> bool" where
  "LIST_EMPTY h m \<longleftrightarrow> LIST_FIRST h m = None"

definition LIST_NEXT :: "addr \<Rightarrow> links \<Rightarrow> addr option" where
  "LIST_NEXT e m = ptr m (Next e)"

definition LIST_INIT :: "nat \<Rightarrow> links \<Rightarrow> links" where
  "LIST_INIT h m = m\<lparr>ptr := (ptr m)(Head h := None)\<rparr>"

definition LIST_INSERT_HEAD :: "nat \<Rightarrow> addr \<Rightarrow> links \<Rightarrow> links" where
  "LIST_INSERT_HEAD h e m =
     (let m = m\<lparr>ptr := (ptr m)(Next e := LIST_FIRST h m)\<rparr>;
          m = (case LIST_NEXT e m of
                 None \<Rightarrow> m
               | Some n \<Rightarrow> m\<lparr>le_prev := (le_prev m)(n := Next e)\<rparr>);
          m = m\<lparr>ptr := (ptr m)(Head h := Some e)\<rparr>
      in m\<lparr>le_prev := (le_prev m)(e := Head h)\<rparr>)"

definition LIST_INSERT_AFTER :: "addr \<Rightarrow> addr \<Rightarrow> links \<Rightarrow> links" where
  "LIST_INSERT_AFTER x e m =
     (let m = m\<lparr>ptr := (ptr m)(Next e := LIST_NEXT x m)\<rparr>;
          m = (case LIST_NEXT e m of
                 None \<Rightarrow> m
               | Some n \<Rightarrow> m\<lparr>le_prev := (le_prev m)(n := Next e)\<rparr>);
          m = m\<lparr>ptr := (ptr m)(Next x := Some e)\<rparr>
      in m\<lparr>le_prev := (le_prev m)(e := Next x)\<rparr>)"

definition LIST_INSERT_BEFORE :: "addr \<Rightarrow> addr \<Rightarrow> links \<Rightarrow> links" where
  "LIST_INSERT_BEFORE x e m =
     (let m = m\<lparr>le_prev := (le_prev m)(e := le_prev m x)\<rparr>;
          m = m\<lparr>ptr := (ptr m)(Next e := Some x)\<rparr>;
          m = m\<lparr>ptr := (ptr m)(le_prev m x := Some e)\<rparr>
      in m\<lparr>le_prev := (le_prev m)(x := Next e)\<rparr>)"

definition LIST_REMOVE :: "addr \<Rightarrow> links \<Rightarrow> links" where
  "LIST_REMOVE e m =
     (let m = (case LIST_NEXT e m of
                 None \<Rightarrow> m
               | Some n \<Rightarrow> m\<lparr>le_prev := (le_prev m)(n := le_prev m e)\<rparr>)
      in m\<lparr>ptr := (ptr m)(le_prev m e := LIST_NEXT e m)\<rparr>)"

definition LIST_SWAP :: "nat \<Rightarrow> nat \<Rightarrow> links \<Rightarrow> links" where
  "LIST_SWAP h k m =
     (let swap_tmp = LIST_FIRST h m;
          m = m\<lparr>ptr := (ptr m)(Head h := LIST_FIRST k m)\<rparr>;
          m = m\<lparr>ptr := (ptr m)(Head k := swap_tmp)\<rparr>;
          m = (case LIST_FIRST h m of
                 None \<Rightarrow> m
               | Some x \<Rightarrow> m\<lparr>le_prev := (le_prev m)(x := Head h)\<rparr>)
      in case LIST_FIRST k m of
           None \<Rightarrow> m
         | Some x \<Rightarrow> m\<lparr>le_prev := (le_prev m)(x := Head k)\<rparr>)"

definition LIST_FOREACH :: "nat \<Rightarrow> links \<Rightarrow> addr list option" where
  "LIST_FOREACH h m = visits (\<lambda>e. LIST_NEXT e m) (LIST_FIRST h m)"

definition LIST_FOREACH_SAFE :: "nat \<Rightarrow> (addr \<Rightarrow> links \<Rightarrow> links option) \<Rightarrow> links \<Rightarrow> links option" where
  "LIST_FOREACH_SAFE h body m = safe_loop LIST_NEXT body (LIST_FIRST h m) m"

text \<open>
  On the memory of the subscriptions: \<open>subscription_remove\<close>, which nothing calls, and the loop of
  \<open>subscription_remove_for_client\<close>, which removes the elements that match.
\<close>

definition subscription_remove :: "addr \<Rightarrow> links \<Rightarrow> links" where
  "subscription_remove e m = LIST_REMOVE e m"

definition remove_matching :: "nat \<Rightarrow> (addr \<Rightarrow> bool) \<Rightarrow> links \<Rightarrow> links option" where
  "remove_matching h P m = LIST_FOREACH_SAFE h (if_matches P (\<lambda>e m. Some (LIST_REMOVE e m))) m"

text \<open>The consistency checks a kernel with \<open>INVARIANTS\<close> makes before it changes a list.\<close>

definition QMD_LIST_CHECK_HEAD :: "nat \<Rightarrow> links \<Rightarrow> bool" where
  "QMD_LIST_CHECK_HEAD h m \<longleftrightarrow>
     (case LIST_FIRST h m of None \<Rightarrow> True | Some x \<Rightarrow> le_prev m x = Head h)"

definition QMD_LIST_CHECK_NEXT :: "addr \<Rightarrow> links \<Rightarrow> bool" where
  "QMD_LIST_CHECK_NEXT e m \<longleftrightarrow>
     (case LIST_NEXT e m of None \<Rightarrow> True | Some x \<Rightarrow> le_prev m x = Next e)"

definition QMD_LIST_CHECK_PREV :: "addr \<Rightarrow> links \<Rightarrow> bool" where
  "QMD_LIST_CHECK_PREV e m \<longleftrightarrow> ptr m (le_prev m e) = Some e"

section \<open>Lists in memory\<close>

definition list_at :: "links \<Rightarrow> nat \<Rightarrow> addr list \<Rightarrow> bool" where
  "list_at m h xs \<longleftrightarrow> path (ptr m) (Head h) xs \<and> backs (le_prev m) (Head h) xs"

definition list_changes :: "nat set \<Rightarrow> addr set \<Rightarrow> links \<Rightarrow> links \<Rightarrow> bool" where
  "list_changes H A m m' \<longleftrightarrow>
     off (Head ` H \<union> Next ` A) (ptr m) (ptr m') \<and> off A (le_prev m) (le_prev m')"

interpretation lists: queue_family list_at list_changes
proof
  fix m k xs H A m'
  assume "list_at m k xs" "list_changes H A m m'" "k \<notin> H" "set xs \<inter> A = {}"
  then show "list_at m' k xs"
    unfolding list_at_def list_changes_def off_def
    by (intro conjI; elim conjE) (erule path_frame backs_frame; fastforce)+
qed (auto simp: list_changes_def links elim!: off_trans)

lemma foreach_list: "list_at m h xs \<Longrightarrow> LIST_FOREACH h m = Some xs"
  by (simp add: list_at_def LIST_FOREACH_def LIST_FIRST_def LIST_NEXT_def visits_path)

lemmas list_macros_defs = LIST_FIRST_def LIST_NEXT_def list_at_def list_changes_def Let_def

lemma insert_head_list:
  assumes "list_at m h xs" and "e \<notin> set xs" and "distinct xs"
  shows "list_at (LIST_INSERT_HEAD h e m) h (e # xs)"
    "list_changes {h} (insert e (set xs)) m (LIST_INSERT_HEAD h e m)"
  using assms by (cases xs; simp add: LIST_INSERT_HEAD_def list_macros_defs links; fail)+

lemma insert_after_list:
  assumes "list_at m h (ys @ x # zs)" and "e \<notin> set (ys @ x # zs)" and "distinct (ys @ x # zs)"
  shows "list_at (LIST_INSERT_AFTER x e m) h (ys @ x # e # zs)"
    "list_changes {h} (insert e (set (ys @ x # zs))) m (LIST_INSERT_AFTER x e m)"
  using assms by (cases zs; simp add: LIST_INSERT_AFTER_def list_macros_defs links; fail)+

lemma insert_before_list:
  assumes "list_at m h (ys @ x # zs)" and "e \<notin> set (ys @ x # zs)" and "distinct (ys @ x # zs)"
  shows "list_at (LIST_INSERT_BEFORE x e m) h (ys @ e # x # zs)"
    "list_changes {h} (insert e (set (ys @ x # zs))) m (LIST_INSERT_BEFORE x e m)"
  using assms by (simp_all add: LIST_INSERT_BEFORE_def list_macros_defs links)

lemma remove_list:
  assumes "list_at m h (ys @ x # zs)" and "distinct (ys @ x # zs)"
  shows "list_at (LIST_REMOVE x m) h (ys @ zs)"
    "list_changes {h} (set (ys @ x # zs)) m (LIST_REMOVE x m)"
  using assms by (cases zs; simp add: LIST_REMOVE_def list_macros_defs; simp add: links; fail)+

lemma swap_lists:
  assumes "list_at m h xs" and "list_at m k ys" and "h \<noteq> k" and "distinct (xs @ ys)"
  shows "list_at (LIST_SWAP h k m) h ys" "list_at (LIST_SWAP h k m) k xs"
    "list_changes {h, k} (set xs \<union> set ys) m (LIST_SWAP h k m)"
  using assms by (cases xs; cases ys; simp add: LIST_SWAP_def list_macros_defs links; fail)+

lemma swap_same:
  assumes "list_at m h xs" and "distinct xs"
  shows "list_at (LIST_SWAP h h m) h xs" "list_changes {h} (set xs) m (LIST_SWAP h h m)"
  using assms by (cases xs; simp add: LIST_SWAP_def list_macros_defs links; fail)+

lemma list_checks:
  assumes "list_at m h xs"
  shows "QMD_LIST_CHECK_HEAD h m" "x \<in> set xs \<Longrightarrow> QMD_LIST_CHECK_NEXT x m \<and> QMD_LIST_CHECK_PREV x m"
proof -
  show "QMD_LIST_CHECK_HEAD h m"
    using assms by (cases xs; simp add: QMD_LIST_CHECK_HEAD_def list_macros_defs)
  assume "x \<in> set xs"
  then obtain ys zs where "xs = ys @ x # zs" by (auto simp: in_set_conv_decomp)
  with assms show "QMD_LIST_CHECK_NEXT x m \<and> QMD_LIST_CHECK_PREV x m"
    by (cases zs; simp add: QMD_LIST_CHECK_NEXT_def QMD_LIST_CHECK_PREV_def list_macros_defs links)
qed

section \<open>Refinement\<close>

primrec list_step :: "list_op \<Rightarrow> links \<Rightarrow> links option" where
  "list_step (Insert_head h e) m = Some (LIST_INSERT_HEAD h e m)"
| "list_step (Insert_tail h e) m = None"
| "list_step (Insert_after h x e) m = Some (LIST_INSERT_AFTER x e m)"
| "list_step (Insert_before h x e) m = Some (LIST_INSERT_BEFORE x e m)"
| "list_step (Remove_head h) m = None"
| "list_step (Remove_after h x) m = None"
| "list_step (Remove h x) m = Some (LIST_REMOVE x m)"
| "list_step (Remove_where h P) m = remove_matching h P m"
| "list_step (Remove_where_reverse h P) m = None"
| "list_step (Concat h k) m = None"
| "list_step (Swap h k) m = Some (LIST_SWAP h k m)"

interpretation list_loop: removing_loop
  "inside list_at list_changes h A m0" LIST_NEXT "\<lambda>e m. Some (LIST_REMOVE e m)" for h A m0
proof
  fix m ys x xs
  assume m: "inside list_at list_changes h A m0 m (ys @ x # xs)"
  then have l: "list_at m h (ys @ x # xs)" "distinct (ys @ x # xs)" by (simp_all add: inside_def)
  then show "LIST_NEXT x m = first xs" by (simp add: list_macros_defs links path_first)
  show "\<exists>m'. Some (LIST_REMOVE x m) = Some m' \<and> inside list_at list_changes h A m0 m' (ys @ xs)"
    using lists.inside_remove [OF m remove_list [OF l]] by simp
qed

interpretation list_macros: queue_macros list_at list_changes LIST list_step
proof
  fix m h xs P
  assume l: "list_at m h xs" "distinct xs"
  then have "LIST_FIRST h m = first xs" by (simp add: list_macros_defs path_first)
  with list_loop.loop [OF lists.inside_start [OF l]]
  show "\<exists>m'. list_step (Remove_where h P) m = Some m' \<and>
      inside list_at list_changes h (set xs) m m' (filter (\<lambda>x. \<not> P x) xs)"
    by (simp add: remove_matching_def LIST_FOREACH_SAFE_def)
qed (simp_all add: insert_head_list insert_after_list insert_before_list remove_list swap_lists swap_same
    del: set_append distinct_append list.set)

text \<open>
  C35. The LIST macros keep lists: after any sequence of insertions at a head or beside an
  element, removals, removing loops and swaps of heads, on heads that were initialised and
  with an element in one list at most, a loop over a head ends and visits the elements that
  the operations on lists leave there, in their order; a list is empty for \<open>LIST_EMPTY\<close> when
  they leave none, and none of the consistency checks finds anything wrong.
\<close>

theorem list_macros_refine_lists:
  assumes "\<forall>h. LIST_FIRST h m = None" and "run (spec_step LIST) ps (\<lambda>h. []) = Some L"
  shows "\<exists>m'. run list_step ps m = Some m' \<and> 
    (\<forall>h. LIST_FOREACH h m' = Some (L h) \<and> (LIST_EMPTY h m' \<longleftrightarrow> L h = []) \<and> QMD_LIST_CHECK_HEAD h m' \<and>
       (\<forall>x \<in> set (L h). QMD_LIST_CHECK_NEXT x m' \<and> QMD_LIST_CHECK_PREV x m'))"
proof -
  have "holds list_at m (\<lambda>h. [])" using assms(1) by (simp add: holds_def apart_empty list_macros_defs)
  from list_macros.run_sim [OF this assms(2)] obtain m' where m': "run list_step ps m = Some m'" "holds list_at m' L" by blast
  have l: "list_at m' h (L h)" for h by (rule lists.holds_same(1) [OF m'(2)])
  then have "LIST_FIRST h m' = first (L h)" for h by (simp add: list_macros_defs path_first)
  with m'(1) foreach_list [OF l] list_checks [OF l] show ?thesis by (simp add: LIST_EMPTY_def)
qed

lemma list_macros_refine_lists_witness:
  "\<exists>m'. run list_step [Insert_head 0 7, Insert_after 0 7 8, Insert_before 0 8 6, Insert_head 1 9, Remove 0 7, Swap 0 1]
       (LIST_INIT 0 \<lparr>ptr = \<lambda>l. None, le_prev = \<lambda>e. Head 0\<rparr>) = Some m' \<and> LIST_FOREACH 1 m' = Some [6, 8]"
proof -
  let ?m = "LIST_INIT 0 \<lparr>ptr = \<lambda>l. None, le_prev = \<lambda>e. Head 0\<rparr>"
  let ?ps = "[Insert_head 0 7, Insert_after 0 7 8, Insert_before 0 8 6, Insert_head 1 9, Remove 0 7, Swap 0 1]"
  obtain L where L: "run (spec_step LIST) ?ps (\<lambda>h. []) = Some L" "L 1 = [6, 8]"
    by (simp add: spec_step_def fresh_in_def)
  have "\<forall>h. LIST_FIRST h ?m = None" by (simp add: LIST_INIT_def LIST_FIRST_def)
  from list_macros_refine_lists [OF this L(1)] obtain m' where "run list_step ?ps ?m = Some m'"
    "LIST_FOREACH 1 m' = Some (L 1)" by blast
  with L(2) show ?thesis by simp
qed

end
