(* ===== verification/Hashmem.thy ===== *)
theory Hashmem
  imports Queue UvHash
begin

text \<open>
  The integer table of uvhash.c on memory: its buckets are heads of the LIST macros, its
  entries blocks of an allocator. UvHash has the same table with HOL lists for buckets; here
  the code with its pointers is shown to do what that one does, so that the two refinements
  compose.
\<close>

section \<open>The table\<close>

text \<open>The blocks that are allocated, with the key and the value of each; the rest of an entry is in the links.\<close>

record 'v hashmem =
  hm_size :: nat
  hm_links :: links
  hm_ents :: "(addr \<times> 'v uvhash_ent) list"

abbreviation ent_at :: "'v hashmem \<Rightarrow> addr \<Rightarrow> 'v uvhash_ent option" where
  "ent_at M \<equiv> map_of (hm_ents M)"

definition mem_bucket :: "'v hashmem \<Rightarrow> 32 word \<Rightarrow> nat" where
  "mem_bucket M k = nat (uint (hash_uint k) mod int (hm_size M))"

definition mem_new :: "nat \<Rightarrow> links \<Rightarrow> 'v hashmem" where
  "mem_new sz m = \<lparr>hm_size = sz, hm_links = fold LIST_INIT [0..<sz] m, hm_ents = []\<rparr>"

text \<open>\<open>malloc\<close> answers with a block that is not among those allocated.\<close>

definition mem_insert :: "(addr list \<Rightarrow> addr) \<Rightarrow> 32 word \<Rightarrow> 'v \<Rightarrow> 'v hashmem \<Rightarrow> 'v hashmem" where
  "mem_insert malloc k v M =
     (let ent = malloc (map fst (hm_ents M));
          M = M\<lparr>hm_ents := (ent, \<lparr>he_key = k, he_value = v\<rparr>) # hm_ents M\<rparr>;
          l = mem_bucket M k
      in M\<lparr>hm_links := LIST_INSERT_HEAD l ent (hm_links M)\<rparr>)"

text \<open>
  The loop of \<open>uvhash_find\<close> and \<open>uvhash_remove\<close> up to the entry with the key; \<open>None\<close> is a read of
  a block that is not allocated, or a loop that does not end.
\<close>

partial_function (option) mem_seek :: "'v hashmem \<Rightarrow> 32 word \<Rightarrow> addr option \<Rightarrow> addr option option" where
  "mem_seek M k ent =
     (case ent of
        None \<Rightarrow> Some None
      | Some e \<Rightarrow>
          do { x \<leftarrow> ent_at M e;
               if he_key x = k then Some (Some e) else mem_seek M k (LIST_NEXT e (hm_links M)) })"

definition mem_find :: "32 word \<Rightarrow> 'v hashmem \<Rightarrow> 'v option option" where
  "mem_find k M =
     do { r \<leftarrow> mem_seek M k (LIST_FIRST (mem_bucket M k) (hm_links M));
          case r of
            None \<Rightarrow> Some None
          | Some e \<Rightarrow> do { x \<leftarrow> ent_at M e; Some (Some (he_value x)) } }"

definition mem_remove :: "32 word \<Rightarrow> 'v hashmem \<Rightarrow> 'v hashmem option" where
  "mem_remove k M =
     do { r \<leftarrow> mem_seek M k (LIST_FIRST (mem_bucket M k) (hm_links M));
          case r of
            None \<Rightarrow> Some M
          | Some e \<Rightarrow>
              Some (M\<lparr>hm_links := LIST_REMOVE e (hm_links M), hm_ents := filter (\<lambda>b. fst b \<noteq> e) (hm_ents M)\<rparr>) }"

section \<open>The table it stands for\<close>

text \<open>Every bucket is a list in memory, and its elements are blocks with the entries of the bucket.\<close>

definition ents_at :: "'v hashmem \<Rightarrow> addr list \<Rightarrow> 'v uvhash_ent list \<Rightarrow> bool" where
  "ents_at M es b \<longleftrightarrow> map (ent_at M) es = map Some b"

definition table_at :: "'v hashmem \<Rightarrow> 'v uvhash \<Rightarrow> bool" where
  "table_at M h \<longleftrightarrow>
     hm_size M = h_size h \<and> 0 < h_size h \<and> length (h_buckets h) = h_size h \<and>
     (\<exists>L. holds list_at (hm_links M) L \<and> (\<forall>i \<ge> h_size h. L i = []) \<and>
        (\<forall>i < h_size h. ents_at M (L i) (h_buckets h ! i)))"

lemma table_bucket:
  assumes "table_at M h"
  shows "mem_bucket M k = uvhash_bucket h k" "uvhash_bucket h k < h_size h"
    "uvhash_bucket h k < length (h_buckets h)"
  using assms uvhash_bucket_less [of h k] by (simp_all add: table_at_def mem_bucket_def uvhash_bucket_def)

lemma seek_path:
  "path (ptr (hm_links M)) l es \<Longrightarrow> ents_at M es b \<Longrightarrow>
   mem_seek M k (ptr (hm_links M) l) = Some (List.find (\<lambda>e. he_key (the (ent_at M e)) = k) es)"
proof (induction es arbitrary: l b)
  case Nil
  then show ?case by (simp add: mem_seek.simps)
next
  case (Cons e es)
  then obtain x b' where x: "ent_at M e = Some x" "ents_at M es b'" by (cases b) (auto simp: ents_at_def)
  with Cons.IH [OF _ x(2), of "Next e"] Cons.prems(1) show ?case
    by (simp add: mem_seek.simps [of M k "Some e"] LIST_NEXT_def)
qed

lemma find_ents:
  "ents_at M es b \<Longrightarrow> uvhash_find_loop k b =
   map_option (\<lambda>e. he_value (the (ent_at M e))) (List.find (\<lambda>e. he_key (the (ent_at M e)) = k) es)"
proof (induction es arbitrary: b)
  case (Cons e es)
  then show ?case by (cases b) (auto simp: ents_at_def)
qed (simp add: ents_at_def)

lemma remove_ents:
  assumes "ents_at M es b" and "distinct es"
  shows "case List.find (\<lambda>e. he_key (the (ent_at M e)) = k) es of
      None \<Rightarrow> uvhash_remove_loop k b = b
    | Some e \<Rightarrow> ents_at M (remove1 e es) (uvhash_remove_loop k b)"
  using assms
proof (induction es arbitrary: b)
  case (Cons e es)
  then obtain x b' where b: "b = x # b'" "ent_at M e = Some x" "ents_at M es b'"
    by (cases b) (auto simp: ents_at_def)
  show ?case
  proof (cases "List.find (\<lambda>e. he_key (the (ent_at M e)) = k) es")
    case None
    with Cons.IH [OF b(3)] Cons.prems(2) b show ?thesis by (simp add: ents_at_def)
  next
    case (Some d)
    then have "d \<in> set es" by (auto simp: find_Some_iff)
    then have "d \<noteq> e" using Cons.prems(2) by auto
    with Some Cons.IH [OF b(3)] Cons.prems(2) b show ?thesis by (simp add: ents_at_def)
  qed
qed (simp add: ents_at_def)

lemma ents_at_cong: "ents_at M es b \<Longrightarrow> (\<And>e. e \<in> set es \<Longrightarrow> ent_at M' e = ent_at M e) \<Longrightarrow> ents_at M' es b"
  unfolding ents_at_def by (metis (no_types, lifting) map_cong)

lemma ents_at_alloc: "ents_at M es b \<Longrightarrow> e \<in> set es \<Longrightarrow> e \<in> fst ` set (hm_ents M)"
  unfolding ents_at_def by (metis (no_types) image_iff list.set_map map_of_eq_None_iff option.distinct(1))

lemma ent_filter: "d \<noteq> e \<Longrightarrow> map_of (filter (\<lambda>b. fst b \<noteq> e) ents) d = map_of ents d"
  by (induction ents) auto

section \<open>Refinement\<close>

lemma new_table:
  assumes "0 < n" and "\<forall>h \<ge> n. LIST_FIRST h m = None"
  shows "table_at (mem_new n m) (uvhash_new n)"
proof -
  have init: "ptr (fold LIST_INIT hs m) (Head h) = (if h \<in> set hs then None else ptr m (Head h))" for hs h
    by (induction hs arbitrary: m) (auto simp: LIST_INIT_def)
  then have "holds list_at (fold LIST_INIT [0..<n] m) (\<lambda>h. [])"
    using assms(2) by (simp add: holds_def apart_empty list_macros_defs)
  with assms(1) show ?thesis
    by (auto simp: table_at_def mem_new_def uvhash_new_def ents_at_def intro!: exI [of _ "\<lambda>h. []"])
qed

text \<open>One bucket is changed.\<close>

lemma table_update:
  assumes t: "table_at M h" and L: "\<forall>i \<ge> h_size h. L i = []" and i: "i < h_size h"
    and M': "holds list_at (hm_links M') (L(i := es))" "hm_size M' = hm_size M" "ents_at M' es b"
    and same: "\<And>j. j < h_size h \<Longrightarrow> j \<noteq> i \<Longrightarrow> ents_at M' (L j) (h_buckets h ! j)"
  shows "table_at M' (h\<lparr>h_buckets := (h_buckets h)[i := b]\<rparr>)"
proof -
  have "\<forall>j \<ge> h_size h. (L(i := es)) j = []" using L i by simp
  moreover have "ents_at M' ((L(i := es)) j) ((h_buckets h)[i := b] ! j)" if "j < h_size h" for j
    using that same M'(3) t by (cases "j = i") (simp_all add: table_at_def)
  ultimately show ?thesis using t M'(1,2) unfolding table_at_def by auto
qed

lemma insert_table:
  assumes malloc: "\<And>K. malloc K \<notin> set K" and t: "table_at M h"
  shows "table_at (mem_insert malloc k v M) (uvhash_insert h k v)"
proof -
  define e where "e = malloc (map fst (hm_ents M))"
  let ?i = "uvhash_bucket h k"
  obtain L where L: "holds list_at (hm_links M) L" "\<forall>i \<ge> h_size h. L i = []"
    "\<forall>i < h_size h. ents_at M (L i) (h_buckets h ! i)" using t by (auto simp: table_at_def)
  have e: "e \<notin> fst ` set (hm_ents M)" using malloc [of "map fst (hm_ents M)"] by (simp add: e_def)
  have out: "e \<notin> set (L i)" for i
  proof (cases "i < h_size h")
    case True
    with e ents_at_alloc L(3) show ?thesis by blast
  qed (simp add: L(2))
  then have "spec_step LIST (Insert_head ?i e) L = Some (L(?i := e # L ?i))"
    by (simp add: spec_step_def fresh_in_def)
  from list_macros.refines [OF L(1) this]
  have links: "holds list_at (LIST_INSERT_HEAD ?i e (hm_links M)) (L(?i := e # L ?i))" by simp
  let ?M = "mem_insert malloc k v M"
  have M: "hm_links ?M = LIST_INSERT_HEAD ?i e (hm_links M)" "hm_size ?M = hm_size M"
    "hm_ents ?M = (e, \<lparr>he_key = k, he_value = v\<rparr>) # hm_ents M"
    using table_bucket(1) [OF t] by (simp_all add: mem_insert_def e_def Let_def mem_bucket_def)
  have same: "ents_at ?M (L i) b" if "ents_at M (L i) b" for i b
    by (rule ents_at_cong [OF that]) (use out M(3) in auto)
  have "ents_at ?M (e # L ?i) (\<lparr>he_key = k, he_value = v\<rparr> # h_buckets h ! ?i)"
    using same [of ?i] L(3) table_bucket(2) [OF t] M(3) by (simp add: ents_at_def)
  from table_update [OF t L(2) table_bucket(2) [OF t] _ _ this] links same L(3) M(1,2)
  show ?thesis by (simp add: uvhash_insert_def Let_def)
qed

text \<open>The search in the bucket of a key.\<close>

lemma seek_table:
  assumes t: "table_at M h" and L: "holds list_at (hm_links M) L" "\<forall>i < h_size h. ents_at M (L i) (h_buckets h ! i)"
  shows "mem_seek M k (LIST_FIRST (mem_bucket M k) (hm_links M)) =
    Some (List.find (\<lambda>e. he_key (the (ent_at M e)) = k) (L (uvhash_bucket h k)))"
  using seek_path [OF _ L(2) [rule_format, OF table_bucket(2) [OF t]]] lists.holds_same(1) [OF L(1)]
  by (simp add: table_bucket [OF t] LIST_FIRST_def list_at_def)

lemma find_table:
  assumes t: "table_at M h"
  shows "mem_find k M = Some (uvhash_find h k)"
proof -
  obtain L where L: "holds list_at (hm_links M) L" "\<forall>i < h_size h. ents_at M (L i) (h_buckets h ! i)"
    using t by (auto simp: table_at_def)
  note b = L(2) [rule_format, OF table_bucket(2) [OF t, of k]]
  show ?thesis
  proof (cases "List.find (\<lambda>e. he_key (the (ent_at M e)) = k) (L (uvhash_bucket h k))")
    case None
    with seek_table [OF t L] find_ents [OF b, of k] show ?thesis by (simp add: mem_find_def uvhash_find_def)
  next
    case (Some e)
    then have "e \<in> set (L (uvhash_bucket h k))" by (auto simp: find_Some_iff)
    then obtain x where "ent_at M e = Some x" using ents_at_alloc [OF b] by (meson map_of_eq_None_iff not_None_eq)
    with Some seek_table [OF t L] find_ents [OF b, of k] show ?thesis by (simp add: mem_find_def uvhash_find_def)
  qed
qed

lemma remove_table:
  assumes t: "table_at M h"
  shows "\<exists>M'. mem_remove k M = Some M' \<and> table_at M' (uvhash_remove h k)"
proof -
  let ?i = "uvhash_bucket h k"
  obtain L where L: "holds list_at (hm_links M) L" "\<forall>i < h_size h. ents_at M (L i) (h_buckets h ! i)"
    "\<forall>i \<ge> h_size h. L i = []" using t by (auto simp: table_at_def)
  note b = L(2) [rule_format, OF table_bucket(2) [OF t, of k]]
    and rem = remove_ents [OF L(2) [rule_format, OF table_bucket(2) [OF t, of k]] lists.holds_same(2) [OF L(1)], of k]
  show ?thesis
  proof (cases "List.find (\<lambda>e. he_key (the (ent_at M e)) = k) (L ?i)")
    case None
    with rem have "uvhash_remove h k = h" by (simp add: uvhash_remove_def Let_def)
    with None seek_table [OF t L(1,2)] t show ?thesis by (simp add: mem_remove_def)
  next
    case (Some e)
    then have e: "e \<in> set (L ?i)" by (auto simp: find_Some_iff)
    then have "spec_step LIST (list_op.Remove ?i e) L = Some (L(?i := remove1 e (L ?i)))"
      by (simp add: spec_step_def)
    from list_macros.refines [OF L(1) this]
    have links: "holds list_at (LIST_REMOVE e (hm_links M)) (L(?i := remove1 e (L ?i)))" by simp
    let ?M = "M\<lparr>hm_links := LIST_REMOVE e (hm_links M), hm_ents := filter (\<lambda>b. fst b \<noteq> e) (hm_ents M)\<rparr>"
    have ent: "ent_at ?M d = ent_at M d" if "d \<noteq> e" for d
      using that ent_filter by simp
    have same: "ents_at ?M es c" if "ents_at M es c" "e \<notin> set es" for es c
      by (rule ents_at_cong [OF that(1)]) (use ent that(2) in metis)
    have L1: "apart L" using L(1) by (simp add: holds_def)
    have "ents_at ?M (remove1 e (L ?i)) (uvhash_remove_loop k (h_buckets h ! ?i))"
      by (rule same) (use rem Some apart_distinct [OF L1] in auto)
    moreover have "ents_at ?M (L j) (h_buckets h ! j)" if "j < h_size h" "j \<noteq> ?i" for j
      by (rule same) (use L(2) that apart_in [OF L1 e] in auto)
    ultimately have "table_at ?M (uvhash_remove h k)"
      using table_update [OF t L(3) table_bucket(2) [OF t], of ?M] links by (simp add: uvhash_remove_def Let_def)
    with Some seek_table [OF t L(1,2)] show ?thesis by (simp add: mem_remove_def)
  qed
qed

primrec mem_step :: "(addr list \<Rightarrow> addr) \<Rightarrow> (32 word, 'v) table_op \<Rightarrow> 'v hashmem \<Rightarrow> 'v hashmem option" where
  "mem_step malloc (Insert k v) M = Some (mem_insert malloc k v M)"
| "mem_step malloc (table_op.Remove k) M = mem_remove k M"

lemma mem_history:
  assumes malloc: "\<And>K. malloc K \<notin> set K"
  shows "table_at M h \<Longrightarrow> \<exists>M'. run (mem_step malloc) ops M = Some M' \<and> table_at M' (fold uvhash_step ops h)"
proof (induction ops arbitrary: M h)
  case Nil
  then show ?case by simp
next
  case (Cons op ops)
  from Cons.prems have "\<exists>M1. mem_step malloc op M = Some M1 \<and> table_at M1 (uvhash_step op h)"
    using insert_table [OF malloc] remove_table by (cases op) auto
  with Cons.IH show ?case by fastforce
qed

text \<open>
  C22. The table keyed by integers with everything it stands on: the buckets as LIST macros on
  memory, the entries as allocated blocks. After any history of insertions and removals a
  lookup ends, reads only blocks that are allocated, and answers as the association list does;
  of \<open>malloc\<close> only that it does not hand out a block twice is used.
\<close>

theorem uvhash_memory_refines_alist:
  assumes "0 < n" and "\<forall>h \<ge> n. LIST_FIRST h m = None" and "\<forall>K. malloc K \<notin> set K"
  shows "\<exists>M. run (mem_step malloc) ops (mem_new n m) = Some M \<and>
    mem_find k M = Some (map_of (fold (alist_step (=)) ops []) k)"
proof -
  obtain M where M: "run (mem_step malloc) ops (mem_new n m) = Some M" "table_at M (fold uvhash_step ops (uvhash_new n))"
    using mem_history [OF _ new_table [OF assms(1,2)]] assms(3) by blast
  have "uvhash_find (fold uvhash_step ops (uvhash_new n)) k = map_of (fold (alist_step (=)) ops []) k"
    by (rule uv.lookup_map_of [OF uvhash_history [OF uv.holds_create [OF assms(1)]]])
  with M find_table [OF M(2)] show ?thesis by simp
qed

text \<open>An allocator, for the witness: the block after the highest one in use.\<close>

definition next_block :: "addr list \<Rightarrow> addr" where
  "next_block K = Suc (foldr max K 0)"

lemma next_block_fresh: "next_block K \<notin> set K"
proof -
  have "x \<in> set K \<Longrightarrow> x \<le> foldr max K 0" for x by (induction K) auto
  then show ?thesis by (fastforce simp: next_block_def)
qed

lemma uvhash_memory_refines_alist_witness:
  "\<exists>M. run (mem_step next_block) [Insert 1 ''a'', Insert 17 ''b'', Insert 1 ''c'', table_op.Remove 17, table_op.Remove 1]
     (mem_new 16 \<lparr>ptr = \<lambda>l. None, le_prev = \<lambda>e. Head 0\<rparr>) = Some M \<and> mem_find 1 M = Some (Some ''a'')"
  using uvhash_memory_refines_alist [of 16 "\<lparr>ptr = \<lambda>l. None, le_prev = \<lambda>e. Head 0\<rparr>" next_block
      "[Insert 1 ''a'', Insert 17 ''b'', Insert 1 ''c'', table_op.Remove 17, table_op.Remove 1]" 1]
    next_block_fresh by (simp add: LIST_FIRST_def)

end
