(* ===== verification/Slist.thy ===== *)
theory Slist
  imports Links
begin

text \<open>
  The SLIST macros of compat/queue.h, whose memory is the pointer variables alone. \<open>None\<close> is a
  read through \<open>NULL\<close> or a loop that does not end.
\<close>

section \<open>The macros\<close>

type_synonym slist = "link \<Rightarrow> addr option"

definition SLIST_FIRST :: "nat \<Rightarrow> slist \<Rightarrow> addr option" where
  "SLIST_FIRST h m = m (Head h)"

definition SLIST_EMPTY :: "nat \<Rightarrow> slist \<Rightarrow> bool" where
  "SLIST_EMPTY h m \<longleftrightarrow> SLIST_FIRST h m = None"

definition SLIST_NEXT :: "addr \<Rightarrow> slist \<Rightarrow> addr option" where
  "SLIST_NEXT e m = m (Next e)"

definition SLIST_INIT :: "nat \<Rightarrow> slist \<Rightarrow> slist" where
  "SLIST_INIT h m = m(Head h := None)"

definition SLIST_INSERT_HEAD :: "nat \<Rightarrow> addr \<Rightarrow> slist \<Rightarrow> slist" where
  "SLIST_INSERT_HEAD h e m = (let m = m(Next e := SLIST_FIRST h m) in m(Head h := Some e))"

definition SLIST_INSERT_AFTER :: "addr \<Rightarrow> addr \<Rightarrow> slist \<Rightarrow> slist" where
  "SLIST_INSERT_AFTER x e m = (let m = m(Next e := SLIST_NEXT x m) in m(Next x := Some e))"

definition SLIST_REMOVE_HEAD :: "nat \<Rightarrow> slist \<Rightarrow> slist option" where
  "SLIST_REMOVE_HEAD h m = do { x \<leftarrow> SLIST_FIRST h m; Some (m(Head h := SLIST_NEXT x m)) }"

definition SLIST_REMOVE_AFTER :: "addr \<Rightarrow> slist \<Rightarrow> slist option" where
  "SLIST_REMOVE_AFTER x m = do { y \<leftarrow> SLIST_NEXT x m; Some (m(Next x := SLIST_NEXT y m)) }"

text \<open>The search for the element before \<open>e\<close>, of both families.\<close>

partial_function (option) before_from :: "(addr \<Rightarrow> addr option) \<Rightarrow> addr \<Rightarrow> addr option \<Rightarrow> addr option" where
  "before_from nxt e curelm =
     do { c \<leftarrow> curelm; if nxt c \<noteq> Some e then before_from nxt e (nxt c) else Some c }"

definition SLIST_REMOVE :: "nat \<Rightarrow> addr \<Rightarrow> slist \<Rightarrow> slist option" where
  "SLIST_REMOVE h e m =
     (if SLIST_FIRST h m = Some e then SLIST_REMOVE_HEAD h m
      else do { curelm \<leftarrow> before_from (\<lambda>c. SLIST_NEXT c m) e (SLIST_FIRST h m);
                SLIST_REMOVE_AFTER curelm m })"

definition SLIST_SWAP :: "nat \<Rightarrow> nat \<Rightarrow> slist \<Rightarrow> slist" where
  "SLIST_SWAP h k m =
     (let swap_first = SLIST_FIRST h m; m = m(Head h := SLIST_FIRST k m) in m(Head k := swap_first))"

definition SLIST_FOREACH :: "nat \<Rightarrow> slist \<Rightarrow> addr list option" where
  "SLIST_FOREACH h m = visits (\<lambda>e. SLIST_NEXT e m) (SLIST_FIRST h m)"

definition SLIST_FOREACH_SAFE :: "nat \<Rightarrow> (addr \<Rightarrow> slist \<Rightarrow> slist option) \<Rightarrow> slist \<Rightarrow> slist option" where
  "SLIST_FOREACH_SAFE h body m = safe_loop SLIST_NEXT body (SLIST_FIRST h m) m"

text \<open>\<open>SLIST_FOREACH_PREVPTR\<close> visits each element with the pointer variable that points to it.\<close>

partial_function (option) prevptrs :: "slist \<Rightarrow> link \<Rightarrow> (link \<times> addr) list option" where
  "prevptrs m varp =
     (case m varp of
        None \<Rightarrow> Some []
      | Some var \<Rightarrow> do { es \<leftarrow> prevptrs m (Next var); Some ((varp, var) # es) })"

definition SLIST_FOREACH_PREVPTR :: "nat \<Rightarrow> slist \<Rightarrow> (link \<times> addr) list option" where
  "SLIST_FOREACH_PREVPTR h m = prevptrs m (Head h)"

section \<open>The search\<close>

lemma before_found:
  "path p l (y # ys @ x # zs) \<Longrightarrow> x \<notin> set (y # ys) \<Longrightarrow>
   before_from (\<lambda>c. p (Next c)) x (Some y) = Some (last (y # ys))"
proof (induction ys arbitrary: l y)
  case Nil
  then show ?case by (simp add: before_from.simps)
next
  case (Cons z ys)
  from Cons.prems(1) have "path p (Next y) (z # ys @ x # zs)" by simp
  from Cons.IH [OF this] Cons.prems show ?case by (subst before_from.simps) simp
qed

lemma before_at:
  assumes "path p (Head h) (us @ u # x # zs)" and "x \<notin> set (us @ [u])"
  shows "before_from (\<lambda>c. p (Next c)) x (p (Head h)) = Some u" "p (Head h) \<noteq> Some x"
  using assms before_found [of p "Head h" "hd us" "tl us @ [u]" x zs] before_found [of p "Head h" u "[]" x zs]
  by (cases us; simp)+

section \<open>Lists in memory\<close>

definition slist_at :: "slist \<Rightarrow> nat \<Rightarrow> addr list \<Rightarrow> bool" where
  "slist_at m h xs \<longleftrightarrow> path m (Head h) xs"

definition slist_changes :: "nat set \<Rightarrow> addr set \<Rightarrow> slist \<Rightarrow> slist \<Rightarrow> bool" where
  "slist_changes H A m m' \<longleftrightarrow> off (Head ` H \<union> Next ` A) m m'"

interpretation slists: queue_family slist_at slist_changes
proof
  fix m k xs H A m'
  assume "slist_at m k xs" "slist_changes H A m m'" "k \<notin> H" "set xs \<inter> A = {}"
  then show "slist_at m' k xs"
    unfolding slist_at_def slist_changes_def off_def by (elim path_frame) fastforce
qed (auto simp: slist_changes_def links elim!: off_trans)

lemmas slist_defs = SLIST_FIRST_def SLIST_NEXT_def slist_at_def slist_changes_def Let_def

lemma slist_first: "slist_at m h xs \<Longrightarrow> SLIST_FIRST h m = first xs"
  by (simp add: slist_defs path_first)

lemma insert_head_slist:
  assumes "slist_at m h xs" and "e \<notin> set xs" and "distinct xs"
  shows "slist_at (SLIST_INSERT_HEAD h e m) h (e # xs)"
    "slist_changes {h} (insert e (set xs)) m (SLIST_INSERT_HEAD h e m)"
  using assms by (cases xs; simp add: SLIST_INSERT_HEAD_def slist_defs links; fail)+

lemma insert_after_slist:
  assumes "slist_at m h (ys @ x # zs)" and "e \<notin> set (ys @ x # zs)" and "distinct (ys @ x # zs)"
  shows "slist_at (SLIST_INSERT_AFTER x e m) h (ys @ x # e # zs)"
    "slist_changes {h} (insert e (set (ys @ x # zs))) m (SLIST_INSERT_AFTER x e m)"
  using assms by (cases zs; simp add: SLIST_INSERT_AFTER_def slist_defs links; fail)+

lemma remove_head_slist:
  assumes "slist_at m h (x # xs)" and "distinct (x # xs)"
  shows "\<exists>m'. SLIST_REMOVE_HEAD h m = Some m' \<and> slist_at m' h xs \<and> slist_changes {h} (set (x # xs)) m m'"
  using assms by (cases xs; simp add: SLIST_REMOVE_HEAD_def slist_defs links; fail)+

lemma remove_after_slist:
  assumes "slist_at m h (ys @ x # y # zs)" and "distinct (ys @ x # y # zs)"
  shows "\<exists>m'. SLIST_REMOVE_AFTER x m = Some m' \<and> slist_at m' h (ys @ x # zs) \<and>
    slist_changes {h} (set (ys @ x # y # zs)) m m'"
  using assms by (cases zs; simp add: SLIST_REMOVE_AFTER_def slist_defs links; fail)+

lemma remove_slist:
  assumes "slist_at m h (ys @ x # zs)" and "distinct (ys @ x # zs)"
  shows "\<exists>m'. SLIST_REMOVE h x m = Some m' \<and> slist_at m' h (ys @ zs) \<and> slist_changes {h} (set (ys @ x # zs)) m m'"
proof (cases ys rule: rev_cases)
  case Nil
  with assms remove_head_slist [of m h x zs] show ?thesis by (simp add: SLIST_REMOVE_def slist_first)
next
  case (snoc us u)
  with assms have "path m (Head h) (us @ u # x # zs)" "x \<notin> set (us @ [u])" by (auto simp: slist_at_def)
  note b = before_at [OF this]
  from remove_after_slist [of m h us u x zs] snoc assms b show ?thesis
    by (simp add: SLIST_REMOVE_def SLIST_FIRST_def SLIST_NEXT_def)
qed

lemma swap_slists:
  assumes "slist_at m h xs" and "slist_at m k ys" and "h \<noteq> k" and "distinct (xs @ ys)"
  shows "slist_at (SLIST_SWAP h k m) h ys" "slist_at (SLIST_SWAP h k m) k xs"
    "slist_changes {h, k} (set xs \<union> set ys) m (SLIST_SWAP h k m)"
  using assms by (cases xs; cases ys; simp add: SLIST_SWAP_def slist_defs links; fail)+

lemma swap_same_slist:
  assumes "slist_at m h xs" and "distinct xs"
  shows "slist_at (SLIST_SWAP h h m) h xs" "slist_changes {h} (set xs) m (SLIST_SWAP h h m)"
  using assms by (cases xs; simp add: SLIST_SWAP_def slist_defs links; fail)+

primrec slist_step :: "list_op \<Rightarrow> slist \<Rightarrow> slist option" where
  "slist_step (Insert_head h e) m = Some (SLIST_INSERT_HEAD h e m)"
| "slist_step (Insert_tail h e) m = None"
| "slist_step (Insert_after h x e) m = Some (SLIST_INSERT_AFTER x e m)"
| "slist_step (Insert_before h x e) m = None"
| "slist_step (Remove_head h) m = SLIST_REMOVE_HEAD h m"
| "slist_step (Remove_after h x) m = SLIST_REMOVE_AFTER x m"
| "slist_step (Remove h x) m = SLIST_REMOVE h x m"
| "slist_step (Remove_where h P) m = SLIST_FOREACH_SAFE h (if_matches P (SLIST_REMOVE h)) m"
| "slist_step (Remove_where_reverse h P) m = None"
| "slist_step (Concat h k) m = None"
| "slist_step (Swap h k) m = Some (SLIST_SWAP h k m)"

interpretation slist_loop: removing_loop
  "inside slist_at slist_changes h A m0" SLIST_NEXT "SLIST_REMOVE h" for h A m0
proof
  fix m ys x xs
  assume m: "inside slist_at slist_changes h A m0 m (ys @ x # xs)"
  then have l: "slist_at m h (ys @ x # xs)" "distinct (ys @ x # xs)" by (simp_all add: inside_def)
  then show "SLIST_NEXT x m = first xs" by (simp add: slist_defs links path_first)
  show "\<exists>m'. SLIST_REMOVE h x m = Some m' \<and> inside slist_at slist_changes h A m0 m' (ys @ xs)"
    using slists.inside_remove [OF m] remove_slist [OF l] by blast
qed

interpretation slist_macros: queue_macros slist_at slist_changes SLIST slist_step
proof
  fix m h xs P
  assume l: "slist_at m h xs" "distinct xs"
  from slist_loop.loop [OF slists.inside_start [OF l]]
  show "\<exists>m'. slist_step (Remove_where h P) m = Some m' \<and>
      inside slist_at slist_changes h (set xs) m m' (filter (\<lambda>x. \<not> P x) xs)"
    by (simp add: SLIST_FOREACH_SAFE_def slist_first [OF l(1)])
qed (simp_all add: insert_head_slist insert_after_slist remove_head_slist remove_after_slist remove_slist
    swap_slists swap_same_slist del: set_append distinct_append list.set distinct.simps)

lemma prevptrs_path:
  "path m l xs \<Longrightarrow> \<exists>es. prevptrs m l = Some es \<and> map snd es = xs \<and> (\<forall>(varp, var) \<in> set es. m varp = Some var)"
proof (induction xs arbitrary: l)
  case Nil
  then show ?case by (simp add: prevptrs.simps)
next
  case (Cons x xs)
  then obtain es where "prevptrs m (Next x) = Some es" "map snd es = xs" "\<forall>(varp, var) \<in> set es. m varp = Some var"
    by auto
  with Cons.prems show ?case by (simp add: prevptrs.simps [of m l])
qed

text \<open>
  The SLIST macros keep lists: their loops end and visit what the operations on lists leave,
  \<open>SLIST_FOREACH_PREVPTR\<close> with the pointer variable of each element.
\<close>

theorem slist_macros_refine_lists:
  assumes "\<forall>h. SLIST_FIRST h m = None" and "run (spec_step SLIST) ps (\<lambda>h. []) = Some L"
  shows "\<exists>m'. run slist_step ps m = Some m' \<and>
    (\<forall>h. SLIST_FOREACH h m' = Some (L h) \<and>
       (\<exists>es. SLIST_FOREACH_PREVPTR h m' = Some es \<and> map snd es = L h \<and> (\<forall>(varp, var) \<in> set es. m' varp = Some var)))"
proof -
  have "holds slist_at m (\<lambda>h. [])" using assms(1) by (simp add: holds_def apart_empty slist_defs)
  from slist_macros.run_sim [OF this assms(2)] obtain m' where m': "run slist_step ps m = Some m'" "holds slist_at m' L" by blast
  have l: "path m' (Head h) (L h)" for h using slists.holds_same(1) [OF m'(2)] by (simp add: slist_at_def)
  then have "SLIST_FOREACH h m' = Some (L h)" for h
    by (simp add: SLIST_FOREACH_def SLIST_FIRST_def SLIST_NEXT_def visits_path)
  with m'(1) prevptrs_path [OF l] show ?thesis by (auto simp: SLIST_FOREACH_PREVPTR_def)
qed

end
