(* ===== verification/Stailq.thy ===== *)
theory Stailq
  imports Slist
begin

text \<open>
  The STAILQ macros of compat/queue.h: singly-linked lists whose heads also hold the address
  of the last pointer variable. \<open>None\<close> is a read through \<open>NULL\<close> or a loop that does not end.
\<close>

section \<open>The macros\<close>

record stailq =
  stq_ptr :: "link \<Rightarrow> addr option"
  stqh_last :: "nat \<Rightarrow> link"

abbreviation put_next :: "link \<Rightarrow> addr option \<Rightarrow> stailq \<Rightarrow> stailq" where
  "put_next l v m \<equiv> m\<lparr>stq_ptr := (stq_ptr m)(l := v)\<rparr>"

abbreviation put_end :: "nat \<Rightarrow> link \<Rightarrow> stailq \<Rightarrow> stailq" where
  "put_end h l m \<equiv> m\<lparr>stqh_last := (stqh_last m)(h := l)\<rparr>"

definition STAILQ_FIRST :: "nat \<Rightarrow> stailq \<Rightarrow> addr option" where
  "STAILQ_FIRST h m = stq_ptr m (Head h)"

definition STAILQ_EMPTY :: "nat \<Rightarrow> stailq \<Rightarrow> bool" where
  "STAILQ_EMPTY h m \<longleftrightarrow> STAILQ_FIRST h m = None"

definition STAILQ_NEXT :: "addr \<Rightarrow> stailq \<Rightarrow> addr option" where
  "STAILQ_NEXT e m = stq_ptr m (Next e)"

text \<open>
  The element whose next field is the last pointer variable, found from the field by its
  offset: garbage, which is \<open>None\<close>, if that variable were the head of a list that is not empty.
\<close>

definition STAILQ_LAST :: "nat \<Rightarrow> stailq \<Rightarrow> addr option option" where
  "STAILQ_LAST h m =
     (if STAILQ_EMPTY h m then Some None
      else case stqh_last m h of Next e \<Rightarrow> Some (Some e) | Head k \<Rightarrow> None)"

definition STAILQ_INIT :: "nat \<Rightarrow> stailq \<Rightarrow> stailq" where
  "STAILQ_INIT h m = (let m = put_next (Head h) None m in put_end h (Head h) m)"

definition STAILQ_INSERT_HEAD :: "nat \<Rightarrow> addr \<Rightarrow> stailq \<Rightarrow> stailq" where
  "STAILQ_INSERT_HEAD h e m =
     (let m = put_next (Next e) (STAILQ_FIRST h m) m;
          m = (if STAILQ_NEXT e m = None then put_end h (Next e) m else m)
      in put_next (Head h) (Some e) m)"

definition STAILQ_INSERT_TAIL :: "nat \<Rightarrow> addr \<Rightarrow> stailq \<Rightarrow> stailq" where
  "STAILQ_INSERT_TAIL h e m =
     (let m = put_next (Next e) None m;
          m = put_next (stqh_last m h) (Some e) m
      in put_end h (Next e) m)"

definition STAILQ_INSERT_AFTER :: "nat \<Rightarrow> addr \<Rightarrow> addr \<Rightarrow> stailq \<Rightarrow> stailq" where
  "STAILQ_INSERT_AFTER h x e m =
     (let m = put_next (Next e) (STAILQ_NEXT x m) m;
          m = (if STAILQ_NEXT e m = None then put_end h (Next e) m else m)
      in put_next (Next x) (Some e) m)"

definition STAILQ_REMOVE_HEAD :: "nat \<Rightarrow> stailq \<Rightarrow> stailq option" where
  "STAILQ_REMOVE_HEAD h m =
     do { x \<leftarrow> STAILQ_FIRST h m;
          let m = put_next (Head h) (STAILQ_NEXT x m) m;
          Some (if STAILQ_FIRST h m = None then put_end h (Head h) m else m) }"

definition STAILQ_REMOVE_AFTER :: "nat \<Rightarrow> addr \<Rightarrow> stailq \<Rightarrow> stailq option" where
  "STAILQ_REMOVE_AFTER h x m =
     do { y \<leftarrow> STAILQ_NEXT x m;
          let m = put_next (Next x) (STAILQ_NEXT y m) m;
          Some (if STAILQ_NEXT x m = None then put_end h (Next x) m else m) }"

definition STAILQ_REMOVE :: "nat \<Rightarrow> addr \<Rightarrow> stailq \<Rightarrow> stailq option" where
  "STAILQ_REMOVE h e m =
     (if STAILQ_FIRST h m = Some e then STAILQ_REMOVE_HEAD h m
      else do { curelm \<leftarrow> before_from (\<lambda>c. STAILQ_NEXT c m) e (STAILQ_FIRST h m);
                STAILQ_REMOVE_AFTER h curelm m })"

definition STAILQ_CONCAT :: "nat \<Rightarrow> nat \<Rightarrow> stailq \<Rightarrow> stailq" where
  "STAILQ_CONCAT h k m =
     (if \<not> STAILQ_EMPTY k m
      then let m = put_next (stqh_last m h) (STAILQ_FIRST k m) m;
               m = put_end h (stqh_last m k) m
           in STAILQ_INIT k m
      else m)"

definition STAILQ_SWAP :: "nat \<Rightarrow> nat \<Rightarrow> stailq \<Rightarrow> stailq" where
  "STAILQ_SWAP h k m =
     (let swap_first = STAILQ_FIRST h m;
          swap_last = stqh_last m h;
          m = put_next (Head h) (STAILQ_FIRST k m) m;
          m = put_end h (stqh_last m k) m;
          m = put_next (Head k) swap_first m;
          m = put_end k swap_last m;
          m = (if STAILQ_EMPTY h m then put_end h (Head h) m else m)
      in if STAILQ_EMPTY k m then put_end k (Head k) m else m)"

definition STAILQ_FOREACH :: "nat \<Rightarrow> stailq \<Rightarrow> addr list option" where
  "STAILQ_FOREACH h m = visits (\<lambda>e. STAILQ_NEXT e m) (STAILQ_FIRST h m)"

definition STAILQ_FOREACH_SAFE :: "nat \<Rightarrow> (addr \<Rightarrow> stailq \<Rightarrow> stailq option) \<Rightarrow> stailq \<Rightarrow> stailq option" where
  "STAILQ_FOREACH_SAFE h body m = safe_loop STAILQ_NEXT body (STAILQ_FIRST h m) m"

section \<open>Tail queues in memory\<close>

definition stailq_at :: "stailq \<Rightarrow> nat \<Rightarrow> addr list \<Rightarrow> bool" where
  "stailq_at m h xs \<longleftrightarrow> path (stq_ptr m) (Head h) xs \<and> stqh_last m h = last_link (Head h) xs"

definition stailq_changes :: "nat set \<Rightarrow> addr set \<Rightarrow> stailq \<Rightarrow> stailq \<Rightarrow> bool" where
  "stailq_changes H A m m' \<longleftrightarrow>
     off (Head ` H \<union> Next ` A) (stq_ptr m) (stq_ptr m') \<and> off H (stqh_last m) (stqh_last m')"

interpretation stails: queue_family stailq_at stailq_changes
proof
  fix m k xs H A m'
  assume "stailq_at m k xs" "stailq_changes H A m m'" "k \<notin> H" "set xs \<inter> A = {}"
  then show "stailq_at m' k xs"
    unfolding stailq_at_def stailq_changes_def off_def
    by (intro conjI; elim conjE) (erule path_frame | simp; fastforce)+
qed (auto simp: stailq_changes_def links elim!: off_trans)

lemmas stailq_defs = STAILQ_FIRST_def STAILQ_EMPTY_def STAILQ_NEXT_def stailq_at_def stailq_changes_def Let_def

lemma stailq_first: "stailq_at m h xs \<Longrightarrow> STAILQ_FIRST h m = first xs"
  by (simp add: stailq_defs path_first)

lemma stailq_last:
  assumes "stailq_at m h xs"
  shows "STAILQ_LAST h m = Some (if xs = [] then None else Some (last xs))"
  using assms stailq_first [OF assms]
  by (cases xs rule: rev_cases) (simp_all add: STAILQ_LAST_def STAILQ_EMPTY_def stailq_at_def links)

lemma foreach_stailq: "stailq_at m h xs \<Longrightarrow> STAILQ_FOREACH h m = Some xs"
  by (simp add: STAILQ_FOREACH_def STAILQ_FIRST_def STAILQ_NEXT_def stailq_at_def visits_path)

lemma insert_head_stailq:
  assumes "stailq_at m h xs" and "e \<notin> set xs" and "distinct xs"
  shows "stailq_at (STAILQ_INSERT_HEAD h e m) h (e # xs)"
    "stailq_changes {h} (insert e (set xs)) m (STAILQ_INSERT_HEAD h e m)"
  using assms by (cases xs; simp add: STAILQ_INSERT_HEAD_def stailq_defs links; fail)+

lemma insert_tail_stailq:
  assumes "stailq_at m h xs" and "e \<notin> set xs" and "distinct xs"
  shows "stailq_at (STAILQ_INSERT_TAIL h e m) h (xs @ [e])"
    "stailq_changes {h} (insert e (set xs)) m (STAILQ_INSERT_TAIL h e m)"
  using assms path_reach [of "stq_ptr m" "Head h" xs] by (simp_all add: STAILQ_INSERT_TAIL_def stailq_defs links)

lemma insert_after_stailq:
  assumes "stailq_at m h (ys @ x # zs)" and "e \<notin> set (ys @ x # zs)" and "distinct (ys @ x # zs)"
  shows "stailq_at (STAILQ_INSERT_AFTER h x e m) h (ys @ x # e # zs)"
    "stailq_changes {h} (insert e (set (ys @ x # zs))) m (STAILQ_INSERT_AFTER h x e m)"
  using assms by (cases zs; simp add: STAILQ_INSERT_AFTER_def stailq_defs links; fail)+

lemma remove_head_stailq:
  assumes "stailq_at m h (x # xs)" and "distinct (x # xs)"
  shows "\<exists>m'. STAILQ_REMOVE_HEAD h m = Some m' \<and> stailq_at m' h xs \<and> stailq_changes {h} (set (x # xs)) m m'"
  using assms by (cases xs; simp add: STAILQ_REMOVE_HEAD_def stailq_defs links; fail)+

lemma remove_after_stailq:
  assumes "stailq_at m h (ys @ x # y # zs)" and "distinct (ys @ x # y # zs)"
  shows "\<exists>m'. STAILQ_REMOVE_AFTER h x m = Some m' \<and> stailq_at m' h (ys @ x # zs) \<and>
    stailq_changes {h} (set (ys @ x # y # zs)) m m'"
  using assms by (cases zs; simp add: STAILQ_REMOVE_AFTER_def stailq_defs links; fail)+

lemma remove_stailq:
  assumes "stailq_at m h (ys @ x # zs)" and "distinct (ys @ x # zs)"
  shows "\<exists>m'. STAILQ_REMOVE h x m = Some m' \<and> stailq_at m' h (ys @ zs) \<and> stailq_changes {h} (set (ys @ x # zs)) m m'"
proof (cases ys rule: rev_cases)
  case Nil
  with assms remove_head_stailq [of m h x zs] show ?thesis by (simp add: STAILQ_REMOVE_def stailq_first)
next
  case (snoc us u)
  with assms have "path (stq_ptr m) (Head h) (us @ u # x # zs)" "x \<notin> set (us @ [u])" by (auto simp: stailq_at_def)
  note b = before_at [OF this]
  from remove_after_stailq [of m h us u x zs] snoc assms b show ?thesis
    by (simp add: STAILQ_REMOVE_def STAILQ_FIRST_def STAILQ_NEXT_def)
qed

lemma concat_stailq:
  assumes "stailq_at m h xs" and "stailq_at m k ys" and "h \<noteq> k" and "distinct (xs @ ys)"
  shows "stailq_at (STAILQ_CONCAT h k m) h (xs @ ys)" "stailq_at (STAILQ_CONCAT h k m) k []"
    "stailq_changes {h, k} (set xs \<union> set ys) m (STAILQ_CONCAT h k m)"
  using assms path_reach [of "stq_ptr m" "Head h" xs]
  by (cases ys; simp add: STAILQ_CONCAT_def STAILQ_INIT_def stailq_defs; simp add: links; fail)+

lemma swap_stailq:
  assumes "stailq_at m h xs" and "stailq_at m k ys" and "h \<noteq> k" and "distinct (xs @ ys)"
  shows "stailq_at (STAILQ_SWAP h k m) h ys" "stailq_at (STAILQ_SWAP h k m) k xs"
    "stailq_changes {h, k} (set xs \<union> set ys) m (STAILQ_SWAP h k m)"
  using assms by (cases xs; cases ys; simp add: STAILQ_SWAP_def stailq_defs; simp add: links; fail)+

lemma swap_same_stailq:
  assumes "stailq_at m h xs" and "distinct xs"
  shows "stailq_at (STAILQ_SWAP h h m) h xs" "stailq_changes {h} (set xs) m (STAILQ_SWAP h h m)"
  using assms by (cases xs; simp add: STAILQ_SWAP_def stailq_defs; simp add: links; fail)+

section \<open>Refinement\<close>

primrec stailq_step :: "list_op \<Rightarrow> stailq \<Rightarrow> stailq option" where
  "stailq_step (Insert_head h e) m = Some (STAILQ_INSERT_HEAD h e m)"
| "stailq_step (Insert_tail h e) m = Some (STAILQ_INSERT_TAIL h e m)"
| "stailq_step (Insert_after h x e) m = Some (STAILQ_INSERT_AFTER h x e m)"
| "stailq_step (Insert_before h x e) m = None"
| "stailq_step (Remove_head h) m = STAILQ_REMOVE_HEAD h m"
| "stailq_step (Remove_after h x) m = STAILQ_REMOVE_AFTER h x m"
| "stailq_step (Remove h x) m = STAILQ_REMOVE h x m"
| "stailq_step (Remove_where h P) m = STAILQ_FOREACH_SAFE h (if_matches P (STAILQ_REMOVE h)) m"
| "stailq_step (Remove_where_reverse h P) m = None"
| "stailq_step (Concat h k) m = Some (STAILQ_CONCAT h k m)"
| "stailq_step (Swap h k) m = Some (STAILQ_SWAP h k m)"

interpretation stailq_loop: removing_loop
  "inside stailq_at stailq_changes h A m0" STAILQ_NEXT "STAILQ_REMOVE h" for h A m0
proof
  fix m ys x xs
  assume m: "inside stailq_at stailq_changes h A m0 m (ys @ x # xs)"
  then have l: "stailq_at m h (ys @ x # xs)" "distinct (ys @ x # xs)" by (simp_all add: inside_def)
  then show "STAILQ_NEXT x m = first xs" by (simp add: stailq_defs links path_first)
  show "\<exists>m'. STAILQ_REMOVE h x m = Some m' \<and> inside stailq_at stailq_changes h A m0 m' (ys @ xs)"
    using stails.inside_remove [OF m] remove_stailq [OF l] by blast
qed

interpretation stailq_macros: queue_macros stailq_at stailq_changes STAILQ stailq_step
proof
  fix m h xs P
  assume l: "stailq_at m h xs" "distinct xs"
  from stailq_loop.loop [OF stails.inside_start [OF l]]
  show "\<exists>m'. stailq_step (Remove_where h P) m = Some m' \<and>
      inside stailq_at stailq_changes h (set xs) m m' (filter (\<lambda>x. \<not> P x) xs)"
    by (simp add: STAILQ_FOREACH_SAFE_def stailq_first [OF l(1)])
qed (simp_all add: insert_head_stailq insert_tail_stailq insert_after_stailq remove_head_stailq
    remove_after_stailq remove_stailq concat_stailq swap_stailq swap_same_stailq
    del: set_append distinct_append list.set distinct.simps)

text \<open>
  C40. The STAILQ macros keep lists: after any sequence of insertions at either end or after an
  element, removals, removing loops, concatenations and swaps, on heads that were initialised
  and with an element in one list at most, none reads through \<open>NULL\<close>, a loop over a head ends
  and visits what the operations on lists leave there, and \<open>STAILQ_LAST\<close> is the last of it.
\<close>

theorem stailq_macros_refine_lists:
  assumes "\<forall>h. STAILQ_FIRST h m = None \<and> stqh_last m h = Head h" and "run (spec_step STAILQ) ps (\<lambda>h. []) = Some L"
  shows "\<exists>m'. run stailq_step ps m = Some m' \<and>
    (\<forall>h. STAILQ_FOREACH h m' = Some (L h) \<and> STAILQ_LAST h m' = Some (if L h = [] then None else Some (last (L h))))"
proof -
  have "holds stailq_at m (\<lambda>h. [])" using assms(1) by (simp add: holds_def apart_empty stailq_defs)
  from stailq_macros.run_sim [OF this assms(2)] obtain m' where m': "run stailq_step ps m = Some m'" "holds stailq_at m' L" by blast
  have l: "stailq_at m' h (L h)" for h by (rule stails.holds_same(1) [OF m'(2)])
  with m'(1) foreach_stailq stailq_last show ?thesis by blast
qed

lemma stailq_macros_refine_lists_witness:
  "\<exists>m'. run stailq_step [Insert_tail 0 7, Insert_tail 0 8, Insert_after 0 7 6, Insert_head 1 9, Concat 0 1, Remove 0 9, Remove_head 0]
       (STAILQ_INIT 0 \<lparr>stq_ptr = \<lambda>l. None, stqh_last = Head\<rparr>) = Some m' \<and>
     STAILQ_FOREACH 0 m' = Some [6, 8] \<and> STAILQ_LAST 0 m' = Some (Some 8)"
proof -
  let ?m = "STAILQ_INIT 0 \<lparr>stq_ptr = \<lambda>l. None, stqh_last = Head\<rparr>"
  let ?ps = "[Insert_tail 0 7, Insert_tail 0 8, Insert_after 0 7 6, Insert_head 1 9, Concat 0 1, Remove 0 9, Remove_head 0]"
  obtain L where L: "run (spec_step STAILQ) ?ps (\<lambda>h. []) = Some L" "L 0 = [6, 8]"
    by (simp add: spec_step_def fresh_in_def)
  have "\<forall>h. STAILQ_FIRST h ?m = None \<and> stqh_last ?m h = Head h" by (simp add: STAILQ_INIT_def STAILQ_FIRST_def Let_def)
  from stailq_macros_refine_lists [OF this L(1)] obtain m' where "run stailq_step ?ps ?m = Some m'"
    "STAILQ_FOREACH 0 m' = Some (L 0)" "STAILQ_LAST 0 m' = Some (if L 0 = [] then None else Some (last (L 0)))" by blast
  with L(2) show ?thesis by simp
qed

end
