(* ===== verification/Tailq.thy ===== *)
theory Tailq
  imports Links
begin

text \<open>
  The TAILQ macros of compat/queue.h: lists with a head of two fields, the pointer to the
  first element and the address of the last pointer variable. They go backwards by reading
  the entry of an element as if it were a head, which works because the two structs have the
  same layout.
\<close>

section \<open>The macros\<close>

record tailq =
  tq_ptr :: "link \<Rightarrow> addr option"
  tqe_prev :: "addr \<Rightarrow> link"
  tqh_last :: "nat \<Rightarrow> link"

abbreviation put_ptr :: "link \<Rightarrow> addr option \<Rightarrow> tailq \<Rightarrow> tailq" where
  "put_ptr l v m \<equiv> m\<lparr>tq_ptr := (tq_ptr m)(l := v)\<rparr>"

abbreviation put_prev :: "addr \<Rightarrow> link \<Rightarrow> tailq \<Rightarrow> tailq" where
  "put_prev e l m \<equiv> m\<lparr>tqe_prev := (tqe_prev m)(e := l)\<rparr>"

abbreviation put_last :: "nat \<Rightarrow> link \<Rightarrow> tailq \<Rightarrow> tailq" where
  "put_last h l m \<equiv> m\<lparr>tqh_last := (tqh_last m)(h := l)\<rparr>"

definition TAILQ_FIRST :: "nat \<Rightarrow> tailq \<Rightarrow> addr option" where
  "TAILQ_FIRST h m = tq_ptr m (Head h)"

definition TAILQ_EMPTY :: "nat \<Rightarrow> tailq \<Rightarrow> bool" where
  "TAILQ_EMPTY h m \<longleftrightarrow> TAILQ_FIRST h m = None"

definition TAILQ_NEXT :: "addr \<Rightarrow> tailq \<Rightarrow> addr option" where
  "TAILQ_NEXT e m = tq_ptr m (Next e)"

text \<open>
  \<open>((struct headname *)l)->tqh_last\<close>: the second field of the struct whose first field is the
  pointer variable \<open>l\<close>, be it a head or an entry.
\<close>

definition as_head :: "link \<Rightarrow> tailq \<Rightarrow> link" where
  "as_head l m = (case l of Head h \<Rightarrow> tqh_last m h | Next e \<Rightarrow> tqe_prev m e)"

definition TAILQ_LAST :: "nat \<Rightarrow> tailq \<Rightarrow> addr option" where
  "TAILQ_LAST h m = tq_ptr m (as_head (tqh_last m h) m)"

definition TAILQ_PREV :: "addr \<Rightarrow> tailq \<Rightarrow> addr option" where
  "TAILQ_PREV e m = tq_ptr m (as_head (tqe_prev m e) m)"

definition TAILQ_INIT :: "nat \<Rightarrow> tailq \<Rightarrow> tailq" where
  "TAILQ_INIT h m = (let m = put_ptr (Head h) None m in put_last h (Head h) m)"

definition TAILQ_INSERT_HEAD :: "nat \<Rightarrow> addr \<Rightarrow> tailq \<Rightarrow> tailq" where
  "TAILQ_INSERT_HEAD h e m =
     (let m = put_ptr (Next e) (TAILQ_FIRST h m) m;
          m = (case TAILQ_NEXT e m of
                 Some n \<Rightarrow> put_prev n (Next e) m
               | None \<Rightarrow> put_last h (Next e) m);
          m = put_ptr (Head h) (Some e) m
      in put_prev e (Head h) m)"

definition TAILQ_INSERT_TAIL :: "nat \<Rightarrow> addr \<Rightarrow> tailq \<Rightarrow> tailq" where
  "TAILQ_INSERT_TAIL h e m =
     (let m = put_ptr (Next e) None m;
          m = put_prev e (tqh_last m h) m;
          m = put_ptr (tqh_last m h) (Some e) m
      in put_last h (Next e) m)"

definition TAILQ_INSERT_AFTER :: "nat \<Rightarrow> addr \<Rightarrow> addr \<Rightarrow> tailq \<Rightarrow> tailq" where
  "TAILQ_INSERT_AFTER h x e m =
     (let m = put_ptr (Next e) (TAILQ_NEXT x m) m;
          m = (case TAILQ_NEXT e m of
                 Some n \<Rightarrow> put_prev n (Next e) m
               | None \<Rightarrow> put_last h (Next e) m);
          m = put_ptr (Next x) (Some e) m
      in put_prev e (Next x) m)"

definition TAILQ_INSERT_BEFORE :: "addr \<Rightarrow> addr \<Rightarrow> tailq \<Rightarrow> tailq" where
  "TAILQ_INSERT_BEFORE x e m =
     (let m = put_prev e (tqe_prev m x) m;
          m = put_ptr (Next e) (Some x) m;
          m = put_ptr (tqe_prev m x) (Some e) m
      in put_prev x (Next e) m)"

definition TAILQ_REMOVE :: "nat \<Rightarrow> addr \<Rightarrow> tailq \<Rightarrow> tailq" where
  "TAILQ_REMOVE h e m =
     (let m = (case TAILQ_NEXT e m of
                 Some n \<Rightarrow> put_prev n (tqe_prev m e) m
               | None \<Rightarrow> put_last h (tqe_prev m e) m)
      in put_ptr (tqe_prev m e) (TAILQ_NEXT e m) m)"

definition TAILQ_CONCAT :: "nat \<Rightarrow> nat \<Rightarrow> tailq \<Rightarrow> tailq" where
  "TAILQ_CONCAT h k m =
     (case TAILQ_FIRST k m of
        None \<Rightarrow> m
      | Some x \<Rightarrow>
          (let m = put_ptr (tqh_last m h) (Some x) m;
               m = put_prev x (tqh_last m h) m;
               m = put_last h (tqh_last m k) m
           in TAILQ_INIT k m))"

definition TAILQ_SWAP :: "nat \<Rightarrow> nat \<Rightarrow> tailq \<Rightarrow> tailq" where
  "TAILQ_SWAP h k m =
     (let swap_first = tq_ptr m (Head h);
          swap_last = tqh_last m h;
          m = put_ptr (Head h) (tq_ptr m (Head k)) m;
          m = put_last h (tqh_last m k) m;
          m = put_ptr (Head k) swap_first m;
          m = put_last k swap_last m;
          m = (case tq_ptr m (Head h) of
                 Some x \<Rightarrow> put_prev x (Head h) m
               | None \<Rightarrow> put_last h (Head h) m)
      in case tq_ptr m (Head k) of
           Some x \<Rightarrow> put_prev x (Head k) m
         | None \<Rightarrow> put_last k (Head k) m)"

definition TAILQ_FOREACH :: "nat \<Rightarrow> tailq \<Rightarrow> addr list option" where
  "TAILQ_FOREACH h m = visits (\<lambda>e. TAILQ_NEXT e m) (TAILQ_FIRST h m)"

definition TAILQ_FOREACH_REVERSE :: "nat \<Rightarrow> tailq \<Rightarrow> addr list option" where
  "TAILQ_FOREACH_REVERSE h m = visits (\<lambda>e. TAILQ_PREV e m) (TAILQ_LAST h m)"

definition TAILQ_FOREACH_SAFE :: "nat \<Rightarrow> (addr \<Rightarrow> tailq \<Rightarrow> tailq option) \<Rightarrow> tailq \<Rightarrow> tailq option" where
  "TAILQ_FOREACH_SAFE h body m = safe_loop TAILQ_NEXT body (TAILQ_FIRST h m) m"

definition TAILQ_FOREACH_REVERSE_SAFE ::
    "nat \<Rightarrow> (addr \<Rightarrow> tailq \<Rightarrow> tailq option) \<Rightarrow> tailq \<Rightarrow> tailq option" where
  "TAILQ_FOREACH_REVERSE_SAFE h body m = safe_loop TAILQ_PREV body (TAILQ_LAST h m) m"

text \<open>The consistency checks a kernel with \<open>INVARIANTS\<close> makes before it changes a queue.\<close>

definition QMD_TAILQ_CHECK_HEAD :: "nat \<Rightarrow> tailq \<Rightarrow> bool" where
  "QMD_TAILQ_CHECK_HEAD h m \<longleftrightarrow>
     (case TAILQ_FIRST h m of None \<Rightarrow> True | Some x \<Rightarrow> tqe_prev m x = Head h)"

definition QMD_TAILQ_CHECK_TAIL :: "nat \<Rightarrow> tailq \<Rightarrow> bool" where
  "QMD_TAILQ_CHECK_TAIL h m \<longleftrightarrow> tq_ptr m (tqh_last m h) = None"

definition QMD_TAILQ_CHECK_NEXT :: "addr \<Rightarrow> tailq \<Rightarrow> bool" where
  "QMD_TAILQ_CHECK_NEXT e m \<longleftrightarrow>
     (case TAILQ_NEXT e m of None \<Rightarrow> True | Some x \<Rightarrow> tqe_prev m x = Next e)"

definition QMD_TAILQ_CHECK_PREV :: "addr \<Rightarrow> tailq \<Rightarrow> bool" where
  "QMD_TAILQ_CHECK_PREV e m \<longleftrightarrow> tq_ptr m (tqe_prev m e) = Some e"

section \<open>Tail queues in memory\<close>

definition tailq_at :: "tailq \<Rightarrow> nat \<Rightarrow> addr list \<Rightarrow> bool" where
  "tailq_at m h xs \<longleftrightarrow>
     path (tq_ptr m) (Head h) xs \<and> backs (tqe_prev m) (Head h) xs \<and> tqh_last m h = last_link (Head h) xs"

definition tailq_changes :: "nat set \<Rightarrow> addr set \<Rightarrow> tailq \<Rightarrow> tailq \<Rightarrow> bool" where
  "tailq_changes H A m m' \<longleftrightarrow>
     off (Head ` H \<union> Next ` A) (tq_ptr m) (tq_ptr m') \<and> off A (tqe_prev m) (tqe_prev m') \<and>
     off H (tqh_last m) (tqh_last m')"

interpretation tails: queue_family tailq_at tailq_changes
proof
  fix m k xs H A m'
  assume "tailq_at m k xs" "tailq_changes H A m m'" "k \<notin> H" "set xs \<inter> A = {}"
  then show "tailq_at m' k xs"
    unfolding tailq_at_def tailq_changes_def off_def
    by (intro conjI; elim conjE) (erule path_frame backs_frame | simp; fastforce)+
qed (auto simp: tailq_changes_def links elim!: off_trans)

lemmas tailq_defs = TAILQ_FIRST_def TAILQ_NEXT_def tailq_at_def tailq_changes_def Let_def

lemma insert_head_tailq:
  assumes "tailq_at m h xs" and "e \<notin> set xs" and "distinct xs"
  shows "tailq_at (TAILQ_INSERT_HEAD h e m) h (e # xs)"
    "tailq_changes {h} (insert e (set xs)) m (TAILQ_INSERT_HEAD h e m)"
  using assms by (cases xs; simp add: TAILQ_INSERT_HEAD_def tailq_defs; simp add: links; fail)+

lemma insert_tail_tailq:
  assumes "tailq_at m h xs" and "e \<notin> set xs" and "distinct xs"
  shows "tailq_at (TAILQ_INSERT_TAIL h e m) h (xs @ [e])"
    "tailq_changes {h} (insert e (set xs)) m (TAILQ_INSERT_TAIL h e m)"
  using assms path_reach [of "tq_ptr m" "Head h" xs] by (simp_all add: TAILQ_INSERT_TAIL_def tailq_defs links)

lemma insert_after_tailq:
  assumes "tailq_at m h (ys @ x # zs)" and "e \<notin> set (ys @ x # zs)" and "distinct (ys @ x # zs)"
  shows "tailq_at (TAILQ_INSERT_AFTER h x e m) h (ys @ x # e # zs)"
    "tailq_changes {h} (insert e (set (ys @ x # zs))) m (TAILQ_INSERT_AFTER h x e m)"
  using assms by (cases zs; simp add: TAILQ_INSERT_AFTER_def tailq_defs links; fail)+

lemma insert_before_tailq:
  assumes "tailq_at m h (ys @ x # zs)" and "e \<notin> set (ys @ x # zs)" and "distinct (ys @ x # zs)"
  shows "tailq_at (TAILQ_INSERT_BEFORE x e m) h (ys @ e # x # zs)"
    "tailq_changes {h} (insert e (set (ys @ x # zs))) m (TAILQ_INSERT_BEFORE x e m)"
  using assms by (simp_all add: TAILQ_INSERT_BEFORE_def tailq_defs links)

lemma remove_tailq:
  assumes "tailq_at m h (ys @ x # zs)" and "distinct (ys @ x # zs)"
  shows "tailq_at (TAILQ_REMOVE h x m) h (ys @ zs)"
    "tailq_changes {h} (set (ys @ x # zs)) m (TAILQ_REMOVE h x m)"
  using assms by (cases zs; simp add: TAILQ_REMOVE_def tailq_defs; simp add: links; fail)+

lemma concat_tailq:
  assumes "tailq_at m h xs" and "tailq_at m k ys" and "h \<noteq> k" and "distinct (xs @ ys)"
  shows "tailq_at (TAILQ_CONCAT h k m) h (xs @ ys)" "tailq_at (TAILQ_CONCAT h k m) k []"
    "tailq_changes {h, k} (set xs \<union> set ys) m (TAILQ_CONCAT h k m)"
  using assms path_reach [of "tq_ptr m" "Head h" xs]
  by (cases ys; simp add: TAILQ_CONCAT_def TAILQ_INIT_def tailq_defs; simp add: links; fail)+

lemma swap_tailq:
  assumes "tailq_at m h xs" and "tailq_at m k ys" and "h \<noteq> k" and "distinct (xs @ ys)"
  shows "tailq_at (TAILQ_SWAP h k m) h ys" "tailq_at (TAILQ_SWAP h k m) k xs"
    "tailq_changes {h, k} (set xs \<union> set ys) m (TAILQ_SWAP h k m)"
  using assms by (cases xs; cases ys; simp add: TAILQ_SWAP_def tailq_defs; simp add: links; fail)+

lemma swap_same_tailq:
  assumes "tailq_at m h xs" and "distinct xs"
  shows "tailq_at (TAILQ_SWAP h h m) h xs" "tailq_changes {h} (set xs) m (TAILQ_SWAP h h m)"
  using assms by (cases xs; simp add: TAILQ_SWAP_def tailq_defs; simp add: links; fail)+

section \<open>Forwards and backwards\<close>

lemma tailq_first: "tailq_at m h xs \<Longrightarrow> TAILQ_FIRST h m = first xs"
  by (simp add: tailq_defs path_first)

lemma tailq_next: "tailq_at m h (ys @ x # zs) \<Longrightarrow> TAILQ_NEXT x m = first zs"
  by (simp add: tailq_defs links path_first)

lemma tailq_prev:
  assumes "tailq_at m h (ys @ x # zs)"
  shows "TAILQ_PREV x m = first (rev ys)"
proof (cases ys rule: rev_cases)
  case Nil
  have "tq_ptr m (tqh_last m h) = None" using assms path_last by (simp add: tailq_at_def)
  with Nil assms show ?thesis by (simp add: TAILQ_PREV_def as_head_def tailq_defs)
next
  case (snoc us y)
  with assms show ?thesis by (simp add: TAILQ_PREV_def as_head_def tailq_defs links)
qed

lemma tailq_last:
  assumes "tailq_at m h xs"
  shows "TAILQ_LAST h m = first (rev xs)"
proof (cases xs rule: rev_cases)
  case Nil
  with assms show ?thesis by (simp add: TAILQ_LAST_def as_head_def tailq_defs)
next
  case (snoc us y)
  with assms show ?thesis by (simp add: TAILQ_LAST_def as_head_def tailq_defs links)
qed

lemma foreach_tailq: "tailq_at m h xs \<Longrightarrow> TAILQ_FOREACH h m = Some xs"
  by (simp add: TAILQ_FOREACH_def TAILQ_FIRST_def TAILQ_NEXT_def tailq_at_def visits_path)

lemma visits_back:
  "tailq_at m h (ys @ zs) \<Longrightarrow> visits (\<lambda>e. TAILQ_PREV e m) (first (rev ys)) = Some (rev ys)"
proof (induction ys arbitrary: zs rule: rev_induct)
  case Nil
  then show ?case by (simp add: visits.simps)
next
  case (snoc y ys)
  then have "tailq_at m h (ys @ y # zs)" by simp
  with snoc.IH [OF this] tailq_prev [OF this] show ?case by (simp add: visits.simps)
qed

lemma foreach_reverse_tailq: "tailq_at m h xs \<Longrightarrow> TAILQ_FOREACH_REVERSE h m = Some (rev xs)"
  using visits_back [of m h xs "[]"] by (simp add: TAILQ_FOREACH_REVERSE_def tailq_last)

lemma tailq_checks:
  assumes "tailq_at m h xs"
  shows "QMD_TAILQ_CHECK_HEAD h m" "QMD_TAILQ_CHECK_TAIL h m"
    "x \<in> set xs \<Longrightarrow> QMD_TAILQ_CHECK_NEXT x m \<and> QMD_TAILQ_CHECK_PREV x m"
proof -
  show "QMD_TAILQ_CHECK_HEAD h m"
    using assms by (cases xs; simp add: QMD_TAILQ_CHECK_HEAD_def tailq_defs)
  show "QMD_TAILQ_CHECK_TAIL h m"
    using assms path_last by (simp add: QMD_TAILQ_CHECK_TAIL_def tailq_at_def)
  assume "x \<in> set xs"
  then obtain ys zs where "xs = ys @ x # zs" by (auto simp: in_set_conv_decomp)
  with assms show "QMD_TAILQ_CHECK_NEXT x m \<and> QMD_TAILQ_CHECK_PREV x m"
    by (cases zs; simp add: QMD_TAILQ_CHECK_NEXT_def QMD_TAILQ_CHECK_PREV_def tailq_defs links)
qed

section \<open>Refinement\<close>

abbreviation tailq_remove :: "nat \<Rightarrow> addr \<Rightarrow> tailq \<Rightarrow> tailq option" where
  "tailq_remove h e m \<equiv> Some (TAILQ_REMOVE h e m)"

primrec tailq_step :: "list_op \<Rightarrow> tailq \<Rightarrow> tailq option" where
  "tailq_step (Insert_head h e) m = Some (TAILQ_INSERT_HEAD h e m)"
| "tailq_step (Insert_tail h e) m = Some (TAILQ_INSERT_TAIL h e m)"
| "tailq_step (Insert_after h x e) m = Some (TAILQ_INSERT_AFTER h x e m)"
| "tailq_step (Insert_before h x e) m = Some (TAILQ_INSERT_BEFORE x e m)"
| "tailq_step (Remove_head h) m = None"
| "tailq_step (Remove_after h x) m = None"
| "tailq_step (Remove h x) m = Some (TAILQ_REMOVE h x m)"
| "tailq_step (Remove_where h P) m = TAILQ_FOREACH_SAFE h (if_matches P (tailq_remove h)) m"
| "tailq_step (Remove_where_reverse h P) m = TAILQ_FOREACH_REVERSE_SAFE h (if_matches P (tailq_remove h)) m"
| "tailq_step (Concat h k) m = Some (TAILQ_CONCAT h k m)"
| "tailq_step (Swap h k) m = Some (TAILQ_SWAP h k m)"

interpretation tailq_loop: removing_loop
  "inside tailq_at tailq_changes h A m0" TAILQ_NEXT "tailq_remove h" for h A m0
proof
  fix m ys x xs
  assume m: "inside tailq_at tailq_changes h A m0 m (ys @ x # xs)"
  then have l: "tailq_at m h (ys @ x # xs)" "distinct (ys @ x # xs)" by (simp_all add: inside_def)
  show "TAILQ_NEXT x m = first xs" by (rule tailq_next [OF l(1)])
  show "\<exists>m'. tailq_remove h x m = Some m' \<and> inside tailq_at tailq_changes h A m0 m' (ys @ xs)"
    using tails.inside_remove [OF m remove_tailq [OF l]] by simp
qed

interpretation tailq_back_loop: removing_loop
  "\<lambda>m xs. inside tailq_at tailq_changes h A m0 m (rev xs)" TAILQ_PREV "tailq_remove h" for h A m0
proof
  fix m ys x xs
  assume "inside tailq_at tailq_changes h A m0 m (rev (ys @ x # xs))"
  then have m: "inside tailq_at tailq_changes h A m0 m (rev xs @ x # rev ys)" by simp
  then have l: "tailq_at m h (rev xs @ x # rev ys)" "distinct (rev xs @ x # rev ys)" by (simp_all add: inside_def)
  show "TAILQ_PREV x m = first xs" using tailq_prev [OF l(1)] by simp
  show "\<exists>m'. tailq_remove h x m = Some m' \<and> inside tailq_at tailq_changes h A m0 m' (rev (ys @ xs))"
    using tails.inside_remove [OF m remove_tailq [OF l]] by simp
qed

interpretation tailq_macros: queue_macros tailq_at tailq_changes TAILQ tailq_step
proof
  fix m h xs P
  assume l: "tailq_at m h xs" "distinct xs"
  note i = tails.inside_start [OF l]
  from tailq_loop.loop [OF i]
  show "\<exists>m'. tailq_step (Remove_where h P) m = Some m' \<and>
      inside tailq_at tailq_changes h (set xs) m m' (filter (\<lambda>x. \<not> P x) xs)"
    by (simp add: TAILQ_FOREACH_SAFE_def tailq_first [OF l(1)])
  from tailq_back_loop.loop [of h "set xs" m m "rev xs" P] i
  show "\<exists>m'. tailq_step (Remove_where_reverse h P) m = Some m' \<and>
      inside tailq_at tailq_changes h (set xs) m m' (filter (\<lambda>x. \<not> P x) xs)"
    by (simp add: TAILQ_FOREACH_REVERSE_SAFE_def tailq_last [OF l(1)] rev_filter)
qed (simp_all add: insert_head_tailq insert_tail_tailq insert_after_tailq insert_before_tailq remove_tailq
    concat_tailq swap_tailq swap_same_tailq
    del: set_append distinct_append list.set)

text \<open>
  C39. The TAILQ macros keep lists that can be walked both ways: after any sequence of their
  insertions, removals, removing loops in either direction, concatenations and swaps, on heads
  that were initialised and with an element in one list at most, both loops over a head end,
  and visit what the operations on lists leave there, forwards and backwards. \<open>TAILQ_LAST\<close> and
  \<open>TAILQ_PREV\<close>, which read an entry as a head, are the last element and the one before, and
  none of the consistency checks finds anything wrong.
\<close>

theorem tailq_macros_refine_lists:
  assumes "\<forall>h. TAILQ_FIRST h m = None \<and> tqh_last m h = Head h" and "run (spec_step TAILQ) ps (\<lambda>h. []) = Some L"
  shows "\<exists>m'. run tailq_step ps m = Some m' \<and>
    (\<forall>h. TAILQ_FOREACH h m' = Some (L h) \<and> TAILQ_FOREACH_REVERSE h m' = Some (rev (L h)) \<and>
       (TAILQ_EMPTY h m' \<longleftrightarrow> L h = []) \<and> QMD_TAILQ_CHECK_HEAD h m' \<and> QMD_TAILQ_CHECK_TAIL h m' \<and>
       (\<forall>x \<in> set (L h). QMD_TAILQ_CHECK_NEXT x m' \<and> QMD_TAILQ_CHECK_PREV x m'))"
proof -
  have "holds tailq_at m (\<lambda>h. [])" using assms(1) by (simp add: holds_def apart_empty tailq_defs)
  from tailq_macros.run_sim [OF this assms(2)] obtain m' where m': "run tailq_step ps m = Some m'" "holds tailq_at m' L" by blast
  have l: "tailq_at m' h (L h)" for h by (rule tails.holds_same(1) [OF m'(2)])
  show ?thesis
    using m'(1) foreach_tailq [OF l] foreach_reverse_tailq [OF l] tailq_first [OF l] tailq_checks [OF l]
    by (simp add: TAILQ_EMPTY_def)
qed

lemma tailq_macros_refine_lists_witness:
  "\<exists>m'. run tailq_step [Insert_tail 0 7, Insert_tail 0 8, Insert_before 0 8 6, Insert_head 1 9, Concat 0 1, Remove 0 7]
       (TAILQ_INIT 0 \<lparr>tq_ptr = \<lambda>l. None, tqe_prev = \<lambda>e. Head 0, tqh_last = Head\<rparr>) = Some m' \<and>
     TAILQ_FOREACH_REVERSE 0 m' = Some [9, 8, 6]"
proof -
  let ?m = "TAILQ_INIT 0 \<lparr>tq_ptr = \<lambda>l. None, tqe_prev = \<lambda>e. Head 0, tqh_last = Head\<rparr>"
  let ?ps = "[Insert_tail 0 7, Insert_tail 0 8, Insert_before 0 8 6, Insert_head 1 9, Concat 0 1, Remove 0 7]"
  obtain L where L: "run (spec_step TAILQ) ?ps (\<lambda>h. []) = Some L" "L 0 = [6, 8, 9]"
    by (simp add: spec_step_def fresh_in_def)
  have "\<forall>h. TAILQ_FIRST h ?m = None \<and> tqh_last ?m h = Head h" by (simp add: TAILQ_INIT_def TAILQ_FIRST_def Let_def)
  from tailq_macros_refine_lists [OF this L(1)] obtain m' where "run tailq_step ?ps ?m = Some m'"
    "TAILQ_FOREACH_REVERSE 0 m' = Some (rev (L 0))" by blast
  with L(2) show ?thesis by simp
qed

end
