(* ===== verification/Setup.thy ===== *)
theory Setup
  imports Tools
begin

text \<open>
  What \<open>cmd_server\<close> does before it serves: the options, the look for a server that is already
  there, the directory, the log file, the socket, and the fork. The file system is a map from
  absolute paths to what is there; which calls the kernel lets succeed is a parameter. A
  \<open>Dead\<close> outcome is the exit of the command.
\<close>

section \<open>The world\<close>

datatype fkind = Socket "32 word" | Directory | Plain

record world =
  w_files :: "string \<rightharpoonup> fkind"
  w_cwd :: string
  w_umask :: "32 word"
  w_env :: "string \<rightharpoonup> string"
  w_out :: string
  w_err :: string
  w_sigpipe_ignored :: bool

text \<open>
  \<open>su_answer\<close> is what a server answers if one can be connected to, \<open>su_eacces\<close> whether
  \<open>errno\<close> is \<open>EACCES\<close> after the attempt.
\<close>

record kernel =
  su_home :: "string option"
  su_sigaction :: bool
  su_answer :: "string list option"
  su_eacces :: bool
  su_chdir :: "string \<Rightarrow> bool"
  su_mkdir :: "string \<Rightarrow> bool"
  su_unlink :: "string \<Rightarrow> bool"
  su_socket :: bool
  su_bind :: bool
  su_fopen :: "string \<Rightarrow> bool"
  su_fork :: int
  su_event_base :: bool

definition w_print :: "string \<Rightarrow> world \<Rightarrow> world" where
  "w_print msg w = w\<lparr>w_out := w_out w @ msg @ [newline]\<rparr>"

definition w_complain :: "string \<Rightarrow> world \<Rightarrow> world" where
  "w_complain msg w = w\<lparr>w_err := w_err w @ msg @ [newline]\<rparr>"

definition w_fails :: "string \<Rightarrow> world \<Rightarrow> (world, 'a) outcome" where
  "w_fails msg w = Dead (Exited 1) (w_complain msg w)"

definition w_die :: "cli \<Rightarrow> string \<Rightarrow> world \<Rightarrow> (world, 'a) outcome" where
  "w_die C msg w = w_fails (msg @ '': '' @ cli_strerror C) w"

definition at_dir :: "string \<Rightarrow> string \<Rightarrow> string" where
  "at_dir cwd path = (if path \<noteq> [] \<and> hd path = CHR ''/'' then path else cwd @ ''/'' @ path)"

definition w_at :: "world \<Rightarrow> string \<Rightarrow> string" where
  "w_at w path = at_dir (w_cwd w) path"

definition w_chdir :: "cli \<Rightarrow> kernel \<Rightarrow> string \<Rightarrow> world \<Rightarrow> (world, world) outcome" where
  "w_chdir C K d w =
     (let w = w_print (''chdir to: '' @ d) w
      in if \<not> su_chdir K (w_at w d) then w_die C ''chdir'' w else Live (w\<lparr>w_cwd := w_at w d\<rparr>))"

text \<open>\<open>fopen\<close> with mode \<open>a\<close> makes the file if there is none.\<close>

definition w_append :: "string \<Rightarrow> world \<Rightarrow> world" where
  "w_append path w =
     (if w_files w (w_at w path) = None then w\<lparr>w_files := (w_files w)(w_at w path \<mapsto> Plain)\<rparr> else w)"

section \<open>Steps\<close>

definition BASE_DIR :: "string \<Rightarrow> string" where
  "BASE_DIR home = home @ ''/.uber''"

definition LOG_PATH :: "string \<Rightarrow> string" where
  "LOG_PATH home = home @ ''/.uber/uber.log''"

definition parse_options :: "cli \<Rightarrow> kernel \<Rightarrow> string list \<Rightarrow> world \<Rightarrow> (world, options \<times> world) outcome" where
  "parse_options C K argv w =
     (let refused = (\<lambda>w. Dead (Exited 1) (w\<lparr>w_out := w_out w @ help_server (cli_program C)\<rparr>));
          (os, args) = getopt_long server_opts server_longopts argv
      in case server_options os (options_from_env (w_env w)) of
           None \<Rightarrow> refused w
         | Some opts \<Rightarrow>
             if \<not> su_sigaction K then w_die C ''sigaction'' w
             else let w = w\<lparr>w_sigpipe_ignored := True\<rparr>
             in if args \<noteq> [] then refused w else Live (opts, w))"

definition drop_rsh :: "world \<Rightarrow> world" where
  "drop_rsh w =
     (if w_env w ''UBERVISOR_RSH'' \<noteq> None
      then (w_complain ''unsetting UBERVISOR_RSH.'' w)\<lparr>w_env := (w_env w)(''UBERVISOR_RSH'' := None)\<rparr>
      else w)"

text \<open>Whether a server answers the greeting on the socket.\<close>

definition probe :: "cli \<Rightarrow> kernel \<Rightarrow> world \<Rightarrow> bool \<times> world" where
  "probe C K w =
     (case sock_connect (w_env w ''UBERVISOR_RSH'') (w_env w ''UBERVISOR_SOCKET'') (su_home K) of
        PathTooLong \<Rightarrow> (False, w_complain ''socket path too long'' w)
      | NoPath \<Rightarrow> (False, w)
      | _ \<Rightarrow>
          (case su_answer K of
             None \<Rightarrow> (False, w)
           | Some sock \<Rightarrow>
               let (r, e) = sock_send_helo (cli_write C) (cli_parse C) (cli_print C) sock
               in (r \<noteq> -1, w\<lparr>w_err := w_err w @ e\<rparr>)))"

definition enter_base :: "cli \<Rightarrow> kernel \<Rightarrow> options \<Rightarrow> string \<Rightarrow> world \<Rightarrow> (world, world) outcome" where
  "enter_base C K opts home w =
     (case o_dir opts of
        Some d \<Rightarrow> w_chdir C K d w
      | None \<Rightarrow>
          let tmp = BASE_DIR home
          in if length tmp \<ge> PATH_MAX then w_die C ''snprintf'' w
             else bindO
               (if w_files w (w_at w tmp) = None
                then if \<not> su_mkdir K (w_at w tmp) then w_die C ''mkdir'' w
                     else Live (w\<lparr>w_files := (w_files w)(w_at w tmp \<mapsto> Directory)\<rparr>)
                else Live w) (w_chdir C K tmp))"

definition choose_log :: "cli \<Rightarrow> options \<Rightarrow> string \<Rightarrow> world \<Rightarrow> (world, options \<times> world) outcome" where
  "choose_log C opts home w =
     (if o_logfile opts = None \<and> o_do_fork opts
      then if length (LOG_PATH home) \<ge> PATH_MAX then w_die C ''snprintf'' w
           else Live (opts\<lparr>o_logfile := Some (LOG_PATH home)\<rparr>, w_print (''logfile: '' @ LOG_PATH home) w)
      else Live (opts, case o_logfile opts of None \<Rightarrow> w | Some l \<Rightarrow> w_print (''logfile: '' @ l) w))"

definition is_socket :: "fkind \<Rightarrow> bool" where
  "is_socket k = (case k of Socket m \<Rightarrow> True | _ \<Rightarrow> False)"

definition clear_socket :: "cli \<Rightarrow> kernel \<Rightarrow> string \<Rightarrow> world \<Rightarrow> (world, world) outcome" where
  "clear_socket C K path w =
     (case w_files w (w_at w path) of
        None \<Rightarrow> Live w
      | Some k \<Rightarrow>
          if \<not> is_socket k
          then w_fails (''Refusing to delete non-socket '' @ [CHR 0x22] @ path @ [CHR 0x22]) w
          else if \<not> su_unlink K (w_at w path)
          then w_die C (''Can'' @ [CHR 0x27] @ ''t delete existing socket '' @ [CHR 0x22] @ path @ [CHR 0x22]) w
          else Live (w\<lparr>w_files := (w_files w)(w_at w path := None)\<rparr>))"

text \<open>\<open>bind\<close> makes the socket with every permission the mask leaves.\<close>

definition bind_socket :: "cli \<Rightarrow> kernel \<Rightarrow> options \<Rightarrow> string \<Rightarrow> world \<Rightarrow> (world, world) outcome" where
  "bind_socket C K opts path w =
     (if \<not> su_socket K then w_die C ''socket'' w
      else if length path \<ge> 108 then w_fails ''socket path too long'' w
      else let oumask = w_umask w; w = w\<lparr>w_umask := o_numask opts AND 511\<rparr>
      in if \<not> su_bind K \<or> w_files w (w_at w path) \<noteq> None then w_die C ''bind'' w
         else let w = w\<lparr>w_files := (w_files w)(w_at w path \<mapsto> Socket (511 AND NOT (w_umask w)))\<rparr>
              in Live (w_print (''socket: '' @ path) (w\<lparr>w_umask := oumask\<rparr>)))"

definition try_files :: "cli \<Rightarrow> kernel \<Rightarrow> options \<Rightarrow> world \<Rightarrow> (world, world) outcome" where
  "try_files C K opts w =
     bindO (case o_logfile opts of
              None \<Rightarrow> Live w
            | Some l \<Rightarrow> if \<not> su_fopen K (w_at w l) then w_die C ''fopen'' w else Live (w_append l w)) (\<lambda>w.
     case o_dump_file opts of
       None \<Rightarrow> Live w
     | Some d \<Rightarrow> if \<not> su_fopen K (w_at w d) then w_die C ''fopen'' w else Live w)"

text \<open>The result is the process that goes on; if it is a fork, the command itself exits with 0.\<close>

definition go_daemon :: "cli \<Rightarrow> kernel \<Rightarrow> options \<Rightarrow> world \<Rightarrow> (world, options \<times> world) outcome" where
  "go_daemon C K opts w =
     (if o_do_fork opts \<and> su_fork K = -1 then w_die C ''fork'' w
      else if \<not> su_event_base K then w_die C ''event_base_new'' w
      else Live (opts, w))"

definition take_socket :: "cli \<Rightarrow> kernel \<Rightarrow> options \<Rightarrow> string \<Rightarrow> string option \<Rightarrow> world
    \<Rightarrow> (world, options \<times> world) outcome" where
  "take_socket C K opts home path w =
     bindO (enter_base C K opts home w) (\<lambda>w.
     bindO (choose_log C opts home w) (\<lambda>(opts, w).
     case path of
       None \<Rightarrow> if \<not> su_socket K then w_die C ''socket'' w else Dead Undefined w
     | Some path \<Rightarrow>
         bindO (clear_socket C K path w) (\<lambda>w.
         bindO (bind_socket C K opts path w) (\<lambda>w.
         bindO (try_files C K opts w) (go_daemon C K opts)))))"

definition set_up :: "cli \<Rightarrow> kernel \<Rightarrow> string list \<Rightarrow> world \<Rightarrow> (world, options \<times> world) outcome" where
  "set_up C K argv w =
     (case su_home K of
        None \<Rightarrow> w_die C ''getpwuid'' w
      | Some home \<Rightarrow>
          bindO (parse_options C K argv w) (\<lambda>(opts, w).
          let w = drop_rsh w;
              path = sock_path (w_env w ''UBERVISOR_SOCKET'') (su_home K);
              (running, w) = probe C K w
          in if running
             then Dead (Exited 1) (if o_silent opts then w else w_complain ''server running?'' w)
             else if su_eacces K
             then w_die C (''Can'' @ [CHR 0x27] @ ''t access socket '' @ [CHR 0x22] @ fmt_s path @ [CHR 0x22]) w
             else take_socket C K opts home path w))"

text \<open>
  The whole of \<open>cmd_server\<close> up to its event loop: the set-up and then the start of the server
  on what the set-up chose. \<open>st\<close> and \<open>dh\<close> are the time of the dump file and the directory.
\<close>

definition cmd_server :: "cli \<Rightarrow> kernel \<Rightarrow> env \<Rightarrow> int option \<Rightarrow> (string \<times> int option) list option
    \<Rightarrow> string list \<Rightarrow> world \<Rightarrow> (world, world \<times> server run) outcome" where
  "cmd_server C K E st dh argv w =
     bindO (set_up C K argv w) (\<lambda>(opts, w).
     Live (w, server_begin E opts st dh (server_init opts init_server)))"

section \<open>What the steps leave\<close>

text \<open>Nothing but sockets is ever removed, and nothing is overwritten.\<close>

definition keeps :: "world \<Rightarrow> world \<Rightarrow> bool" where
  "keeps w w' \<longleftrightarrow> (\<forall>p k. w_files w p = Some k \<longrightarrow> \<not> is_socket k \<longrightarrow> w_files w' p = Some k)"

lemma keeps_refl [simp]: "keeps w w"
  by (simp add: keeps_def)



definition dies :: "world \<Rightarrow> halt \<Rightarrow> world \<Rightarrow> bool" where
  "dies w h w' \<longleftrightarrow> (\<exists>n. h = Exited n \<and> n \<noteq> 0) \<and> keeps w w'"

text \<open>A world after a step: the surroundings the later steps rely on.\<close>

definition after :: "world \<Rightarrow> world \<Rightarrow> bool" where
  "after w w' \<longleftrightarrow> keeps w w' \<and> w_env w' = w_env w \<and> w_umask w' = w_umask w \<and>
     w_sigpipe_ignored w' = w_sigpipe_ignored w"


lemma after_refl [simp]: "after w w"
  by (simp add: after_def)


lemma w_print_simps [simp]:
  "w_files (w_print m w) = w_files w" "w_cwd (w_print m w) = w_cwd w" "w_env (w_print m w) = w_env w"
  "w_umask (w_print m w) = w_umask w" "w_sigpipe_ignored (w_print m w) = w_sigpipe_ignored w"
  "w_at (w_print m w) = w_at w"
  by (simp_all add: w_print_def w_at_def fun_eq_iff)

lemma w_complain_simps [simp]:
  "w_files (w_complain m w) = w_files w" "w_cwd (w_complain m w) = w_cwd w" "w_env (w_complain m w) = w_env w"
  "w_umask (w_complain m w) = w_umask w" "w_sigpipe_ignored (w_complain m w) = w_sigpipe_ignored w"
  by (simp_all add: w_complain_def)

lemma post_fails [simp]:
  "post (w_fails m w1) Q (dies w) \<longleftrightarrow> keeps w w1" "post (w_die C m w1) Q (dies w) \<longleftrightarrow> keeps w w1"
  by (simp_all add: w_fails_def w_die_def dies_def keeps_def)











lemma drop_rsh_simps [simp]:
  "w_files (drop_rsh w) = w_files w" "w_umask (drop_rsh w) = w_umask w" "w_at (drop_rsh w) = w_at w"
  "w_sigpipe_ignored (drop_rsh w) = w_sigpipe_ignored w"
  "w_env (drop_rsh w) = (w_env w)(''UBERVISOR_RSH'' := None)"
  by (simp_all add: drop_rsh_def w_at_def fun_eq_iff)





section \<open>Properties\<close>







end
