(* ===== verification/Proxy.thy ===== *)
theory Proxy
  imports Tools Runs
begin

text \<open>
  The \<open>proxy\<close> command (cmd_proxy.c): it copies its standard input to the socket of the server
  and the socket to its standard output. libevent reads and writes the descriptors and decides
  when the callbacks run, so a run is a sequence of events: bytes arrive, a callback runs,
  queued bytes are written, or a descriptor fails, which ends the command.
\<close>

section \<open>Before the event loop\<close>

definition proxy_opts :: string where
  "proxy_opts = ''hs:''"

definition proxy_longopts :: "longopt list" where
  "proxy_longopts =
     [\<lparr>lo_name = ''help'', lo_arg = False, lo_val = CHR ''h''\<rparr>,
      \<lparr>lo_name = ''socket'', lo_arg = True, lo_val = CHR ''s''\<rparr>]"

definition proxy_option :: "char \<times> string \<Rightarrow> (string \<rightharpoonup> string) \<Rightarrow> refusal + (string \<rightharpoonup> string)" where
  "proxy_option o1 environ =
     (if fst o1 = CHR ''s'' then Inr (environ(''UBERVISOR_SOCKET'' \<mapsto> snd o1)) else Inl Usage)"

text \<open>
  The calls of libevent, numbered in their order; the first that fails ends the command. The
  result is the end of the command or the environment it has connected with.
\<close>

definition libevent_calls :: "string list" where
  "libevent_calls =
     [''bufferevent_new'', ''bufferevent_enable'', ''bufferevent_new'', ''bufferevent_enable'',
      ''bufferevent_new'', ''bufferevent_enable'']"

primrec first_failure :: "(nat \<Rightarrow> bool) \<Rightarrow> nat \<Rightarrow> string list \<Rightarrow> string option" where
  "first_failure ok k [] = None"
| "first_failure ok k (c # cs) = (if \<not> ok k then Some c else first_failure ok (Suc k) cs)"

definition cmd_proxy :: "cli \<Rightarrow> (nat \<Rightarrow> bool) \<Rightarrow> string list \<Rightarrow> (string \<rightharpoonup> string) \<Rightarrow> io \<Rightarrow> cli_run + (string \<rightharpoonup> string)" where
  "cmd_proxy C ok argv environ i =
     (let (os, args) = getopt_long proxy_opts proxy_longopts argv
      in case run_options proxy_option os environ of
           Inl e \<Rightarrow> Inl (refuse C ''proxy'' e i)
         | Inr environ \<Rightarrow>
             if args \<noteq> [] then Inl (show_help C ''proxy'' i)
             else if \<not> ok 0 then Inl (die C ''event_base_new'' i)
             else if \<not> cli_connect C then Inl (die C ''socket'' i)
             else case first_failure ok 1 libevent_calls of
               Some c \<Rightarrow> Inl (die C c i)
             | None \<Rightarrow> Inr environ)"

section \<open>Relaying\<close>

text \<open>
  The buffers of the bufferevents: what has arrived on the standard input and on the socket
  and is not read yet, and what is queued for the socket and the standard output.
\<close>

record proxy =
  in_pending :: string
  sock_pending :: string
  sock_queue :: string
  out_queue :: string

datatype side = Be_in | Be_sock

text \<open>\<open>None\<close> is the exit after a failed write; \<open>wr\<close> says whether libevent takes it.\<close>

definition proxy_read_cb :: "bool \<Rightarrow> side \<Rightarrow> proxy \<Rightarrow> proxy option" where
  "proxy_read_cb wr b p =
     (case b of
        Be_in \<Rightarrow>
          let buf = take BUFFER_SIZ (in_pending p); p = p\<lparr>in_pending := drop BUFFER_SIZ (in_pending p)\<rparr>
          in if \<not> wr then None else Some (p\<lparr>sock_queue := sock_queue p @ buf\<rparr>)
      | Be_sock \<Rightarrow>
          let buf = take BUFFER_SIZ (sock_pending p); p = p\<lparr>sock_pending := drop BUFFER_SIZ (sock_pending p)\<rparr>
          in if \<not> wr then None else Some (p\<lparr>out_queue := out_queue p @ buf\<rparr>))"

definition proxy_error_cb :: "proxy \<Rightarrow> proxy option" where
  "proxy_error_cb p = None"

text \<open>The proxy between its descriptors: what was sent to it and what it has written.\<close>

record relay =
  r_proxy :: proxy
  r_from_in :: string
  r_from_sock :: string
  r_to_sock :: string
  r_to_out :: string

text \<open>A flush of the side of the input writes to the standard output, its other end.\<close>

datatype proxy_event = Arrive side string | Callback bool side | Flush side nat | Broken

primrec proxy_step :: "proxy_event \<Rightarrow> relay \<Rightarrow> relay option" where
  "proxy_step (Arrive b bs) r =
     (case b of
        Be_in \<Rightarrow> Some (r\<lparr>r_proxy := (r_proxy r)\<lparr>in_pending := in_pending (r_proxy r) @ bs\<rparr>,
                      r_from_in := r_from_in r @ bs\<rparr>)
      | Be_sock \<Rightarrow> Some (r\<lparr>r_proxy := (r_proxy r)\<lparr>sock_pending := sock_pending (r_proxy r) @ bs\<rparr>,
                      r_from_sock := r_from_sock r @ bs\<rparr>))"
| "proxy_step (Callback wr b) r = map_option (\<lambda>p. r\<lparr>r_proxy := p\<rparr>) (proxy_read_cb wr b (r_proxy r))"
| "proxy_step (Flush b n) r =
     (case b of
        Be_in \<Rightarrow> Some (r\<lparr>r_proxy := (r_proxy r)\<lparr>out_queue := drop n (out_queue (r_proxy r))\<rparr>,
                      r_to_out := r_to_out r @ take n (out_queue (r_proxy r))\<rparr>)
      | Be_sock \<Rightarrow> Some (r\<lparr>r_proxy := (r_proxy r)\<lparr>sock_queue := drop n (sock_queue (r_proxy r))\<rparr>,
                      r_to_sock := r_to_sock r @ take n (sock_queue (r_proxy r))\<rparr>))"
| "proxy_step Broken r = map_option (\<lambda>p. r\<lparr>r_proxy := p\<rparr>) (proxy_error_cb (r_proxy r))"

definition idle_relay :: relay where
  "idle_relay = \<lparr>r_proxy = \<lparr>in_pending = [], sock_pending = [], sock_queue = [], out_queue = []\<rparr>,
     r_from_in = [], r_from_sock = [], r_to_sock = [], r_to_out = []\<rparr>"

text \<open>No byte is lost, doubled, reordered or sent to the wrong side.\<close>

definition relays :: "relay \<Rightarrow> bool" where
  "relays r \<longleftrightarrow>
     r_from_in r = r_to_sock r @ sock_queue (r_proxy r) @ in_pending (r_proxy r) \<and>
     r_from_sock r = r_to_out r @ out_queue (r_proxy r) @ sock_pending (r_proxy r)"

lemma proxy_step_relays: "relays r \<Longrightarrow> proxy_step ev r = Some r' \<Longrightarrow> relays r'"
  by (cases ev)
    (auto simp: relays_def proxy_read_cb_def proxy_error_cb_def Let_def split: side.splits if_splits)

interpretation relaying: invariant proxy_step relays
  by unfold_locales (rule proxy_step_relays)

text \<open>
  C36. The proxy relays: at every moment of a run, what it has written to the socket is a prefix
  of what came in on the standard input, and what it has written to the standard output a
  prefix of what came from the socket; when its buffers are empty, everything has been passed
  on.
\<close>

theorem proxy_relays_in_order:
  assumes "run proxy_step evs idle_relay = Some r"
  shows "r_to_sock r = take (length (r_to_sock r)) (r_from_in r) \<and>
    r_to_out r = take (length (r_to_out r)) (r_from_sock r) \<and>
    (in_pending (r_proxy r) = [] \<and> sock_queue (r_proxy r) = [] \<longrightarrow> r_to_sock r = r_from_in r) \<and>
    (sock_pending (r_proxy r) = [] \<and> out_queue (r_proxy r) = [] \<longrightarrow> r_to_out r = r_from_sock r)"
proof -
  have "relays idle_relay" by (simp add: relays_def idle_relay_def)
  from relaying.run_inv [OF this assms] show ?thesis by (simp add: relays_def)
qed

lemma proxy_relays_in_order_witness:
  "\<exists>r. run proxy_step [Arrive Be_in ''ping'', Callback True Be_in, Arrive Be_in ''!'', Flush Be_sock 3] idle_relay = Some r \<and>
     r_to_sock r = take 3 ''ping!'' \<and> r_to_out r = []"
proof -
  obtain r where r: "run proxy_step [Arrive Be_in ''ping'', Callback True Be_in, Arrive Be_in ''!'', Flush Be_sock 3]
      idle_relay = Some r" "length (r_to_sock r) = 3" "r_from_in r = ''ping!''" "r_from_sock r = []"
    by (simp add: idle_relay_def proxy_read_cb_def)
  from proxy_relays_in_order [OF r(1)] r show ?thesis by simp
qed

end
