(* ===== verification/Bursts.thy ===== *)
theory Bursts
  imports System Example "HOL-Library.Sublist"
begin

text \<open>
  When a group is given up. \<open>exits\<close> is a part of the life of a server in which processes of
  one group exit, one at a time, while whatever else happens leaves the group alone;
  \<open>burst\<close> is the rule that \<open>sigchld_cb\<close> implements with the counter and the time stamp
  of the group, on the times of the failures. The counter is the length of the current run
  of failures that follow each other closely, so the group is broken exactly when some
  stretch of the history is such a run of the critical length.
\<close>

section \<open>Runs of failures\<close>

abbreviation close_by :: "int \<Rightarrow> int \<Rightarrow> bool" where
  "close_by t t' \<equiv> t' \<le> t + ERROR_PERIOD"

definition burst :: "int \<Rightarrow> int list \<Rightarrow> bool" where
  "burst n ts \<longleftrightarrow> (\<exists>xs. sublist xs ts \<and> int (length xs) = n \<and> successively close_by xs)"






lemma burst_length: "burst n ts \<Longrightarrow> n \<le> int (length ts)"
  unfolding burst_def using sublist_length_le by fastforce

lemma burst_Nil [simp]: "0 < n \<Longrightarrow> \<not> burst n []"
  using burst_length by fastforce

section \<open>Notifications that fit\<close>

text \<open>
  The one way for \<open>sigchld_cb\<close> to end the server is a notification longer than a chunk.
  Where the JSON library never prints such a text, the callback returns.
\<close>

definition short_texts :: "env \<Rightarrow> bool" where
  "short_texts E \<longleftrightarrow> (\<forall>v. length (to_json_string E v) \<le> CHUNKSIZ)"

abbreviation unaborted :: "'a run \<Rightarrow> bool" where
  "unaborted m \<equiv> post m (\<lambda>_. True) (\<lambda>h t. h \<noteq> Aborted)"

lemma unaborted_bind: "unaborted m \<Longrightarrow> (\<And>x. unaborted (f x)) \<Longrightarrow> unaborted (bindO m f)"
  by (cases m) auto

lemma unaborted_deref: "(\<And>x. unaborted (f x)) \<Longrightarrow> unaborted (deref store a s f)"
  by (simp add: deref_def split: option.split)

lemma unaborted_foldO: "(\<And>x s. unaborted (f x s)) \<Longrightarrow> unaborted (foldO f xs s)"
  by (induction xs arbitrary: s) (auto intro: unaborted_bind)

lemma unaborted_write: "unaborted (bufferevent_write E con bs s)"
  by (simp add: bufferevent_write_def split: option.split)

lemma unaborted_notification:
  assumes "length txt \<le> CHUNKSIZ"
  shows "unaborted (send_notification E n txt s)"
proof -
  have "unaborted (notify_one E n txt u s)" for u s
    by (auto simp: notify_one_def intro!: unaborted_bind unaborted_write)
  with assms show ?thesis by (simp add: send_notification_def unaborted_foldO)
qed

named_theorems unaborted

lemmas [unaborted] = unaborted_bind unaborted_deref

lemma unaborted_slog [unaborted]:
  assumes "short_texts E"
  shows "unaborted (slog E msg s)"
proof -
  have "unaborted (slog_write E bytes out s)" for bytes out s
    using assms unfolding slog_write_def send_log_notification_def short_texts_def
    by (auto intro: unaborted_notification)
  then show ?thesis by (auto simp: slog_def Let_def intro: unaborted_bind)
qed

lemma unaborted_status [unaborted]:
  "short_texts E \<Longrightarrow> unaborted (send_status_update_notification E name st s)"
  unfolding send_status_update_notification_def short_texts_def
  by (auto intro: unaborted_notification)

lemma unaborted_set_child [unaborted]: "unaborted (set_child a i x s)"
  by (auto simp: set_child_def intro!: unaborted_deref)

lemma unaborted_table [unaborted]:
  "unaborted (schedule_heartbeat p s)" "unaborted (process_insert p s)" "unaborted (process_remove p s)"
  by (auto simp: schedule_heartbeat_def process_insert_def process_remove_def intro!: unaborted_deref)

lemma unaborted_spawn [unaborted]: "short_texts E \<Longrightarrow> unaborted (spawn E a i s)"
  by (auto simp: spawn_def Let_def split: option.split prod.split intro!: unaborted)

lemma unaborted_fatal_cb [unaborted]: "short_texts E \<Longrightarrow> unaborted (run_fatal_cb E a s)"
  by (auto simp: run_fatal_cb_def Let_def split: option.split prod.split intro!: unaborted)

lemma unaborted_note_exit [unaborted]: "short_texts E \<Longrightarrow> unaborted (note_exit E a ret s)"
  by (auto simp: note_exit_def Let_def intro!: unaborted)

lemma unaborted_reap_group [unaborted]: "short_texts E \<Longrightarrow> unaborted (reap_group E a i ret s)"
  by (auto simp: reap_group_def intro!: unaborted)

lemma unaborted_reap_one [unaborted]: "short_texts E \<Longrightarrow> unaborted (reap_one E p pid ret s)"
  by (auto simp: reap_one_def Let_def split: option.split intro!: unaborted)


section \<open>The life of a group\<close>


type_synonym exit_history = "(int \<times> nat \<times> int) list"



definition error_times :: "child_config \<Rightarrow> exit_history \<Rightarrow> int list" where
  "error_times cc h = map fst (filter (\<lambda>(t, i, ret). exit_is_error ret cc) h)"

lemma error_times_simps [simp]:
  "error_times cc [] = []"
  "error_times cc (h @ [(t, i, ret)]) = error_times cc h @ (if exit_is_error ret cc then [t] else [])"
  by (simp_all add: error_times_def)













section \<open>When a group is broken\<close>










end
