(* ===== verification/Misc.thy ===== *)
theory Misc
  imports CLib
begin

text \<open>
  The rest of misc.c. The allocation wrappers end the process when there is no memory, so
  the other theories never see a null pointer from them; the allocator itself is an
  argument. \<open>setcloseonexec\<close> and \<open>setnonblock\<close> change one flag of a descriptor with two
  calls of \<open>fcntl\<close>, which is modelled on a table of descriptors.
\<close>

unbundle bit_operations_syntax

section \<open>Allocation\<close>

text \<open>\<open>perror\<close> after a failed allocation, on what standard error has so far.\<close>

definition no_memory :: "string \<Rightarrow> string \<Rightarrow> string \<Rightarrow> (string, 'p) outcome" where
  "no_memory enomem msg err = Dead (Exited 1) (err @ msg @ '': '' @ enomem @ [newline])"

definition xmalloc :: "(nat \<Rightarrow> 'p option) \<Rightarrow> string \<Rightarrow> nat \<Rightarrow> string \<Rightarrow> (string, 'p) outcome" where
  "xmalloc malloc enomem x err =
     (case malloc x of None \<Rightarrow> no_memory enomem ''malloc'' err | Some ret \<Rightarrow> Live ret)"

definition xrealloc ::
    "('p \<Rightarrow> nat \<Rightarrow> 'p option) \<Rightarrow> string \<Rightarrow> 'p \<Rightarrow> nat \<Rightarrow> string \<Rightarrow> (string, 'p) outcome" where
  "xrealloc realloc enomem p x err =
     (case realloc p x of None \<Rightarrow> no_memory enomem ''realloc'' err | Some ret \<Rightarrow> Live ret)"

definition xstrdup ::
    "(string \<Rightarrow> 'p option) \<Rightarrow> string \<Rightarrow> string \<Rightarrow> string \<Rightarrow> (string, 'p) outcome" where
  "xstrdup strdup enomem x err =
     (case strdup x of None \<Rightarrow> no_memory enomem ''strdup'' err | Some ret \<Rightarrow> Live ret)"

text \<open>Who gets a block from them got it from the allocator; the only other end is status 1.\<close>

lemma allocation_or_exit:
  "post (xmalloc m e n err) (\<lambda>p. m n = Some p) (\<lambda>h t. h = Exited 1 \<and> m n = None)"
  "post (xrealloc r e q n err) (\<lambda>p. r q n = Some p) (\<lambda>h t. h = Exited 1 \<and> r q n = None)"
  "post (xstrdup d e x err) (\<lambda>p. d x = Some p) (\<lambda>h t. h = Exited 1 \<and> d x = None)"
  by (simp_all add: xmalloc_def xrealloc_def xstrdup_def no_memory_def split: option.split)

section \<open>Flags of descriptors\<close>

record fd_entry =
  d_flags :: "32 word"
  d_status :: "32 word"

type_synonym fd_table = "int \<Rightarrow> fd_entry option"

definition FD_CLOEXEC :: "32 word" where "FD_CLOEXEC = 1"

definition O_NONBLOCK :: "32 word" where "O_NONBLOCK = 0x800"

text \<open>
  \<open>fcntl\<close> with the four commands in use. \<open>F_SETFL\<close> takes over the flags that can be changed
  (\<open>O_APPEND\<close>, \<open>O_NONBLOCK\<close>, \<open>O_ASYNC\<close>, \<open>O_DIRECT\<close>, \<open>O_NOATIME\<close>) and ignores the others.
\<close>

datatype fcntl_cmd = F_GETFD | F_SETFD "32 word" | F_GETFL | F_SETFL "32 word"

definition SETTABLE :: "32 word" where "SETTABLE = 0x46C00"

fun fcntl :: "int \<Rightarrow> fcntl_cmd \<Rightarrow> fd_table \<Rightarrow> 32 word \<times> fd_table" where
  "fcntl fd cmd ds =
     (case ds fd of
        None \<Rightarrow> (-1, ds)
      | Some d \<Rightarrow>
          (case cmd of
             F_GETFD \<Rightarrow> (d_flags d, ds)
           | F_SETFD v \<Rightarrow> (0, ds(fd \<mapsto> d\<lparr>d_flags := v AND FD_CLOEXEC\<rparr>))
           | F_GETFL \<Rightarrow> (d_status d, ds)
           | F_SETFL v \<Rightarrow>
               (0, ds(fd \<mapsto> d\<lparr>d_status := (d_status d AND NOT SETTABLE) OR (v AND SETTABLE)\<rparr>))))"

definition setcloseonexec :: "int \<Rightarrow> fd_table \<Rightarrow> 32 word \<times> fd_table" where
  "setcloseonexec fd ds =
     (let (fl, ds) = fcntl fd F_GETFD ds
      in if sint fl < 0 then (fl, ds)
         else let fl = fl OR FD_CLOEXEC;
                  (r, ds) = fcntl fd (F_SETFD fl) ds
              in if sint r < 0 then (-1, ds) else (0, ds))"

definition setnonblock :: "int \<Rightarrow> fd_table \<Rightarrow> 32 word \<times> fd_table" where
  "setnonblock fd ds =
     (let (fl, ds) = fcntl fd F_GETFL ds
      in if sint fl < 0 then (fl, ds)
         else let fl = fl OR O_NONBLOCK;
                  (r, ds) = fcntl fd (F_SETFL fl) ds
              in if sint r < 0 then (-1, ds) else (0, ds))"

text \<open>What the kernel stores is never negative as an \<open>int\<close>, and has no descriptor flag but one.\<close>

definition fd_entry_ok :: "fd_entry \<Rightarrow> bool" where
  "fd_entry_ok d \<longleftrightarrow> 0 \<le> sint (d_flags d) \<and> 0 \<le> sint (d_status d) \<and> d_flags d AND FD_CLOEXEC = d_flags d"

lemma closed_descriptor:
  "ds fd = None \<Longrightarrow> setcloseonexec fd ds = (-1, ds)"
  "ds fd = None \<Longrightarrow> setnonblock fd ds = (-1, ds)"
  by (simp_all add: setcloseonexec_def setnonblock_def)

lemma setcloseonexec_sets:
  assumes "ds fd = Some d" and "fd_entry_ok d"
  shows "setcloseonexec fd ds = (0, ds(fd \<mapsto> d\<lparr>d_flags := FD_CLOEXEC\<rparr>))"
  using assms by (simp add: setcloseonexec_def fd_entry_ok_def bit.conj_disj_distrib2 FD_CLOEXEC_def)

text \<open>Of the status flags, only the one for blocking changes.\<close>

lemma settable_split: "(w AND NOT m) OR ((w OR b) AND m) = w OR (b AND m)" for w :: "32 word"
  by (rule bit_word_eqI) (auto simp: bit_simps)

lemma setnonblock_sets:
  assumes "ds fd = Some d" and "fd_entry_ok d"
  shows "setnonblock fd ds = (0, ds(fd \<mapsto> d\<lparr>d_status := d_status d OR O_NONBLOCK\<rparr>))"
proof -
  have "O_NONBLOCK AND SETTABLE = O_NONBLOCK" by (simp add: O_NONBLOCK_def SETTABLE_def)
  with assms show ?thesis by (simp add: setnonblock_def fd_entry_ok_def settable_split)
qed

text \<open>Both are idempotent and keep descriptors well formed.\<close>

lemma sint_or_nonneg: "0 \<le> sint (v :: 32 word) \<Longrightarrow> 0 \<le> sint w \<Longrightarrow> 0 \<le> sint (v OR w)"
  by (simp add: signed_or_eq)

lemma flags_keep_ok:
  "fd_entry_ok d \<Longrightarrow> fd_entry_ok (d\<lparr>d_flags := FD_CLOEXEC\<rparr>)"
  "fd_entry_ok d \<Longrightarrow> fd_entry_ok (d\<lparr>d_status := d_status d OR O_NONBLOCK\<rparr>)"
  by (simp_all add: fd_entry_ok_def FD_CLOEXEC_def O_NONBLOCK_def sint_or_nonneg)

lemma setnonblock_idem:
  assumes "ds fd = Some d" and "fd_entry_ok d"
  shows "setnonblock fd (snd (setnonblock fd ds)) = setnonblock fd ds"
  using assms setnonblock_sets [of "ds(fd \<mapsto> d\<lparr>d_status := d_status d OR O_NONBLOCK\<rparr>)" fd]
  by (simp add: setnonblock_sets flags_keep_ok or.assoc)

end
