(* ===== verification/Newest.thy ===== *)
theory Newest
  imports Startup Example
begin

text \<open>
  The choice of the dump for \<open>--loadlatest\<close>. The loop over the directory keeps the best
  file so far; \<open>first_newest\<close> says what that is of the whole list of candidates.
\<close>

section \<open>The first of the newest\<close>

definition first_newest :: "(string \<times> int) list \<Rightarrow> string \<times> int \<Rightarrow> bool" where
  "first_newest xs x \<longleftrightarrow>
     (\<exists>ys zs. xs = ys @ x # zs \<and> (\<forall>y \<in> set ys. snd y < snd x) \<and> (\<forall>z \<in> set zs. snd z \<le> snd x))"

lemma first_newest_one [simp]: "first_newest [x] x"
  by (simp add: first_newest_def Cons_eq_append_conv)

lemma first_newest_snoc:
  assumes "first_newest xs x"
  shows "first_newest (xs @ [y]) (if snd y > snd x then y else x)"
proof (cases "snd y > snd x")
  case True
  with assms have "\<forall>z \<in> set xs. snd z < snd y" by (force simp: first_newest_def)
  with True show ?thesis unfolding first_newest_def by (intro exI [of _ xs] exI [of _ "[]"]) simp
next
  case False
  from assms obtain ys zs where "xs = ys @ x # zs" "\<forall>z \<in> set ys. snd z < snd x" "\<forall>z \<in> set zs. snd z \<le> snd x"
    by (auto simp: first_newest_def)
  with False show ?thesis
    unfolding first_newest_def by (intro exI [of _ ys] exI [of _ "zs @ [y]"]) auto
qed

lemma first_newest_dummy:
  assumes "first_newest (d # xs) x" and "\<forall>z \<in> set xs. snd d < snd z"
  shows "if xs = [] then x = d else first_newest xs x"
proof (cases "xs = []")
  case True
  with assms(1) show ?thesis by (auto simp: first_newest_def Cons_eq_append_conv)
next
  case False
  from assms(1) obtain ys zs where s: "d # xs = ys @ x # zs" "\<forall>z \<in> set ys. snd z < snd x"
    "\<forall>z \<in> set zs. snd z \<le> snd x" by (auto simp: first_newest_def)
  show ?thesis
  proof (cases ys)
    case Nil
    with s assms(2) False show ?thesis by (cases xs) force+
  next
    case (Cons y ys')
    with s False show ?thesis unfolding first_newest_def by auto
  qed
qed

section \<open>Candidates\<close>

definition usable :: "string \<times> int option \<Rightarrow> (string \<times> int) option" where
  "usable d = (case d of (n, Some m) \<Rightarrow> if length n < PATH_MAX then Some (n, m) else None | _ \<Rightarrow> None)"

text \<open>The dump the user names, and the dumps of the directory in its order.\<close>

definition dumps_in :: "(string \<times> int option) list \<Rightarrow> (string \<times> int) list" where
  "dumps_in ds = List.map_filter usable (filter (\<lambda>d. take 8 (cstr (fst d)) = ''uberdump'') ds)"

definition candidates ::
    "(string \<times> int option) option \<Rightarrow> (string \<times> int option) list \<Rightarrow> (string \<times> int) list" where
  "candidates dump_file ds =
     (case Option.bind dump_file usable of None \<Rightarrow> [] | Some c \<Rightarrow> [c]) @ dumps_in ds"

lemma newest_step_dump:
  assumes "take 8 (cstr n) = ''uberdump''" and "length n < PATH_MAX"
  shows "newest_step (n, Some m) tn = (if m > fst tn then (m, n) else tn)"
proof -
  have "strncmp ''uberdump'' n 8 = 0" using assms(1) by (simp add: strncmp_0 cstr_def)
  with assms(2) show ?thesis by (simp add: newest_step_def)
qed

lemma newest_step_other:
  assumes "take 8 (cstr (fst d)) \<noteq> ''uberdump'' \<or> usable d = None"
  shows "newest_step d tn = tn"
proof -
  have "strncmp ''uberdump'' (fst d) 8 = 0 \<longleftrightarrow> take 8 (cstr (fst d)) = ''uberdump''"
    by (auto simp: strncmp_0 cstr_def)
  with assms show ?thesis by (auto simp: newest_step_def usable_def split: option.splits prod.splits)
qed

lemma newest_fold:
  "case fold newest_step ds tn of (t, n) \<Rightarrow> first_newest ((snd tn, fst tn) # dumps_in ds) (n, t)"
proof (induction ds rule: rev_induct)
  case Nil
  then show ?case by (cases tn) (simp add: dumps_in_def map_filter_def)
next
  case (snoc d ds)
  obtain t n where r: "fold newest_step ds tn = (t, n)" by fastforce
  with snoc have IH: "first_newest ((snd tn, fst tn) # dumps_in ds) (n, t)" by simp
  show ?case
  proof (cases "take 8 (cstr (fst d)) = ''uberdump'' \<and> usable d \<noteq> None")
    case True
    then obtain f m where d: "d = (f, Some m)" "length f < PATH_MAX"
      by (cases d) (auto simp: usable_def split: option.splits if_splits)
    then have "dumps_in (ds @ [d]) = dumps_in ds @ [(f, m)]"
      using True by (simp add: dumps_in_def map_filter_def usable_def)
    moreover have "newest_step d (t, n) = (if m > t then (m, f) else (t, n))"
      using True d newest_step_dump [of f m "(t, n)"] by simp
    ultimately show ?thesis
      using first_newest_snoc [OF IH, of "(f, m)"] r by (simp split: if_splits)
  next
    case False
    then have "dumps_in (ds @ [d]) = dumps_in ds" by (auto simp: dumps_in_def map_filter_def)
    moreover have "newest_step d (t, n) = (t, n)" by (rule newest_step_other) (use False in blast)
    ultimately show ?thesis using IH r by simp
  qed
qed

section \<open>Loading\<close>

text \<open>
  C18. With \<open>--loadlatest\<close> the server loads the newest dump: of the file the user names, if
  it exists, and the files of the directory whose names start as those of dumps do, the one
  that was modified last; the file of the user before all others of the same second, and
  else the first of the directory. Files older than 1970 aside, it loads nothing only if
  there is no candidate, and a directory that cannot be read ends the server.
\<close>

theorem newest_dump_is_loaded:
  assumes "\<forall>c \<in> set (candidates dump_file ds). fst c \<noteq> [] \<and> 0 < snd c"
  shows "load_newest_dump E dump_file None s = Dead (Exited 1) s \<and>
    (if candidates dump_file ds = [] then load_newest_dump E dump_file (Some ds) s = Live s
     else \<exists>ys n m zs. candidates dump_file ds = ys @ (n, m) # zs \<and>
       (\<forall>y \<in> set ys. snd y < m) \<and> (\<forall>z \<in> set zs. snd z \<le> m) \<and>
       load_newest_dump E dump_file (Some ds) s = bindO (load_dump E n s) (\<lambda>(ok, s). Live s))"
proof -
  let ?cs = "candidates dump_file ds"
  obtain t n where r: "fold newest_step ds (newest_start dump_file) = (t, n)" by fastforce
  have best: "if ?cs = [] then n = [] else first_newest ?cs (n, t)"
  proof (cases "Option.bind dump_file usable")
    case None
    then have "newest_start dump_file = (0, [])" "?cs = dumps_in ds"
      by (auto simp: newest_start_def candidates_def usable_def split: option.splits)
    with newest_fold [of "newest_start dump_file" ds] r
      first_newest_dummy [of "([], 0)" ?cs "(n, t)"] assms show ?thesis
      by (simp split: if_splits)
  next
    case (Some c)
    then have "newest_start dump_file = (snd c, fst c)" "?cs = c # dumps_in ds"
      by (auto simp: newest_start_def candidates_def usable_def split: option.splits if_splits)
    with newest_fold [of "newest_start dump_file" ds] r show ?thesis by simp
  qed
  show ?thesis
  proof (cases "?cs = []")
    case True
    with best r show ?thesis by (simp add: load_newest_dump_def)
  next
    case False
    with best obtain ys zs where c: "?cs = ys @ (n, t) # zs" "\<forall>y \<in> set ys. snd y < t"
      "\<forall>z \<in> set zs. snd z \<le> t" by (auto simp: first_newest_def)
    with assms have "n \<noteq> []" by simp
    then have "load_newest_dump E dump_file (Some ds) s = bindO (load_dump E n s) (\<lambda>(ok, s). Live s)"
      using r by (simp add: load_newest_dump_def)
    moreover have "load_newest_dump E dump_file None s = Dead (Exited 1) s"
      by (simp add: load_newest_dump_def)
    ultimately show ?thesis using c False by auto
  qed
qed

text \<open>
  The file of the user is gone, a foreign file is the newest, and of two dumps of one second
  the first is loaded. Its file is missing from the model, so loading it changes nothing.
\<close>

lemma newest_dump_is_loaded_witness:
  "load_newest_dump demo_env (Some (''mine'', None))
     (Some [(''notes'', Some 99), (''uberdump_1'', Some 7), (''uberdump_3'', Some 8), (''uberdump_2'', Some 8)])
     (init_server\<lparr>files := [''uberdump_3'' \<mapsto> []]\<rparr>) = Live (init_server\<lparr>files := [''uberdump_3'' \<mapsto> []]\<rparr>)"
proof -
  let ?ds = "[(''notes'', Some 99), (''uberdump_1'', Some 7), (''uberdump_3'', Some 8), (''uberdump_2'', Some (8 :: int))]"
  let ?s = "init_server\<lparr>files := [''uberdump_3'' \<mapsto> []]\<rparr>"
  have c: "candidates (Some (''mine'', None)) ?ds = [(''uberdump_1'', 7), (''uberdump_3'', 8), (''uberdump_2'', 8)]"
    by (simp add: candidates_def dumps_in_def usable_def map_filter_def cstr_def)
  from newest_dump_is_loaded [of "Some (''mine'', None)" ?ds demo_env ?s]
  obtain ys n m zs where n: "[(''uberdump_1'', 7), (''uberdump_3'', 8), (''uberdump_2'', 8 :: int)] = ys @ (n, m) # zs"
    "\<forall>y \<in> set ys. snd y < m" "\<forall>z \<in> set zs. snd z \<le> m"
    "load_newest_dump demo_env (Some (''mine'', None)) (Some ?ds) ?s = bindO (load_dump demo_env n ?s) (\<lambda>(ok, s). Live s)"
    by (auto simp: c)
  then have "n = ''uberdump_3''" by (auto simp: Cons_eq_append_conv)
  with n(4) show ?thesis by (simp add: load_dump_def)
qed

end
