(* ===== verification/Spec2Isabelle.thy ===== *)
theory Spec2Isabelle
  imports Exchange Notify Child Hashmem Stailq Tailq Setup Proxy Bursts Misc Newest
begin

text \<open>
  Verification development for ubervisor, a process control daemon written in C. A server
  (cmd_server.c) keeps groups of processes: it starts them, restarts those that exit, ends
  those that are too old, gives up on groups that keep failing, and does what clients ask
  over a Unix socket. The same binary is the client: main.c dispatches to the cmd_*.c files,
  each of which sends one request and prints the reply.

  \<^bold>\<open>Reading order, and what models what\<close>

  \<^item> Prelude: the outcome of a C routine, which returns (\<open>Live\<close>) or ends the process
    (\<open>Dead\<close>, by \<open>exit\<close>, an assertion, undefined behaviour or a loop without end), with the
    rules for \<open>post\<close> that every proof about a handler walks along. Runs: sequences of
    operations, with locales for invariants and simulations.
  \<^item> CLib: the C library as the program uses it, \<open>xstrcmp\<close> (misc.c) and \<open>replace_str\<close>.
    Misc: the rest of misc.c, allocation wrappers and flags of descriptors. Getopt: \<open>getopt_long\<close>. Json: the values of the JSON library and its accessors.
  \<^item> Links, Queue, Slist, Stailq, Tailq: the four families of list macros of compat/queue.h on
    a memory of pointers, each an interpretation of one locale that refines them to operations
    on HOL lists, which the other theories use for the lists of the program.
  \<^item> Tables, UvHash: uvhash.c, against a locale of symbol tables. Hashmem: the same table with
    its buckets in memory, entry by entry.
  \<^item> Config: child_config.c, the record of a group and its JSON form. State: the state of
    the server, a record with heaps of groups, processes and connections, the tables, the
    bytes queued for each client, and a trace of effects; slog, notifications, replies.
  \<^item> Process: process.c, \<open>spawn\<close>, \<open>heartbeat_cb\<close>, \<open>sigchld_cb\<close> and what they call.
    Invariants, Frame, Supervise, Uptime: the heap invariant \<open>srv_inv\<close>, what output leaves
    alone, the effect of each routine, and the promise \<open>sup_inv\<close> that running groups are up.
    Child: what a forked child does up to \<open>execv\<close>.
  \<^item> Commands: every command handler but \<open>c_updt\<close> (Update) and \<open>c_read\<close> (ReadLog); Handlers,
    Delete, Fill, Start: their lemmas, each as an interpretation of the locale of handlers.
  \<^item> Server, Service: the command table, \<open>read_cb\<close>, connections. Startup: options and dumps;
    Newest: which dump is loaded. System: the server as a step relation over events, its
    reachable states. Bursts: histories of exits, and when a group is given up. Setup: what
    \<open>cmd_server\<close> does before it serves.
  \<^item> Client: client.c. Protocol, Reply: requests and replies from end to end. Queries, Notify,
    Dumps: what commands answer, who is notified, and the files of a dump. Usage, Commandline,
    Tools, Proxy: main.c and the cmd_*.c files. Endtoend: what the commands make of their
    arguments and replies. Exchange: a command, the server and the printed answer in one.
    Example: a concrete server, to which the theorems are applied.

  \<^bold>\<open>What the theorems show\<close>

  The promise of the program is C1: in every reachable state each slot of a running group
  holds a live process, unless a system call had failed. C2 and C3 are its parts, reaping and
  the handling of every event, with the ways in which the server can end; the theorem about
  bursts says when the server stops restarting the processes of a group. The theorems about
  single commands say what each does on success and that a refusal changes nothing; those
  about the protocol that requests and replies survive any segmentation of the stream (but
  for the short headers the client cannot read); those about dumps that a server can be
  restored from what another wrote; those about tables and lists that they refine their
  specifications, on the pointers they are made of; those about start-up and the child that socket, files and credentials are
  those that were asked for. Some theorems state what the code does although it should not:
  a group with a group id and no user that can never start, a reply that is released twice,
  an argument list that makes the server read uninitialised memory.

  \<^bold>\<open>Bounds and fuel\<close>

  The loop of \<open>read_cb\<close> has the length of the input as fuel, and the theorems show that it is
  never used up; the loops of the client end with the stream, by a measure. Pids, command
  ids and lengths are words or integers within the range of their C types, and conversions
  are written out. Files of a dump are taken to be shorter than 2 GB. Times are unbounded.

  \<^bold>\<open>Parameters\<close>

  The JSON library (parser and printer), the answers of the kernel and of libevent, the
  formats of \<open>strftime\<close>, the texts of \<open>strerror\<close>, the user database, the directory listing
  and \<open>strtod\<close>. Every theorem holds for all of them; hypotheses on them say that a new pid is
  not that of a living child (\<open>fork_fresh\<close>), that a write is accepted, or that the library
  reads what it printed.

  \<^bold>\<open>Not modelled\<close>

  Allocation never fails and released memory is not reused; the identity of blocks is their
  address, and use after release is \<open>Undefined\<close> for groups, processes and connections. The
  routines that set flags of descriptors are in Misc; in the server their effect appears only
  as the report socket that \<open>execv\<close> closes. The second opening of the log file in \<open>cmd_server\<close>, after the fork, is
  taken to succeed. The messages of \<open>getopt\<close>, the process title, the tracing macros of
  queue.h, which are empty unless it is built for debugging, and the Python client, tests and
  scripts are left out.
\<close>

section \<open>The server as a whole\<close>


lemma demo_sys: "demo_zombies zs \<Longrightarrow> sys_ok (demo_server zs)"
  using demo_ok by (simp add: sys_ok_def idle_def con_ok_def demo_con_def)


text \<open>
  C4. Every group stays well typed: in every reachable state, a registered group has a name,
  strings without NUL, numbers within \<open>int\<close>, and a slot array of exactly as many slots as it
  has instances; it is in the list of groups, its name leads through the table to a group of
  that name, and as long as its error count is an \<open>int\<close> the object it is dumped as is read
  back as its image.
\<close>

theorem groups_stay_well_typed:
  assumes "fork_fresh E" and "sys_ok s0" and "reachable E s0 s" and "cfgs s a = Some cc"
  shows "config_wf cc \<and> 0 \<le> cc_instances cc \<and> length (cc_childs cc) = nat (cc_instances cc) \<and>
    a \<in> set (child_config_list s) \<and>
    (\<exists>n b cc'. cc_name cc = Some n \<and> child_config_find_by_name n s = Some b \<and>
       cfgs s b = Some cc' \<and> cc_name cc' = Some n) \<and>
    (is_int (cc_error cc) \<longrightarrow>
       child_config_from_json (child_config_json cc) = Live (Some (config_image cc)))"
proof -
  have inv: "srv_inv s" using reachable_ok [OF assms(3,1,2)] by (simp add: sys_ok_parts)
  have wf: "config_wf cc \<and> 0 \<le> cc_instances cc \<and> length (cc_childs cc) = nat (cc_instances cc)"
    by (rule inv_sizes [OF inv assms(4)])
  then obtain n where n: "cc_name cc = Some n" "is_cstr n" by (auto simp: config_wf_def)
  obtain b where b: "child_config_find_by_name n s = Some b"
    using find_by_name_None [OF inv n(2) _ assms(4)] n(1) by (cases "child_config_find_by_name n s") auto
  obtain cc' where "cfgs s b = Some cc'" "cc_name cc' = Some n" by (rule find_by_name_Some [OF inv n(2) b])
  moreover have "a \<in> set (child_config_list s)"
    using inv assms(4) by (auto simp: srv_inv_def registry_ok_def)
  ultimately show ?thesis using wf n(1) b from_json_config_json by blast
qed

lemma groups_stay_well_typed_witness:
  "config_wf demo_cc \<and> child_config_from_json (child_config_json demo_cc) = Live (Some (config_image demo_cc))"
proof -
  have "reachable demo_env (demo_server []) ((demo_server [])\<lparr>now := 1005\<rparr>)"
    by (rule run_reachable [of _ "[Clock 1005]", OF _ reachable.start]) simp
  moreover have "demo_zombies []" by (simp add: demo_zombies_def)
  moreover have "is_int (cc_error demo_cc)" by (simp add: demo_cc_def child_config_new_def is_int_def)
  ultimately show ?thesis
    using groups_stay_well_typed [OF demo_fork demo_sys, of "[]" "(demo_server [])\<lparr>now := 1005\<rparr>" 1 demo_cc] by simp
qed





text \<open>
  C24. The command of a request is found by binary search exactly when a linear search of the
  table finds an entry that is the first four characters of the request.
\<close>

theorem command_search:
  "bsearch (command_compar buf) commands = List.find (\<lambda>cmd. fst cmd = take 4 (cstr buf)) commands"
  by (rule find_command)

text \<open>
  C16. A command that is run keeps the invariants whatever it is and whatever its payload: the
  other connections are as before, and the connection itself is as before if the command
  says so and is gone, with its subscriptions, if not.
\<close>

theorem commands_serve:
  assumes "fork_fresh E" and "srv_ok s" and "conn_live con s"
    and "payload_ok (tokener_parse E) (cstr (drop 4 buf))"
  shows "post (run_server_command E buf con s)
    (\<lambda>(cr, s'). srv_ok s' \<and> (\<forall>a. a \<noteq> con \<longrightarrow> con_view s' a = con_view s a) \<and>
       (if cr then con_view s' con = con_view s con
        else conns s' con = None \<and> (\<forall>u \<in> set (subscription_list s'). s_client u \<noteq> con))) dead_ok"
proof (rule post_mono [OF run_server_command_post [OF assms(1-3)]])
  show "case x of (cr, s') \<Rightarrow> srv_ok s' \<and> (\<forall>a. a \<noteq> con \<longrightarrow> con_view s' a = con_view s a) \<and>
       (if cr then con_view s' con = con_view s con
        else conns s' con = None \<and> (\<forall>u \<in> set (subscription_list s'). s_client u \<noteq> con))"
    if "case x of (cr, s') \<Rightarrow> served con s cr s'" for x
  proof -
    obtain cr s' where x: "x = (cr, s')" by (cases x)
    with that have sv: "served con s cr s'" by simp
    have "subs_live s'" using sv by (simp add: served_def srv_ok_def inv_subs_live)
    then have "\<forall>u \<in> set (subscription_list s'). s_client u \<noteq> con" if "conns s' con = None"
      using that by (auto simp: subs_live_def conn_live_def)
    with sv show ?thesis by (auto simp: x served_def con_view_def)
  qed
qed (use assms(4) in auto)

lemma commands_serve_witness:
  "post (run_server_command demo_env ''NOPE'' 0 (demo_server [])) (\<lambda>(cr, s'). \<not> cr \<and> conns s' 0 = None) dead_ok"
proof -
  have none: "bsearch (command_compar ''NOPE'') commands = None"
    unfolding find_command by (simp add: commands_def cstr_def)
  have "payload_ok (tokener_parse demo_env) (cstr (drop 4 ''NOPE''))"
    by (simp add: payload_ok_def cstr_def demo_env_def demo_parse_def req_web_def req_start_def
        req_update_def req_bad_def)
  from commands_serve [OF demo_fork demo_ok demo_conn this, of "[]"] none
  show ?thesis
    by (simp add: run_server_command_def drop_eval demo_zombies_def)
qed

section \<open>Process supervision\<close>

text \<open>
  C2. The callback for SIGCHLD, from a good state and with a kernel that gives fresh pids:
  it keeps the heap invariant and the supervision invariant, and what it does is a chain of
  complete reaps (\<open>reap_chain\<close>). The only way it can end the server is the assertion on the
  size of a notification.
\<close>

theorem sigchld_supervises:
  assumes "fork_fresh E" and "srv_ok s"
  shows "post (sigchld_cb E s) (\<lambda>s'. srv_ok s' \<and> reap_chain E s s') (\<lambda>h t. h = Aborted)"
  by (rule sigchld_cb_post [OF assms])

lemma sigchld_supervises_witness:
  "post (sigchld_cb demo_env (demo_server [(101, 256), (102, 15)]))
     (\<lambda>s'. srv_ok s' \<and> reap_chain demo_env (demo_server [(101, 256), (102, 15)]) s')
     (\<lambda>h t. h = Aborted)"
  by (rule sigchld_supervises [OF demo_fork demo_ok]) (simp add: demo_zombies_def)



section \<open>Commands\<close>

text \<open>
  C7. The start command: a configuration that is accepted becomes a group under a fresh
  address, with the requested number of slots, each holding a process if the group is to
  run (or a system call failed), and the client gets its answer. Anything else is answered
  with an error and changes nothing else.
\<close>

theorem start_creates_or_refuses:
  assumes "fork_fresh E" and "srv_ok s" and "conn_live con s"
    and "child_config_unserialize (tokener_parse E) buf = Live (Some cc)"
  shows "(start_accepts s cc \<and>
      post (c_spwn E con buf s)
        (\<lambda>(cr, s'). cr \<and> srv_ok s' \<and> peers s' = peers s \<and> started (start_defaults cc) s s') dead_ok) \<or>
    (\<not> start_accepts s cc \<and> (\<exists>msg. c_spwn E con buf s = reply E con False msg True s))"
proof -
  have wf: "config_wf (start_defaults cc)"
    using unserialize_wf [OF assms(4)] by (simp add: wf_start_defaults)
  have "0 \<le> cc_instances (start_defaults cc)" if "start_accepts s cc"
    using that by (simp add: start_accepts_def)
  then show ?thesis
    using c_spwn_accepts [OF srv_okD(1) [OF assms(2)] assms(4), of con]
      c_spwn_create_post [OF assms(1-3) wf] by auto
qed

lemma req_start_parses:
  "child_config_unserialize demo_parse req_start =
     Live (Some (child_config_new\<lparr>cc_name := Some ''db'', cc_command := Some [''pg'']\<rparr>))"
proof -
  have "demo_parse req_start = Some (JObject [(''name'', JString ''db''), (''args'', JArray [JString ''pg''])])"
    by (simp add: demo_parse_def req_start_def req_web_def js_def)
  then show ?thesis
    by (simp add: child_config_unserialize_def json_object_is_type_def child_config_from_json_def
        child_config_get_fields_def GET_def GETINT_def child_config_new_def json_object_array_length_def
        cstr_def)
qed

lemma start_creates_or_refuses_witness:
  "post (c_spwn demo_env 0 req_start (demo_server []))
     (\<lambda>(cr, s'). cr \<and> srv_ok s' \<and> child_config_list s' = [4, 1]) dead_ok"
proof -
  let ?cc = "child_config_new\<lparr>cc_name := Some ''db'', cc_command := Some [''pg'']\<rparr>"
  have u: "child_config_unserialize (tokener_parse demo_env) req_start = Live (Some ?cc)"
    by (simp add: req_start_parses demo_env_def)
  have acc: "start_accepts (demo_server []) ?cc"
    by (auto simp: start_accepts_def start_defaults_def child_config_new_def split: if_splits)
  from start_creates_or_refuses [OF demo_fork demo_ok demo_conn u, of "[]"] acc
  have "post (c_spwn demo_env 0 req_start (demo_server []))
      (\<lambda>(cr, s'). cr \<and> srv_ok s' \<and> peers s' = peers (demo_server []) \<and>
        started (start_defaults ?cc) (demo_server []) s') dead_ok"
    by (simp add: demo_zombies_def)
  then show ?thesis by (rule post_mono) (auto simp: started_def)
qed




text \<open>
  The kill command on a group that exists sends the signal (the one asked for, else the
  group's) to exactly the processes of the selected slots, in slot order, and does nothing
  else to the groups, processes and files.
\<close>

theorem kill_signals_exactly:
  assumes "srv_ok s" and "conn_live con s"
    and "tokener_parse E buf = Some obj" and "json_object_is_type obj json_type_object"
    and "json_object_object_get obj ''name'' = Some m" and "json_object_is_type m json_type_string"
    and "child_config_find_by_name (json_object_get_string m) s = Some a" and "cfgs s a = Some cc"
  shows "post (c_kill E con buf s)
    (\<lambda>(cr, s'). cr \<and> core s' = core s \<and>
      acts s' = acts s @ map (\<lambda>p. EvKill p (get_int_or obj ''sig'' (cc_killsig cc)))
        (group_pids s cc (kill_slots (get_int_or obj ''index'' (-1)) cc))) dead_ok"
  by (rule c_kill_group [OF assms(1,2) is_cstr_get_string assms(3-6) refl assms(7,8)])

lemma req_web_parses: "tokener_parse demo_env req_web = Some (JObject [(''name'', JString ''web'')])"
  by (simp add: demo_env_def demo_parse_def)

lemma kill_signals_exactly_witness:
  "post (c_kill demo_env 0 req_web (demo_server []))
     (\<lambda>(cr, s'). acts s' = [EvKill 101 15, EvKill 102 15]) dead_ok"
proof (rule post_mono [OF kill_signals_exactly [OF demo_ok demo_conn req_web_parses]])
  show "child_config_find_by_name (json_object_get_string (JString ''web'')) (demo_server []) = Some 1"
    by (simp add: demo_find cstr_def)
  show "cfgs (demo_server []) 1 = Some demo_cc" by simp
  show "case x of (cr, s') \<Rightarrow> acts s' = [EvKill 101 15, EvKill 102 15]"
    if "case x of (cr, s') \<Rightarrow> cr \<and> core s' = core (demo_server []) \<and>
      acts s' = acts (demo_server []) @
        map (\<lambda>p. EvKill p (get_int_or (JObject [(''name'', JString ''web'')]) ''sig'' (cc_killsig demo_cc)))
          (group_pids (demo_server []) demo_cc
            (kill_slots (get_int_or (JObject [(''name'', JString ''web'')]) ''index'' (-1)) demo_cc))" for x
    using that demo_pids [of "[]"]
    by (cases x) (simp add: get_int_or_def kill_slots_def acts_def [of "demo_server []"])
qed (simp_all add: demo_zombies_def json_object_is_type_def)

end
